(* ===== verification/Prelude.thy ===== *)
theory Prelude
  imports Main "HOL-Library.Word" "HOL-Library.Multiset" "HOL-Library.Sublist"
begin

text \<open>
  Shared vocabulary of the development: the types that stand for Rust's machine integers, byte
  strings, panicking computations and hash maps; the small part of the standard library's
  iterator and integer interface that several components call (\<open>position\<close>, \<open>windows\<close>,
  \<open>checked_add\<close>, \<open>saturating_sub\<close>); the sequencing operators of the stateful components; and
  the generic lemmas and \<open>named_theorems\<close> collections their proofs use.

  The target is a 64-bit Unix host: \<open>usize\<close> and \<open>u64\<close> are both \<open>64 word\<close> where an operation
  may wrap, and \<open>nat\<close> where the value is the length of something that is in memory.
\<close>

section \<open>Types\<close>

type_synonym u8 = "8 word"
type_synonym u16 = "16 word"
type_synonym u32 = "32 word"
type_synonym u64 = "64 word"
type_synonym usize = "64 word"

text \<open>A byte is a \<open>char\<close>; a \<open>&[u8]\<close>, a \<open>Vec<u8>\<close> and (its UTF-8 bytes) a \<open>String\<close> are lists of them.\<close>

type_synonym byte = char
type_synonym bytes = "char list"

text \<open>The result of code that may panic. \<open>Result\<close> itself is the sum type, \<open>Inl\<close> the error.\<close>

datatype 'a outcome = Return (returned: 'a) | Panic

text \<open>A \<open>HashMap\<close> in its (arbitrary) iteration order: an association list with distinct keys.\<close>

type_synonym ('k, 'v) hashmap = "('k \<times> 'v) list"

definition hashmap_ok :: "('k, 'v) hashmap \<Rightarrow> bool" where
  "hashmap_ok m \<longleftrightarrow> distinct (map fst m)"

definition contains_key :: "('k, 'v) hashmap \<Rightarrow> 'k \<Rightarrow> bool" where
  "contains_key m k \<longleftrightarrow> map_of m k \<noteq> None"

section \<open>Proof collections\<close>

named_theorems ascii_simps "classification of bytes"
named_theorems worker_defs "definitions of the worker operations"
named_theorems frame_simps "what an operation leaves unchanged"
named_theorems inv_intros "operations that keep an invariant"

section \<open>Iterator functions\<close>

fun position :: "('a \<Rightarrow> bool) \<Rightarrow> 'a list \<Rightarrow> nat option" where
  "position p [] = None"
| "position p (x # xs) = (if p x then Some 0 else map_option Suc (position p xs))"

definition windows :: "nat \<Rightarrow> 'a list \<Rightarrow> 'a list list" where
  "windows n xs = map (\<lambda>i. take n (drop i xs)) [0..<length xs + 1 - n]"

fun find_map :: "('a \<Rightarrow> 'b option) \<Rightarrow> 'a list \<Rightarrow> 'b option" where
  "find_map f [] = None"
| "find_map f (x # xs) = (case f x of None \<Rightarrow> find_map f xs | Some y \<Rightarrow> Some y)"

text \<open>\<open>slice.get(i)\<close>: the checked read of a vector.\<close>

definition get :: "'a list \<Rightarrow> nat \<Rightarrow> 'a option" where
  "get xs i = (if i < length xs then Some (xs ! i) else None)"

text \<open>\<open>Iterator::max_by_key\<close>: of several maximal elements, the last one is returned.\<close>

fun max_by_key_from :: "('a \<Rightarrow> nat) \<Rightarrow> 'a \<Rightarrow> 'a list \<Rightarrow> 'a" where
  "max_by_key_from key best [] = best"
| "max_by_key_from key best (x # xs) =
     max_by_key_from key (if key best \<le> key x then x else best) xs"

definition max_by_key :: "('a \<Rightarrow> nat) \<Rightarrow> 'a list \<Rightarrow> 'a option" where
  "max_by_key key xs = (case xs of [] \<Rightarrow> None | x # xs' \<Rightarrow> Some (max_by_key_from key x xs'))"

text \<open>\<open>collect::<Result<Vec<_>, _>>\<close>: the first error, or all values in order.\<close>

fun collect_results :: "('e + 'a) list \<Rightarrow> 'e + 'a list" where
  "collect_results [] = Inr []"
| "collect_results (Inl e # rs) = Inl e"
| "collect_results (Inr x # rs) =
     (case collect_results rs of Inl e \<Rightarrow> Inl e | Inr xs \<Rightarrow> Inr (x # xs))"

text \<open>A loop body that may return an error early: \<open>for x in xs { f(x)?; }\<close> without state.\<close>

fun try_for_each :: "('a \<Rightarrow> 'e + unit) \<Rightarrow> 'a list \<Rightarrow> 'e + unit" where
  "try_for_each f [] = Inr ()"
| "try_for_each f (x # xs) = (case f x of Inl e \<Rightarrow> Inl e | Inr _ \<Rightarrow> try_for_each f xs)"

section \<open>Machine integers\<close>

definition checked_add :: "'a::len word \<Rightarrow> 'a word \<Rightarrow> 'a word option" where
  "checked_add a b = (if unat a + unat b < 2 ^ LENGTH('a) then Some (a + b) else None)"

definition saturating_sub :: "'a::len word \<Rightarrow> 'a word \<Rightarrow> 'a word" where
  "saturating_sub a b = (if b \<le> a then a - b else 0)"

definition saturating_add :: "'a::len word \<Rightarrow> 'a word \<Rightarrow> 'a word" where
  "saturating_add a b = (case checked_add a b of Some c \<Rightarrow> c | None \<Rightarrow> - 1)"

text \<open>\<open>is_power_of_two\<close>: exactly one bit is set, computed as the standard library does.\<close>

definition is_power_of_two :: "'a::len word \<Rightarrow> bool" where
  "is_power_of_two w \<longleftrightarrow> w \<noteq> 0 \<and> and w (w - 1) = 0"

section \<open>State-passing computations\<close>

text \<open>
  A method with \<open>&mut self\<close> that returns \<open>io::Result\<close> maps the state to an outcome and the new
  state. An early return with \<open>?\<close> and a panic both keep the mutations made so far.
\<close>

type_synonym ('e, 's, 'a) op = "'s \<Rightarrow> ('e + 'a) outcome \<times> 's"

definition ok :: "'a \<Rightarrow> ('e, 's, 'a) op" where
  "ok x s = (Return (Inr x), s)"

definition err :: "'e \<Rightarrow> ('e, 's, 'a) op" where
  "err e s = (Return (Inl e), s)"

definition panic :: "('e, 's, 'a) op" where
  "panic s = (Panic, s)"

text \<open>\<open>bindq m f\<close> is \<open>let x = m?; f x\<close>.\<close>

definition bindq :: "('e, 's, 'a) op \<Rightarrow> ('a \<Rightarrow> ('e, 's, 'b) op) \<Rightarrow> ('e, 's, 'b) op" where
  "bindq m f s = (case m s of
     (Return (Inr x), s') \<Rightarrow> f x s'
   | (Return (Inl e), s') \<Rightarrow> (Return (Inl e), s')
   | (Panic, s') \<Rightarrow> (Panic, s'))"

text \<open>Reading and changing the state; \<open>r?\<close> on a result; and a result that is matched instead.\<close>

definition gets :: "('s \<Rightarrow> 'a) \<Rightarrow> ('e, 's, 'a) op" where
  "gets f s = (Return (Inr (f s)), s)"

definition modify :: "('s \<Rightarrow> 's) \<Rightarrow> ('e, 's, unit) op" where
  "modify f s = (Return (Inr ()), f s)"

definition of_result :: "'e + 'a \<Rightarrow> ('e, 's, 'a) op" where
  "of_result r s = (Return r, s)"

definition attempt :: "('e, 's, 'a) op \<Rightarrow> ('f, 's, 'e + 'a) op" where
  "attempt m s = (case m s of (Return r, s') \<Rightarrow> (Return (Inr r), s') | (Panic, s') \<Rightarrow> (Panic, s'))"

definition do_when :: "bool \<Rightarrow> ('e, 's, unit) op \<Rightarrow> ('e, 's, unit) op" where
  "do_when b m = (if b then m else ok ())"

text \<open>\<open>for x in xs { f(x)?; }\<close>\<close>

fun for_each :: "('a \<Rightarrow> ('e, 's, unit) op) \<Rightarrow> 'a list \<Rightarrow> ('e, 's, unit) op" where
  "for_each f [] = ok ()"
| "for_each f (x # xs) = bindq (f x) (\<lambda>_. for_each f xs)"

section \<open>Lemmas on lists\<close>

lemma position_Some_iff:
  "position p xs = Some i \<longleftrightarrow> i < length xs \<and> p (xs ! i) \<and> (\<forall>j < i. \<not> p (xs ! j))"
proof (induction xs arbitrary: i)
  case Nil
  then show ?case by simp
next
  case (Cons x xs)
  then show ?case
    by (cases i) (auto simp: less_Suc_eq_0_disj)
qed

lemma position_None_iff: "position p xs = None \<longleftrightarrow> (\<forall>x \<in> set xs. \<not> p x)"
  by (induction xs) auto

lemma position_map: "position p (map f xs) = position (p \<circ> f) xs"
  by (induction xs) auto

lemma take_length_append: "length xs = n \<Longrightarrow> take n (xs @ ys) = xs"
  by simp

lemma mset_rotate [simp]: "mset (rotate n xs) = mset xs"
proof -
  have "mset (rotate n xs) = mset (take (n mod length xs) xs @ drop (n mod length xs) xs)"
    by (simp only: rotate_drop_take mset_append union_commute)
  then show ?thesis by simp
qed

lemma get_Some_iff [simp]: "get xs i = Some x \<longleftrightarrow> i < length xs \<and> xs ! i = x"
  by (auto simp: get_def)

lemma get_None_iff [simp]: "get xs i = None \<longleftrightarrow> length xs \<le> i"
  by (auto simp: get_def)

lemma length_windows [simp]: "length (windows n xs) = length xs + 1 - n"
  by (simp add: windows_def)

lemma nth_windows: "i < length xs + 1 - n \<Longrightarrow> windows n xs ! i = take n (drop i xs)"
  by (simp add: windows_def)

lemma find_map_Some_iff:
  "find_map f xs = Some y \<longleftrightarrow>
     (\<exists>i < length xs. f (xs ! i) = Some y \<and> (\<forall>j < i. f (xs ! j) = None))"
proof (induction xs)
  case Nil
  then show ?case by simp
next
  case (Cons x xs)
  show ?case
  proof (cases "f x")
    case None
    have "(\<exists>i < length (x # xs). f ((x # xs) ! i) = Some y \<and> (\<forall>j < i. f ((x # xs) ! j) = None))
        = (\<exists>i < length xs. f (xs ! i) = Some y \<and> (\<forall>j < i. f (xs ! j) = None))"
      (is "?L = ?R")
    proof
      assume ?L
      then obtain i where i: "i < length (x # xs)" "f ((x # xs) ! i) = Some y"
        "\<forall>j < i. f ((x # xs) ! j) = None" by blast
      with None obtain k where k: "i = Suc k" by (cases i) auto
      have "\<forall>j < k. f (xs ! j) = None" using i(3) k by fastforce
      with i k show ?R by auto
    next
      assume ?R
      then obtain i where i: "i < length xs" "f (xs ! i) = Some y"
        "\<forall>j < i. f (xs ! j) = None" by blast
      have "\<forall>j < Suc i. f ((x # xs) ! j) = None"
        using i(3) None by (auto simp: less_Suc_eq_0_disj)
      with i show ?L by (intro exI[of _ "Suc i"]) auto
    qed
    with None Cons show ?thesis by simp
  next
    case (Some z)
    then show ?thesis by fastforce
  qed
qed

lemma find_map_None_iff: "find_map f xs = None \<longleftrightarrow> (\<forall>x \<in> set xs. f x = None)"
  by (induction xs) (auto split: option.splits)

lemma max_by_key_from_in: "max_by_key_from key b xs \<in> insert b (set xs)"
  by (induction xs arbitrary: b) auto

lemma max_by_key_from_max:
  "x \<in> insert b (set xs) \<Longrightarrow> key x \<le> key (max_by_key_from key b xs)"
proof (induction xs arbitrary: b x)
  case Nil
  then show ?case by simp
next
  case (Cons a xs)
  let ?b = "if key b \<le> key a then a else b"
  have step: "key y \<le> key (max_by_key_from key ?b xs)" if "y \<in> insert ?b (set xs)" for y
    using Cons.IH that by blast
  from Cons.prems consider "x = b" | "x = a" | "x \<in> set xs" by auto
  then show ?case
  proof cases
    case 1
    have "key b \<le> key ?b" by simp
    also have "\<dots> \<le> key (max_by_key_from key ?b xs)" by (rule step) simp
    finally show ?thesis using 1 by simp
  next
    case 2
    have "key a \<le> key ?b" by simp
    also have "\<dots> \<le> key (max_by_key_from key ?b xs)" by (rule step) simp
    finally show ?thesis using 2 by simp
  next
    case 3
    then show ?thesis using step by simp
  qed
qed

lemma max_by_key_in: "max_by_key key xs = Some x \<Longrightarrow> x \<in> set xs"
  using max_by_key_from_in by (fastforce simp: max_by_key_def split: list.splits)

lemma max_by_key_max: "max_by_key key xs = Some x \<Longrightarrow> y \<in> set xs \<Longrightarrow> key y \<le> key x"
  by (auto simp: max_by_key_def max_by_key_from_max split: list.splits)

text \<open>The last of the maximal elements.\<close>

definition last_max :: "('a \<Rightarrow> nat) \<Rightarrow> 'a list \<Rightarrow> 'a \<Rightarrow> bool" where
  "last_max key xs x \<longleftrightarrow> (\<exists>ys zs. xs = ys @ x # zs
     \<and> (\<forall>y \<in> set ys. key y \<le> key x) \<and> (\<forall>z \<in> set zs. key z < key x))"

lemma max_by_key_from_last_max: "last_max key (b # xs) (max_by_key_from key b xs)"
proof (induction xs arbitrary: b)
  case Nil
  have "[b] = [] @ b # []" by simp
  then show ?case unfolding last_max_def by fastforce
next
  case (Cons a xs)
  let ?x = "max_by_key_from key (if key b \<le> key a then a else b) xs"
  obtain ys zs where split: "(if key b \<le> key a then a else b) # xs = ys @ ?x # zs"
    and ys: "\<forall>y \<in> set ys. key y \<le> key ?x" and zs: "\<forall>z \<in> set zs. key z < key ?x"
    using Cons.IH[of "if key b \<le> key a then a else b"] unfolding last_max_def by blast
  have best: "key (if key b \<le> key a then a else b) \<le> key ?x"
    by (rule max_by_key_from_max) simp
  show ?case
  proof (cases "key b \<le> key a")
    case True
    with split ys best have "b # a # xs = (b # ys) @ ?x # zs" "\<forall>y \<in> set (b # ys). key y \<le> key ?x"
      by auto
    with zs show ?thesis unfolding last_max_def max_by_key_from.simps by blast
  next
    case False
    show ?thesis
    proof (cases ys)
      case Nil
      with split False have "b # a # xs = [] @ ?x # a # xs" "zs = xs" "?x = b" by auto
      with zs False show ?thesis unfolding last_max_def max_by_key_from.simps
        by (intro exI[of _ "[]"] exI[of _ "a # xs"]) auto
    next
      case (Cons y ys')
      with split False have "b # a # xs = (b # a # ys') @ ?x # zs" by auto
      moreover have "\<forall>y \<in> set (b # a # ys'). key y \<le> key ?x"
        using ys Cons False best by auto
      ultimately show ?thesis using zs unfolding last_max_def max_by_key_from.simps by blast
    qed
  qed
qed

lemma max_by_key_last_max: "max_by_key key xs = Some x \<Longrightarrow> last_max key xs x"
  using max_by_key_from_last_max by (auto simp: max_by_key_def split: list.splits)

lemma max_by_key_None [simp]: "max_by_key key xs = None \<longleftrightarrow> xs = []"
  by (auto simp: max_by_key_def split: list.splits)

lemma collect_results_map_Inr [simp]: "collect_results (map Inr xs) = Inr xs"
  by (induction xs) auto

lemma collect_results_Inr_iff:
  "collect_results rs = Inr xs \<longleftrightarrow> rs = map Inr xs"
proof
  show "collect_results rs = Inr xs \<Longrightarrow> rs = map Inr xs"
    by (induction rs arbitrary: xs rule: collect_results.induct) (auto split: sum.splits)
qed simp

lemma try_for_each_Inr_iff:
  "try_for_each f xs = Inr () \<longleftrightarrow> (\<forall>x \<in> set xs. f x = Inr ())"
  by (induction xs) (auto split: sum.splits)

lemma check_seq_iff:
  "(case a of Inl e \<Rightarrow> Inl e | Inr (_::unit) \<Rightarrow> b) = Inr () \<longleftrightarrow> a = Inr () \<and> b = Inr ()"
  by (auto split: sum.splits)

lemma try_for_each_Inl: "try_for_each f xs = Inl e \<Longrightarrow> \<exists>x \<in> set xs. f x = Inl e"
  by (induction xs) (auto split: sum.splits)

section \<open>Lemmas on words\<close>

lemma checked_add_Some_iff:
  "checked_add a b = Some c \<longleftrightarrow>
     unat (a::'a::len word) + unat b < 2 ^ LENGTH('a) \<and> unat c = unat a + unat b"
  by (auto simp: checked_add_def unat_word_ariths word_unat_eq_iff)

lemma checked_add_None_iff:
  "checked_add (a::'a::len word) b = None \<longleftrightarrow> 2 ^ LENGTH('a) \<le> unat a + unat b"
  by (auto simp: checked_add_def)

lemma unat_bound: "unat (w::'a::len word) < 2 ^ LENGTH('a)"
  by (rule unsigned_less)

lemma unat_of_nat_small: "n < 2 ^ LENGTH('a) \<Longrightarrow> unat (of_nat n :: 'a::len word) = n"
  by (simp add: unat_of_nat)

lemma unat_ucast_up:
  assumes "LENGTH('a) \<le> LENGTH('b)"
  shows "unat (ucast (w::'a::len word) :: 'b::len word) = unat w"
proof -
  have "unat w < 2 ^ LENGTH('b)"
    using unat_bound[of w] power_increasing[OF assms, of "2::nat"] by linarith
  then show ?thesis by (simp add: unsigned_ucast_eq take_bit_nat_eq_self)
qed

lemma unat_plus_small:
  "unat (a::'a::len word) + unat b < 2 ^ LENGTH('a) \<Longrightarrow> unat (a + b) = unat a + unat b"
  by (simp add: unat_word_ariths)

lemma unat_Suc_small:
  "unat (a::'a::len word) + 1 < 2 ^ LENGTH('a) \<Longrightarrow> unat (a + 1) = unat a + 1"
  using unat_plus_small[of a 1] by (simp add: unat_1)

lemma unat_saturating_sub: "unat (saturating_sub a b) = unat a - unat b"
  by (auto simp: saturating_sub_def unat_sub word_le_nat_alt)

text \<open>Packing two fields into one word by shift and or.\<close>

lemma nat_or_push_bit:
  assumes "(b::nat) < 2 ^ n"
  shows "or (push_bit n a) b = a * 2 ^ n + b"
proof -
  have "take_bit n b = b" using assms by (simp add: take_bit_nat_eq_self)
  then have "bit b m \<Longrightarrow> m < n" for m by (metis bit_take_bit_iff)
  then have "and (push_bit n a) b = 0"
    by (intro bit_eqI) (auto simp: bit_simps dest: leD)
  then have "push_bit n a + b = or (push_bit n a) b" by (rule disjunctive_add_eq_or)
  then show ?thesis by (simp add: push_bit_eq_mult)
qed

lemma unat_pack:
  fixes a b :: "'a::len word"
  assumes "unat b < 2 ^ n" and "unat a < 2 ^ (LENGTH('a) - n)" and "n \<le> LENGTH('a)"
  shows "unat (or (push_bit n a) b) = unat a * 2 ^ n + unat b"
proof -
  have "unat a * 2 ^ n < 2 ^ (LENGTH('a) - n) * 2 ^ n" using assms(2) by simp
  also have "\<dots> = 2 ^ LENGTH('a)" using assms(3) by (simp flip: power_add)
  finally have "unat (push_bit n a) = push_bit n (unat a)"
    using unsigned_push_bit_eq[of n a, where 'a = nat]
    by (simp only: take_bit_nat_eq_self push_bit_eq_mult[of n "unat a"])
  then show ?thesis using nat_or_push_bit[OF assms(1), of "unat a"] by (simp add: unsigned_or_eq)
qed
lemma nat_and_pred_zero: "0 < n \<Longrightarrow> and n (n - 1) = 0 \<Longrightarrow> \<exists>k. n = (2::nat) ^ k"
proof (induction n rule: less_induct)
  case (less n)
  show ?case
  proof (cases "even n")
    case True
    then obtain m where m: "n = 2 * m" by (auto elim: evenE)
    with less.prems have pos: "0 < m" by simp
    then have pred: "n - 1 = 2 * (m - 1) + 1" using m by simp
    have "(n - 1) div 2 = m - 1" and "n div 2 = m" using pred m by simp_all
    then have "and n (n - 1) = 2 * and m (m - 1)"
      using m by (subst and_rec) simp
    with less.prems have "and m (m - 1) = 0" by simp
    with less.IH[of m] pos m obtain k where "m = 2 ^ k" by auto
    with m have "n = 2 ^ Suc k" by simp
    then show ?thesis by blast
  next
    case False
    then obtain m where m: "n = 2 * m + 1" by (auto elim: oddE)
    have "and n (n - 1) = 2 * and m m" by (subst and_rec) (simp add: m)
    with less.prems have "m = 0" by simp
    with m have "n = 2 ^ 0" by simp
    then show ?thesis by blast
  qed
qed

lemma nat_and_power_pred: "and (2 ^ k) (2 ^ k - 1) = (0::nat)"
proof (induction k)
  case (Suc k)
  have "(0::nat) < 2 ^ k" by simp
  then have "(2 ^ Suc k - 1) div 2 = (2::nat) ^ k - 1" by simp
  then have "and (2 ^ Suc k) (2 ^ Suc k - 1) = (2::nat) * and (2 ^ k) (2 ^ k - 1)"
    by (subst and_rec) simp
  with Suc show ?case by simp
qed simp

lemma is_power_of_two_iff:
  "is_power_of_two (w::'a::len word) \<longleftrightarrow> (\<exists>k < LENGTH('a). unat w = 2 ^ k)"
proof -
  have nz: "w \<noteq> 0 \<longleftrightarrow> 0 < unat w" by (simp add: unat_gt_0)
  have pred: "unat (w - 1) = unat w - 1" if "w \<noteq> 0"
    using that by (simp add: unat_minus_one)
  have an: "and w (w - 1) = 0 \<longleftrightarrow> and (unat w) (unat w - 1) = 0" if "w \<noteq> 0"
    using pred[OF that] by (metis unat_eq_zero unsigned_and_eq)
  have small: "k < LENGTH('a)" if "unat w = 2 ^ k" for k
  proof -
    have "(2::nat) ^ k < 2 ^ LENGTH('a)" using unat_bound[of w] that by simp
    then show ?thesis by (simp add: power_strict_increasing_iff)
  qed
  show ?thesis
  proof
    assume "is_power_of_two w"
    then show "\<exists>k < LENGTH('a). unat w = 2 ^ k"
      using nat_and_pred_zero[of "unat w"] an nz small by (auto simp: is_power_of_two_def)
  next
    assume "\<exists>k < LENGTH('a). unat w = 2 ^ k"
    then obtain k where k: "unat w = 2 ^ k" by blast
    then have "w \<noteq> 0" using nz by simp
    with k an nat_and_power_pred[of k] show "is_power_of_two w"
      by (simp add: is_power_of_two_def)
  qed
qed

section \<open>Weakest preconditions\<close>

text \<open>
  \<open>wp m Q s\<close>: run in \<open>s\<close>, the computation does not panic and its result and final state satisfy \<open>Q\<close>.
  The equations compute it through the sequencing operators, and \<open>wp_mono\<close> uses the
  specification of a called operation.
\<close>

definition wp :: "('e, 's, 'a) op \<Rightarrow> ('e + 'a \<Rightarrow> 's \<Rightarrow> bool) \<Rightarrow> 's \<Rightarrow> bool" where
  "wp m Q s = (case m s of (Return r, s') \<Rightarrow> Q r s' | (Panic, _) \<Rightarrow> False)"

definition on_ok :: "('a \<Rightarrow> 's \<Rightarrow> bool) \<Rightarrow> ('e \<Rightarrow> 's \<Rightarrow> bool) \<Rightarrow> 'e + 'a \<Rightarrow> 's \<Rightarrow> bool" where
  "on_ok Q R r s = (case r of Inr x \<Rightarrow> Q x s | Inl e \<Rightarrow> R e s)"

lemma on_ok_simps [simp]: "on_ok Q R (Inr x) = Q x" "on_ok Q R (Inl e) = R e"
  by (simp_all add: on_ok_def fun_eq_iff)

lemma on_okE:
  assumes "on_ok Q R r s"
  obtains (ok) x where "r = Inr x" "Q x s" | (err) e where "r = Inl e" "R e s"
  using assms by (cases r) auto

lemma wp_ok [simp]: "wp (ok x) Q s = Q (Inr x) s"
  by (simp add: wp_def ok_def)

lemma wp_err [simp]: "wp (err e) Q s = Q (Inl e) s"
  by (simp add: wp_def err_def)

lemma wp_panic [simp]: "\<not> wp panic Q s"
  by (simp add: wp_def panic_def)

lemma wp_gets [simp]: "wp (gets f) Q s = Q (Inr (f s)) s"
  by (simp add: wp_def gets_def)

lemma wp_modify [simp]: "wp (modify g) Q s = Q (Inr ()) (g s)"
  by (simp add: wp_def modify_def)

lemma wp_of_result [simp]: "wp (of_result r) Q s = Q r s"
  by (simp add: wp_def of_result_def)

lemma wp_bindq [simp]: "wp (bindq m f) Q s = wp m (on_ok (\<lambda>x. wp (f x) Q) (\<lambda>e. Q (Inl e))) s"
  by (simp add: wp_def bindq_def on_ok_def split: prod.splits outcome.splits sum.splits)

lemma wp_attempt [simp]: "wp (attempt m) Q s = wp m (\<lambda>r. Q (Inr r)) s"
  by (simp add: wp_def attempt_def split: prod.splits outcome.splits)

lemma wp_do_when [simp]: "wp (do_when b m) Q s = (if b then wp m Q s else Q (Inr ()) s)"
  by (simp add: do_when_def)

lemma wp_if: "wp (if b then m else m') Q s = (if b then wp m Q s else wp m' Q s)"
  by simp

lemma wp_mono: "wp m Q s \<Longrightarrow> (\<And>r s'. Q r s' \<Longrightarrow> Q' r s') \<Longrightarrow> wp m Q' s"
  by (auto simp: wp_def split: prod.splits outcome.splits)

lemma wp_conj: "wp m Q s \<Longrightarrow> wp m Q' s \<Longrightarrow> wp m (\<lambda>r s. Q r s \<and> Q' r s) s"
  by (auto simp: wp_def split: prod.splits outcome.splits)

lemma wp_result: "wp m Q s \<Longrightarrow> \<exists>r s'. m s = (Return r, s') \<and> Q r s'"
  by (auto simp: wp_def split: prod.splits outcome.splits)

text \<open>
  The interface of a component whose operations keep an invariant and move its state along a
  preorder: \<open>reached s0 s\<close> says that \<open>s\<close> satisfies the invariant and is a later state of \<open>s0\<close>, and
  \<open>safe s0 m s\<close> that \<open>m\<close>, run in \<open>s\<close>, does not panic and ends in such a state, whatever its result.
\<close>

locale guarded_steps =
  fixes inv :: "'s \<Rightarrow> bool" and evolves :: "'s \<Rightarrow> 's \<Rightarrow> bool"
  assumes evolves_refl: "evolves s s"
    and evolves_trans: "evolves r s \<Longrightarrow> evolves s t \<Longrightarrow> evolves r t"
begin

definition reached :: "'s \<Rightarrow> 's \<Rightarrow> bool" where
  "reached s0 s \<longleftrightarrow> inv s \<and> evolves s0 s"

definition safe :: "'s \<Rightarrow> ('e, 's, 'a) op \<Rightarrow> 's \<Rightarrow> bool" where
  "safe s0 m s \<longleftrightarrow> wp m (\<lambda>_ s'. reached s0 s') s"

lemma reached_refl: "inv s \<Longrightarrow> reached s s"
  by (simp add: reached_def evolves_refl)

lemma reached_inv: "reached s0 s \<Longrightarrow> inv s"
  by (simp add: reached_def)

lemma reached_step: "reached s0 s \<Longrightarrow> inv t \<Longrightarrow> evolves s t \<Longrightarrow> reached s0 t"
  using evolves_trans by (auto simp: reached_def)

lemma reached_trans: "reached s0 s \<Longrightarrow> reached s t \<Longrightarrow> reached s0 t"
  using evolves_trans by (auto simp: reached_def)

lemma safe_ok [simp]: "safe s0 (ok x) s = reached s0 s"
  by (simp add: safe_def)

lemma safe_err [simp]: "safe s0 (err e) s = reached s0 s"
  by (simp add: safe_def)

lemma safe_of_result [simp]: "safe s0 (of_result r) s = reached s0 s"
  by (simp add: safe_def)

lemma safe_modify [simp]: "safe s0 (modify g) s = reached s0 (g s)"
  by (simp add: safe_def)

lemma safe_gets [simp]: "safe s0 (gets f) s = reached s0 s"
  by (simp add: safe_def)

lemma safe_attempt [simp]: "safe s0 (attempt m) s = safe s0 m s"
  by (simp add: safe_def)

lemma safe_bindq:
  assumes "safe s0 m s" and "\<And>x s'. reached s0 s' \<Longrightarrow> safe s0 (f x) s'"
  shows "safe s0 (bindq m f) s"
  unfolding safe_def wp_bindq
proof (rule wp_mono[OF assms(1)[unfolded safe_def]])
  fix r s' assume "reached s0 s'"
  then show "on_ok (\<lambda>x. wp (f x) (\<lambda>_. reached s0)) (\<lambda>e. reached s0) r s'"
    using assms(2) by (cases r) (simp_all add: safe_def)
qed

lemma safe_for_each:
  assumes "\<And>x s. x \<in> set xs \<Longrightarrow> reached s0 s \<Longrightarrow> safe s0 (f x) s" and "reached s0 s"
  shows "safe s0 (for_each f xs) s"
  using assms by (induction xs arbitrary: s) (auto intro: safe_bindq)

lemma wp_safe:
  assumes "safe s0 m s" and "\<And>r t. reached s0 t \<Longrightarrow> Q r t"
  shows "wp m Q s"
  using assms unfolding safe_def by (rule wp_mono)

lemma safe_result:
  assumes "safe s m s" obtains r t where "m s = (Return r, t)" "inv t" "evolves s t"
  using wp_result[OF assms[unfolded safe_def]] by (auto simp: reached_def)

end

section \<open>Lemmas on computations\<close>

lemma bindq_ok [simp]: "bindq (ok x) f = f x"
  by (rule ext) (simp add: bindq_def ok_def)

lemma bindq_err [simp]: "bindq (err e) f = err e"
  by (rule ext) (simp add: bindq_def err_def)

lemma bindq_panic [simp]: "bindq panic f = panic"
  by (rule ext) (simp add: bindq_def panic_def)

lemma bindq_assoc: "bindq (bindq m f) g = bindq m (\<lambda>x. bindq (f x) g)"
  by (rule ext) (simp add: bindq_def split: prod.splits outcome.splits sum.splits)

end
