(* ===== verification/Rust_Text.thy ===== *)
theory Rust_Text
  imports Prelude
begin

text \<open>
  The parts of Rust's \<open>core::str\<close>, \<open>u8\<close> and \<open>alloc::fmt\<close> that the sources call on request heads,
  targets, URLs and configuration strings: ASCII classification and case folding, \<open>split\<close>,
  \<open>split_once\<close>, \<open>split_ascii_whitespace\<close>, \<open>strip_prefix\<close>, \<open>trim\<close> with its Unicode white space,
  \<open>trim_matches\<close>, \<open>from_utf8\<close>, unsigned \<open>parse\<close> with its optional plus sign, and decimal and
  hexadecimal formatting. A \<open>str\<close> is the list of its UTF-8 bytes.
\<close>

section \<open>ASCII\<close>

abbreviation (input) bv :: "byte \<Rightarrow> nat" where
  "bv c \<equiv> of_char c"

abbreviation (input) CR :: byte where "CR \<equiv> CHR 0x0D"
abbreviation (input) LF :: byte where "LF \<equiv> CHR 0x0A"
abbreviation (input) HT :: byte where "HT \<equiv> CHR 0x09"
abbreviation (input) SP :: byte where "SP \<equiv> CHR 0x20"

definition crlf :: bytes where
  "crlf = [CR, LF]"

definition is_ascii :: "byte \<Rightarrow> bool" where
  "is_ascii c \<longleftrightarrow> bv c < 128"

definition is_ascii_digit :: "byte \<Rightarrow> bool" where
  "is_ascii_digit c \<longleftrightarrow> 48 \<le> bv c \<and> bv c \<le> 57"

definition is_ascii_uppercase :: "byte \<Rightarrow> bool" where
  "is_ascii_uppercase c \<longleftrightarrow> 65 \<le> bv c \<and> bv c \<le> 90"

definition is_ascii_lowercase :: "byte \<Rightarrow> bool" where
  "is_ascii_lowercase c \<longleftrightarrow> 97 \<le> bv c \<and> bv c \<le> 122"

definition is_ascii_alphanumeric :: "byte \<Rightarrow> bool" where
  "is_ascii_alphanumeric c \<longleftrightarrow> is_ascii_digit c \<or> is_ascii_uppercase c \<or> is_ascii_lowercase c"

definition is_ascii_control :: "byte \<Rightarrow> bool" where
  "is_ascii_control c \<longleftrightarrow> bv c < 32 \<or> bv c = 127"

text \<open>\<open>is_ascii_whitespace\<close>: space, tab, line feed, form feed, carriage return (no vertical tab).\<close>

definition is_ascii_whitespace :: "byte \<Rightarrow> bool" where
  "is_ascii_whitespace c \<longleftrightarrow> bv c \<in> {9, 10, 12, 13, 32}"

definition ascii_lower :: "byte \<Rightarrow> byte" where
  "ascii_lower c = (if is_ascii_uppercase c then char_of (bv c + 32) else c)"

definition to_ascii_lowercase :: "bytes \<Rightarrow> bytes" where
  "to_ascii_lowercase s = map ascii_lower s"

definition eq_ignore_ascii_case :: "bytes \<Rightarrow> bytes \<Rightarrow> bool" where
  "eq_ignore_ascii_case a b \<longleftrightarrow> to_ascii_lowercase a = to_ascii_lowercase b"

lemmas ascii_defs [ascii_simps] =
  is_ascii_def is_ascii_digit_def is_ascii_uppercase_def is_ascii_lowercase_def
  is_ascii_alphanumeric_def is_ascii_control_def is_ascii_whitespace_def ascii_lower_def

section \<open>Splitting and trimming\<close>

definition split_once :: "byte \<Rightarrow> bytes \<Rightarrow> (bytes \<times> bytes) option" where
  "split_once c s = (case dropWhile (\<lambda>x. x \<noteq> c) s of
     [] \<Rightarrow> None
   | _ # rest \<Rightarrow> Some (takeWhile (\<lambda>x. x \<noteq> c) s, rest))"

fun strip_prefix :: "bytes \<Rightarrow> bytes \<Rightarrow> bytes option" where
  "strip_prefix [] s = Some s"
| "strip_prefix (p # ps) [] = None"
| "strip_prefix (p # ps) (c # cs) = (if p = c then strip_prefix ps cs else None)"

text \<open>\<open>split\<close> with a predicate on characters: always at least one piece.\<close>

fun split_on :: "(byte \<Rightarrow> bool) \<Rightarrow> bytes \<Rightarrow> bytes list" where
  "split_on p [] = [[]]"
| "split_on p (c # cs) =
     (if p c then [] # split_on p cs
      else (case split_on p cs of [] \<Rightarrow> [[c]] | l # ls \<Rightarrow> (c # l) # ls))"

text \<open>\<open>split("\r\n")\<close>: non-overlapping matches from the left.\<close>

fun split_crlf :: "bytes \<Rightarrow> bytes list" where
  "split_crlf [] = [[]]"
| "split_crlf (c # cs) =
     (if c = CR \<and> cs \<noteq> [] \<and> hd cs = LF then [] # split_crlf (tl cs)
      else (case split_crlf cs of [] \<Rightarrow> [[c]] | l # ls \<Rightarrow> (c # l) # ls))"

definition split_ascii_whitespace :: "bytes \<Rightarrow> bytes list" where
  "split_ascii_whitespace s = filter (\<lambda>l. l \<noteq> []) (split_on is_ascii_whitespace s)"

definition trim_matches :: "(byte \<Rightarrow> bool) \<Rightarrow> bytes \<Rightarrow> bytes" where
  "trim_matches p s = rev (dropWhile p (rev (dropWhile p s)))"

definition trim_end_matches :: "(byte \<Rightarrow> bool) \<Rightarrow> bytes \<Rightarrow> bytes" where
  "trim_end_matches p s = rev (dropWhile p (rev s))"

text \<open>
  \<open>str::trim\<close> removes characters with the Unicode property White_Space. \<open>ws_len\<close> is the number
  of bytes of such a character at the front of a UTF-8 string (0: there is none), \<open>ws_len_rev\<close>
  the same for the end of the string, given reversed.
\<close>

definition ws_len :: "nat list \<Rightarrow> nat" where
  "ws_len s = (case s of
     a # r \<Rightarrow>
       if 9 \<le> a \<and> a \<le> 13 \<or> a = 32 then 1
       else (case r of
         b # r' \<Rightarrow>
           if a = 194 \<and> (b = 133 \<or> b = 160) then 2
           else (case r' of
             c # _ \<Rightarrow>
               if a = 225 \<and> b = 154 \<and> c = 128
                \<or> a = 226 \<and> b = 128 \<and> (128 \<le> c \<and> c \<le> 138 \<or> c = 168 \<or> c = 169 \<or> c = 175)
                \<or> a = 226 \<and> b = 129 \<and> c = 159
                \<or> a = 227 \<and> b = 128 \<and> c = 128 then 3 else 0
           | [] \<Rightarrow> 0)
       | [] \<Rightarrow> 0)
   | [] \<Rightarrow> 0)"

definition ws_len_front :: "bytes \<Rightarrow> nat" where
  "ws_len_front s = ws_len (map of_char (take 3 s))"

definition ws_len_back :: "bytes \<Rightarrow> nat" where
  "ws_len_back r =
     (if ws_len (map of_char (take 1 r)) = 1 then 1
      else if ws_len (map of_char (rev (take 2 r))) = 2 then 2
      else if ws_len (map of_char (rev (take 3 r))) = 3 then 3 else 0)"

function drop_ws :: "(bytes \<Rightarrow> nat) \<Rightarrow> bytes \<Rightarrow> bytes" where
  "drop_ws f s = (if s = [] \<or> f s = 0 then s else drop_ws f (drop (f s) s))"
  by pat_completeness auto
termination
  by (relation "measure (\<lambda>(f, s). length s)") auto

declare drop_ws.simps [simp del]

definition trim :: "bytes \<Rightarrow> bytes" where
  "trim s = rev (drop_ws ws_len_back (rev (drop_ws ws_len_front s)))"

section \<open>UTF-8 validation\<close>

text \<open>
  The length of the scalar value at the front, following the byte ranges of the standard
  library's validation (overlong forms, surrogates and values above U+10FFFF are rejected).
\<close>

definition cont :: "nat \<Rightarrow> bool" where
  "cont b \<longleftrightarrow> 128 \<le> b \<and> b \<le> 191"

fun utf8_len :: "nat list \<Rightarrow> nat option" where
  "utf8_len [] = None"
| "utf8_len (a # r) =
     (if a < 128 then Some 1
      else if 194 \<le> a \<and> a \<le> 223 then
        (case r of b # _ \<Rightarrow> if cont b then Some 2 else None | _ \<Rightarrow> None)
      else if 224 \<le> a \<and> a \<le> 239 then
        (case r of b # c # _ \<Rightarrow>
           if cont b \<and> cont c \<and> (a = 224 \<longrightarrow> 160 \<le> b) \<and> (a = 237 \<longrightarrow> b \<le> 159)
           then Some 3 else None
         | _ \<Rightarrow> None)
      else if 240 \<le> a \<and> a \<le> 244 then
        (case r of b # c # d # _ \<Rightarrow>
           if cont b \<and> cont c \<and> cont d \<and> (a = 240 \<longrightarrow> 144 \<le> b) \<and> (a = 244 \<longrightarrow> b \<le> 143)
           then Some 4 else None
         | _ \<Rightarrow> None)
      else None)"

lemma utf8_len_pos: "utf8_len bs = Some n \<Longrightarrow> 0 < n \<and> n \<le> length bs \<and> n \<le> 4"
  by (cases bs) (auto split: if_splits list.splits)

function valid_utf8 :: "bytes \<Rightarrow> bool" where
  "valid_utf8 s =
     (if s = [] then True
      else (case utf8_len (map of_char (take 4 s)) of
              None \<Rightarrow> False
            | Some n \<Rightarrow> valid_utf8 (drop n s)))"
  by pat_completeness auto
termination
  by (relation "measure length") (auto dest: utf8_len_pos)

declare valid_utf8.simps [simp del]

text \<open>\<open>str::from_utf8\<close> (and \<open>String::from_utf8\<close>).\<close>

definition from_utf8 :: "bytes \<Rightarrow> bytes option" where
  "from_utf8 bs = (if valid_utf8 bs then Some bs else None)"

section \<open>Numbers\<close>

definition digits_value :: "bytes \<Rightarrow> nat" where
  "digits_value ds = foldl (\<lambda>n c. 10 * n + (bv c - 48)) 0 ds"

text \<open>
  \<open>parse::<u64>()\<close> and, on the 64-bit target, \<open>parse::<usize>()\<close>: an optional plus sign, then at
  least one digit, then a value that fits. The error kind is dropped by every caller.
\<close>

definition parse_u64 :: "bytes \<Rightarrow> u64 option" where
  "parse_u64 s =
     (let ds = (case s of c # cs \<Rightarrow> if c = CHR ''+'' then cs else s | [] \<Rightarrow> [])
      in if ds \<noteq> [] \<and> list_all is_ascii_digit ds \<and> digits_value ds < 2 ^ 64
         then Some (of_nat (digits_value ds)) else None)"

fun dec :: "nat \<Rightarrow> bytes" where
  "dec n = (if n < 10 then [char_of (48 + n)] else dec (n div 10) @ [char_of (48 + n mod 10)])"

declare dec.simps [simp del]

definition hex_digit :: "nat \<Rightarrow> byte" where
  "hex_digit d = (if d < 10 then char_of (48 + d) else char_of (87 + d))"

fun lower_hex :: "nat \<Rightarrow> bytes" where
  "lower_hex n = (if n < 16 then [hex_digit n] else lower_hex (n div 16) @ [hex_digit (n mod 16)])"

declare lower_hex.simps [simp del]

section \<open>Lemmas\<close>

subsection \<open>Bytes\<close>

lemma length_crlf [simp]: "length crlf = 2"
  by (simp add: crlf_def)

lemma set_crlf [simp]: "set crlf = {CR, LF}"
  by (simp add: crlf_def)

lemma char_eq_iff_bv: "(a::byte) = b \<longleftrightarrow> bv a = bv b"
  by simp

lemma bv_char_of [simp]: "n < 256 \<Longrightarrow> bv (char_of n) = n"
  by simp

lemma ascii_lower_idem [simp]: "ascii_lower (ascii_lower c) = ascii_lower c"
  by (auto simp: ascii_simps)

lemma to_ascii_lowercase_idem [simp]:
  "to_ascii_lowercase (to_ascii_lowercase s) = to_ascii_lowercase s"
  by (simp add: to_ascii_lowercase_def)

lemma ascii_lower_not_upper [simp]: "\<not> is_ascii_uppercase (ascii_lower c)"
  by (auto simp: ascii_simps)

lemma eq_ignore_ascii_case_equivp: "equivp eq_ignore_ascii_case"
  by (auto simp: eq_ignore_ascii_case_def intro!: equivpI reflpI sympI transpI)

subsection \<open>Splitting\<close>

lemma split_once_Some_iff:
  "split_once c s = Some (a, b) \<longleftrightarrow> s = a @ c # b \<and> c \<notin> set a"
proof
  assume "split_once c s = Some (a, b)"
  then obtain x where x: "dropWhile (\<lambda>x. x \<noteq> c) s = x # b" "a = takeWhile (\<lambda>x. x \<noteq> c) s"
    by (auto simp: split_once_def split: list.splits)
  have "\<not> x \<noteq> c" using hd_dropWhile[of "\<lambda>x. x \<noteq> c" s] x(1) by simp
  moreover have "s = takeWhile (\<lambda>x. x \<noteq> c) s @ dropWhile (\<lambda>x. x \<noteq> c) s" by simp
  ultimately show "s = a @ c # b \<and> c \<notin> set a"
    using x by (metis set_takeWhileD)
next
  assume s: "s = a @ c # b \<and> c \<notin> set a"
  then have "\<And>x. x \<in> set a \<Longrightarrow> x \<noteq> c" by auto
  then have "dropWhile (\<lambda>x. x \<noteq> c) (a @ c # b) = c # b"
    and "takeWhile (\<lambda>x. x \<noteq> c) (a @ c # b) = a"
    by (simp_all add: dropWhile_append2 takeWhile_append2)
  with s show "split_once c s = Some (a, b)"
    by (simp add: split_once_def)
qed

lemma split_once_None_iff: "split_once c s = None \<longleftrightarrow> c \<notin> set s"
proof
  show "split_once c s = None \<Longrightarrow> c \<notin> set s"
    by (auto simp: split_once_def split: list.splits)
  show "c \<notin> set s \<Longrightarrow> split_once c s = None"
    using split_once_Some_iff[of c s] by (cases "split_once c s") fastforce+
qed

lemma strip_prefix_Some_iff: "strip_prefix p s = Some r \<longleftrightarrow> s = p @ r"
  by (induction p s rule: strip_prefix.induct) auto

lemma split_on_nonempty [simp]: "split_on p s \<noteq> []"
  by (cases s) (auto split: list.splits)

lemma split_crlf_nonempty [simp]: "split_crlf s \<noteq> []"
  by (cases s) (auto split: list.splits)

lemma split_on_pieces: "l \<in> set (split_on p s) \<Longrightarrow> c \<in> set l \<Longrightarrow> c \<in> set s \<and> \<not> p c"
proof (induction s arbitrary: l)
  case (Cons a s)
  obtain m ms where m: "split_on p s = m # ms" by (cases "split_on p s") auto
  show ?case
  proof (cases "p a")
    case True
    with Cons show ?thesis by auto
  next
    case False
    with Cons m consider "l = a # m" | "l \<in> set ms" by auto
    then show ?thesis using Cons.IH[of m] Cons.IH[of l] Cons.prems False m by cases auto
  qed
qed simp

lemma split_on_clean: "\<forall>c \<in> set s. \<not> p c \<Longrightarrow> split_on p s = [s]"
  by (induction s) auto

lemma split_on_sep:
  "\<forall>c \<in> set a. \<not> p c \<Longrightarrow> p x \<Longrightarrow> split_on p (a @ x # b) = a # split_on p b"
  by (induction a) auto

lemma split_crlf_subset: "l \<in> set (split_crlf s) \<Longrightarrow> set l \<subseteq> set s"
proof (induction s arbitrary: l rule: split_crlf.induct)
  case 1
  then show ?case by simp
next
  case (2 c cs)
  show ?case
  proof (cases "c = CR \<and> cs \<noteq> [] \<and> hd cs = LF")
    case True
    have "set (tl cs) \<subseteq> set cs" by (cases cs) auto
    with 2(1)[OF True] "2.prems" True show ?thesis by fastforce
  next
    case False
    obtain m ms where m: "split_crlf cs = m # ms" by (cases "split_crlf cs") auto
    with False "2.prems" consider "l = c # m" | "l \<in> set ms" by auto
    then show ?thesis using 2(2)[OF False, of m] 2(2)[OF False, of l] m by cases auto
  qed
qed

lemma split_crlf_clean: "CR \<notin> set s \<Longrightarrow> split_crlf s = [s]"
  by (induction s rule: split_crlf.induct) auto

lemma split_crlf_line: "CR \<notin> set a \<Longrightarrow> split_crlf (a @ crlf @ b) = a # split_crlf b"
  by (induction a) (auto simp: crlf_def)

lemma split_ascii_whitespace_piece:
  assumes "l \<in> set (split_ascii_whitespace s)"
  shows "l \<noteq> []" and "c \<in> set l \<Longrightarrow> c \<in> set s \<and> \<not> is_ascii_whitespace c"
  using assms split_on_pieces[of l is_ascii_whitespace s c]
  by (auto simp: split_ascii_whitespace_def)

subsection \<open>Trimming\<close>

lemma trim_matches_subset: "set (trim_matches p s) \<subseteq> set s"
  by (auto simp: trim_matches_def dest!: set_dropWhileD)

lemma hd_trim_matches: "trim_matches p s \<noteq> [] \<Longrightarrow> \<not> p (hd (trim_matches p s))"
proof -
  assume ne: "trim_matches p s \<noteq> []"
  let ?d = "dropWhile p s"
  have "rev (dropWhile p (rev ?d)) = rev (rev ?d) \<or> suffix (dropWhile p (rev ?d)) (rev ?d)"
    by (simp add: suffix_dropWhile)
  have "prefix (trim_matches p s) ?d"
    using suffix_dropWhile[of p "rev ?d"]
    by (simp add: trim_matches_def suffix_to_prefix)
  then obtain t where "?d = trim_matches p s @ t" by (auto simp: prefix_def)
  then have "hd ?d = hd (trim_matches p s)" and "?d \<noteq> []" using ne by auto
  then show ?thesis using hd_dropWhile[of p s] by simp
qed

lemma last_trim_matches: "trim_matches p s \<noteq> [] \<Longrightarrow> \<not> p (last (trim_matches p s))"
  using hd_dropWhile[of p "rev (dropWhile p s)"]
  by (auto simp: trim_matches_def last_rev)

lemma dropWhile_id: "s = [] \<or> \<not> p (hd s) \<Longrightarrow> dropWhile p s = s"
  by (cases s) auto

lemma trim_matches_id:
  "s = [] \<or> \<not> p (hd s) \<and> \<not> p (last s) \<Longrightarrow> trim_matches p s = s"
  by (auto simp: trim_matches_def dropWhile_id hd_rev)

lemma trim_matches_idem [simp]: "trim_matches p (trim_matches p s) = trim_matches p s"
  using hd_trim_matches last_trim_matches by (intro trim_matches_id) blast

subsection \<open>UTF-8\<close>

lemma valid_utf8_Nil [simp]: "valid_utf8 []"
  by (simp add: valid_utf8.simps)

lemma valid_utf8_ascii_Cons [simp]: "is_ascii c \<Longrightarrow> valid_utf8 (c # s) = valid_utf8 s"
  by (subst valid_utf8.simps) (simp add: is_ascii_def)

lemma valid_utf8_ascii: "list_all is_ascii s \<Longrightarrow> valid_utf8 s"
  by (induction s) auto

text \<open>The decision for a scalar value reads only its own bytes.\<close>

lemma utf8_len_append: "utf8_len xs = Some n \<Longrightarrow> utf8_len (xs @ ys) = Some n"
  by (cases xs) (auto split: if_splits list.splits)

lemma utf8_len_take4: "utf8_len (map of_char (take 4 s)) = utf8_len (map of_char s)"
proof (cases s)
  case (Cons a r1)
  then show ?thesis
  proof (cases r1)
    case (Cons b r2)
    then show ?thesis using \<open>s = a # r1\<close>
    proof (cases r2)
      case (Cons c r3)
      then show ?thesis using \<open>s = a # r1\<close> \<open>r1 = b # r2\<close>
        by (cases r3) (auto simp: numeral_eq_Suc)
    qed simp
  qed simp
qed simp

lemma valid_utf8_step:
  "s \<noteq> [] \<Longrightarrow> valid_utf8 s =
     (case utf8_len (map of_char s) of None \<Rightarrow> False | Some n \<Rightarrow> valid_utf8 (drop n s))"
  by (subst valid_utf8.simps) (simp add: utf8_len_take4)

lemma valid_utf8_append: "valid_utf8 xs \<Longrightarrow> valid_utf8 ys \<Longrightarrow> valid_utf8 (xs @ ys)"
proof (induction xs rule: valid_utf8.induct)
  case (1 s)
  show ?case
  proof (cases "s = []")
    case True
    with "1.prems" show ?thesis by simp
  next
    case False
    with "1.prems" obtain n where n: "utf8_len (map of_char s) = Some n" "valid_utf8 (drop n s)"
      by (auto simp: valid_utf8_step split: option.splits)
    have "n \<le> length s" using utf8_len_pos[OF n(1)] by simp
    have "valid_utf8 (drop n s @ ys)"
      using 1(1)[OF False, of n] n "1.prems" by (simp add: utf8_len_take4)
    moreover have "utf8_len (map of_char (s @ ys)) = Some n"
      using utf8_len_append[OF n(1)] by simp
    ultimately show ?thesis
      using False \<open>n \<le> length s\<close> by (subst valid_utf8_step) auto
  qed
qed

text \<open>An ASCII byte is never inside a longer scalar value, so a valid string splits there.\<close>

lemma utf8_len_cases [consumes 1]:
  assumes "utf8_len bs = Some n"
  obtains (one) a r where "bs = [a] @ r" "n = 1"
  | (two) a b r where "bs = [a, b] @ r" "n = 2" "cont b"
  | (three) a b c r where "bs = [a, b, c] @ r" "n = 3" "cont b" "cont c"
  | (four) a b c d r where "bs = [a, b, c, d] @ r" "n = 4" "cont b" "cont c" "cont d"
  using assms by (cases bs) (auto split: if_splits list.splits)

lemma utf8_len_cont:
  assumes "utf8_len bs = Some n" and "0 < i" and "i < n"
  shows "cont (bs ! i)"
proof -
  have i: "i = 1 \<or> i = 2 \<or> i = 3" using utf8_len_pos[OF assms(1)] assms(2,3) by auto
  from assms(1) show ?thesis
    by (cases rule: utf8_len_cases) (use i assms(2,3) in auto)
qed

lemma utf8_len_take:
  assumes "utf8_len bs = Some n" and "n \<le> m"
  shows "utf8_len (take m bs) = Some n"
proof -
  obtain k where k: "m = n + k" using assms(2) le_Suc_ex by blast
  have "utf8_len (take n bs) = Some n"
    using assms(1) by (cases rule: utf8_len_cases) (use assms(1) in \<open>auto split: if_splits list.splits\<close>)
  from utf8_len_append[OF this, of "take k (drop n bs)"] show ?thesis
    by (simp add: k take_add)
qed

lemma utf8_len_ascii_boundary:
  assumes "utf8_len (map of_char (xs @ c # ys)) = Some n" and "is_ascii c" and "xs \<noteq> []"
  shows "n \<le> length xs" and "utf8_len (map of_char xs) = Some n"
proof -
  show le: "n \<le> length xs"
  proof (rule ccontr)
    assume "\<not> n \<le> length xs"
    with utf8_len_cont[OF assms(1), of "length xs"] assms(3)
    have "cont (map of_char (xs @ c # ys) ! length xs)" by simp
    then have "cont (bv c)" by (simp add: nth_append)
    with assms(2) show False by (simp add: cont_def is_ascii_def)
  qed
  show "utf8_len (map of_char xs) = Some n"
    using utf8_len_take[OF assms(1) le] by simp
qed

lemma valid_utf8_split_ascii:
  assumes "valid_utf8 (xs @ c # ys)" and "is_ascii c"
  shows "valid_utf8 xs \<and> valid_utf8 ys"
  using assms
proof (induction xs rule: valid_utf8.induct)
  case (1 s)
  show ?case
  proof (cases "s = []")
    case True
    with "1.prems" show ?thesis by simp
  next
    case False
    with "1.prems" obtain n where n: "utf8_len (map of_char (s @ c # ys)) = Some n"
      "valid_utf8 (drop n (s @ c # ys))"
      by (auto simp: valid_utf8_step split: option.splits)
    note b = utf8_len_ascii_boundary[OF n(1) "1.prems"(2) False]
    have "valid_utf8 (drop n s @ c # ys)" using n(2) b(1) by simp
    then have "valid_utf8 (drop n s) \<and> valid_utf8 ys"
      using 1(1)[OF False, of n] b(2) "1.prems"(2) by (simp add: utf8_len_take4)
    then show ?thesis using False b(2) by (simp add: valid_utf8_step)
  qed
qed

lemma valid_utf8_append_ascii:
  assumes "valid_utf8 (xs @ ys)" and "list_all is_ascii ys" and "ys \<noteq> []"
  shows "valid_utf8 xs"
  using assms valid_utf8_split_ascii[of xs "hd ys" "tl ys"] by (cases ys) auto

subsection \<open>Numbers\<close>

lemma digits_value_snoc: "digits_value (ds @ [c]) = 10 * digits_value ds + (bv c - 48)"
  by (simp add: digits_value_def)

lemma dec_digits: "list_all is_ascii_digit (dec n) \<and> dec n \<noteq> []"
proof (induction n rule: dec.induct)
  case (1 n)
  then show ?case
    by (cases "n < 10") (auto simp: dec.simps[of n] is_ascii_digit_def)
qed

lemma digits_value_dec [simp]: "digits_value (dec n) = n"
proof (induction n rule: dec.induct)
  case (1 n)
  show ?case
  proof (cases "n < 10")
    case True
    then show ?thesis by (simp add: dec.simps[of n] digits_value_def)
  next
    case False
    with 1 have "digits_value (dec (n div 10)) = n div 10" by simp
    with False show ?thesis by (simp add: dec.simps[of n] digits_value_snoc)
  qed
qed

lemma dec_ascii: "list_all is_ascii (dec n)"
  using dec_digits[of n] by (auto simp: list_all_iff is_ascii_def is_ascii_digit_def)

lemma parse_u64_plain:
  "ds \<noteq> [] \<Longrightarrow> list_all is_ascii_digit ds \<Longrightarrow>
   parse_u64 ds = (if digits_value ds < 2 ^ 64 then Some (of_nat (digits_value ds)) else None)"
  by (cases ds) (auto simp: parse_u64_def is_ascii_digit_def)

lemma parse_u64_dec: "n < 2 ^ 64 \<Longrightarrow> parse_u64 (dec n) = Some (of_nat n)"
  using dec_digits[of n] by (simp add: parse_u64_plain)

end
