(* ===== verification/Config.thy ===== *)
theory Config
  imports Rust_Text
begin

text \<open>
  The configuration of the server, \<open>crates/core/src/runtime/config.rs\<close>: the data types in the
  order of the file, the defaults, the checks that run while a field is deserialised, and
  \<open>Config::validate\<close>, which runs before a configuration is used. The TOML parser is a parameter.
  The lemmas characterise what an accepted configuration guarantees.
\<close>

section \<open>Data\<close>

text \<open>\<open>std::net::SocketAddr\<close>.\<close>

datatype socket_addr =
    SocketV4 "32 word" u16
  | SocketV6 "128 word" u16 u32 u32

datatype balance_policy = RoundRobin | WeightedRoundRobin

record upstream_endpoint =
  url :: bytes
  weight :: u32

record upstream_group =
  group_policy :: balance_policy
  group_servers :: "upstream_endpoint list"

datatype path_matcher = Exact bytes | Prefix bytes

datatype action =
    Proxy "bytes option" "bytes option" "upstream_endpoint list" balance_policy
  | Static bytes
  | Response u16 bytes

record location =
  matcher :: path_matcher
  loc_action :: action

datatype ssl_protocol = Tlsv1_2 | Tlsv1_3

datatype ssl_cipher =
    Tls13Aes256GcmSha384
  | Tls13Aes128GcmSha256
  | Tls13Chacha20Poly1305Sha256
  | TlsEcdheEcdsaWithAes256GcmSha384
  | TlsEcdheEcdsaWithAes128GcmSha256
  | TlsEcdheEcdsaWithChacha20Poly1305Sha256
  | TlsEcdheRsaWithAes256GcmSha384
  | TlsEcdheRsaWithAes128GcmSha256
  | TlsEcdheRsaWithChacha20Poly1305Sha256

record ssl_server_config =
  certificate_path :: bytes
  private_key_path :: bytes
  handshake_timeout_ms :: u64
  protocols :: "ssl_protocol list"
  ciphers :: "ssl_cipher list"

record server =
  server_name :: "bytes option"
  locations :: "location list"
  listen :: socket_addr
  ssl :: "ssl_server_config option"

datatype async_runtime_config =
    Auto usize u32 u32 u32 usize
  | Epoll usize
  | Kqueue usize
  | IoUring u32 u32 u32 usize

record worker_config =
  wc_max_connections :: usize
  wc_max_read_buffer_size :: usize
  wc_max_write_buffer_size :: usize
  wc_idle_timeout_ms :: u64
  wc_drain_timeout_ms :: u64

record proxy_timeout_config =
  pc_connect_timeout_ms :: u64
  pc_write_timeout_ms :: u64
  pc_read_timeout_ms :: u64

record dns_config =
  dc_resolver_threads :: usize
  dc_timeout_ms :: u64

record config =
  http_servers :: "server list"
  runtime :: async_runtime_config
  worker_count :: usize
  worker :: worker_config
  proxy :: proxy_timeout_config
  dns :: dns_config
  upstreams :: "(bytes, upstream_group) hashmap"

section \<open>Defaults\<close>

definition default_epoll_max_events :: usize where "default_epoll_max_events = 1024"
definition default_sq_entries :: u32 where "default_sq_entries = 4096"
definition default_cq_entries :: u32 where "default_cq_entries = 8192"
definition default_buf_ring_size :: u32 where "default_buf_ring_size = 16384"
definition default_buf_size :: usize where "default_buf_size = 8192"
definition default_max_connections :: usize where "default_max_connections = 1024"
definition default_max_read_buffer_size :: usize where "default_max_read_buffer_size = 64 * 1024"
definition default_max_write_buffer_size :: usize where
  "default_max_write_buffer_size = 8 * 1024 * 1024"
definition default_idle_timeout_ms :: u64 where "default_idle_timeout_ms = 30000"
definition default_drain_timeout_ms :: u64 where "default_drain_timeout_ms = 10000"
definition default_proxy_connect_timeout_ms :: u64 where "default_proxy_connect_timeout_ms = 3000"
definition default_proxy_write_timeout_ms :: u64 where "default_proxy_write_timeout_ms = 30000"
definition default_proxy_read_timeout_ms :: u64 where "default_proxy_read_timeout_ms = 30000"
definition default_dns_resolver_threads :: usize where "default_dns_resolver_threads = 2"
definition default_dns_timeout_ms :: u64 where "default_dns_timeout_ms = 3000"
definition default_upstream_weight :: u32 where "default_upstream_weight = 1"
definition default_tls_handshake_timeout_ms :: u64 where "default_tls_handshake_timeout_ms = 10000"

lemmas default_defs =
  default_epoll_max_events_def default_sq_entries_def default_cq_entries_def
  default_buf_ring_size_def default_buf_size_def default_max_connections_def
  default_max_read_buffer_size_def default_max_write_buffer_size_def
  default_idle_timeout_ms_def default_drain_timeout_ms_def
  default_proxy_connect_timeout_ms_def default_proxy_write_timeout_ms_def
  default_proxy_read_timeout_ms_def default_dns_resolver_threads_def default_dns_timeout_ms_def
  default_upstream_weight_def default_tls_handshake_timeout_ms_def

definition default_ssl_protocols :: "ssl_protocol list" where
  "default_ssl_protocols = [Tlsv1_2, Tlsv1_3]"

definition default_ssl_ciphers :: "ssl_cipher list" where
  "default_ssl_ciphers =
     [Tls13Aes256GcmSha384, Tls13Aes128GcmSha256, Tls13Chacha20Poly1305Sha256,
      TlsEcdheEcdsaWithAes256GcmSha384, TlsEcdheEcdsaWithAes128GcmSha256,
      TlsEcdheEcdsaWithChacha20Poly1305Sha256, TlsEcdheRsaWithAes256GcmSha384,
      TlsEcdheRsaWithAes128GcmSha256, TlsEcdheRsaWithChacha20Poly1305Sha256]"

definition worker_config_default :: worker_config where
  "worker_config_default = \<lparr>
     wc_max_connections = default_max_connections,
     wc_max_read_buffer_size = default_max_read_buffer_size,
     wc_max_write_buffer_size = default_max_write_buffer_size,
     wc_idle_timeout_ms = default_idle_timeout_ms,
     wc_drain_timeout_ms = default_drain_timeout_ms\<rparr>"

definition proxy_timeout_config_default :: proxy_timeout_config where
  "proxy_timeout_config_default = \<lparr>
     pc_connect_timeout_ms = default_proxy_connect_timeout_ms,
     pc_write_timeout_ms = default_proxy_write_timeout_ms,
     pc_read_timeout_ms = default_proxy_read_timeout_ms\<rparr>"

definition dns_config_default :: dns_config where
  "dns_config_default = \<lparr>
     dc_resolver_threads = default_dns_resolver_threads,
     dc_timeout_ms = default_dns_timeout_ms\<rparr>"

definition async_runtime_config_default :: async_runtime_config where
  "async_runtime_config_default = Epoll default_epoll_max_events"

text \<open>\<open>std::thread::available_parallelism\<close> is given: the number of CPUs, or \<open>None\<close> on error.\<close>

definition default_worker_count :: "usize option \<Rightarrow> usize" where
  "default_worker_count parallelism = (case parallelism of Some n \<Rightarrow> n | None \<Rightarrow> 1)"

definition config_default :: "usize option \<Rightarrow> config" where
  "config_default parallelism = \<lparr>
     http_servers = [\<lparr>server_name = None, locations = [], listen = SocketV4 0 8089, ssl = None\<rparr>],
     runtime = async_runtime_config_default,
     worker_count = default_worker_count parallelism,
     worker = worker_config_default,
     proxy = proxy_timeout_config_default,
     dns = dns_config_default,
     upstreams = []\<rparr>"

section \<open>Checks during deserialisation\<close>

text \<open>
  Each function gets the result of the underlying integer deserialiser (\<open>raw\<close>) and the
  deserialiser's constructor for custom errors (\<open>custom\<close>); both belong to serde and toml.
\<close>

definition deserialize_positive_usize ::
  "(bytes \<Rightarrow> 'e) \<Rightarrow> 'e + usize \<Rightarrow> 'e + usize" where
  "deserialize_positive_usize custom raw = (case raw of
     Inl e \<Rightarrow> Inl e
   | Inr value \<Rightarrow>
       if value = 0 then Inl (custom ''worker limit must be greater than zero'') else Inr value)"

definition deserialize_positive_u64 ::
  "(bytes \<Rightarrow> 'e) \<Rightarrow> 'e + u64 \<Rightarrow> 'e + u64" where
  "deserialize_positive_u64 custom raw = (case raw of
     Inl e \<Rightarrow> Inl e
   | Inr value \<Rightarrow>
       if value = 0 then Inl (custom ''worker timeout must be greater than zero'') else Inr value)"

definition deserialize_runtime_positive_usize ::
  "(bytes \<Rightarrow> 'e) \<Rightarrow> 'e + usize \<Rightarrow> 'e + usize" where
  "deserialize_runtime_positive_usize custom raw = (case raw of
     Inl e \<Rightarrow> Inl e
   | Inr value \<Rightarrow>
       if value = 0 then Inl (custom ''runtime queue and buffer sizes must be greater than zero'')
       else Inr value)"

definition deserialize_runtime_positive_u32 ::
  "(bytes \<Rightarrow> 'e) \<Rightarrow> 'e + u32 \<Rightarrow> 'e + u32" where
  "deserialize_runtime_positive_u32 custom raw = (case raw of
     Inl e \<Rightarrow> Inl e
   | Inr value \<Rightarrow>
       if value = 0 then Inl (custom ''io_uring SQ/CQ entry counts must be greater than zero'')
       else Inr value)"

definition deserialize_buf_ring_size ::
  "(bytes \<Rightarrow> 'e) \<Rightarrow> 'e + u32 \<Rightarrow> 'e + u32" where
  "deserialize_buf_ring_size custom raw = (case raw of
     Inl e \<Rightarrow> Inl e
   | Inr value \<Rightarrow>
       if value = 0 \<or> value > 32768 \<or> \<not> is_power_of_two value
       then Inl (custom ''io_uring buf_ring_size must be a power of two between 1 and 32768'')
       else Inr value)"

definition deserialize_upstream_weight ::
  "(bytes \<Rightarrow> 'e) \<Rightarrow> 'e + u32 \<Rightarrow> 'e + u32" where
  "deserialize_upstream_weight custom raw = (case raw of
     Inl e \<Rightarrow> Inl e
   | Inr value \<Rightarrow>
       if value = 0 then Inl (custom ''upstream weight must be greater than zero'') else Inr value)"

text \<open>A field with \<open>default = d, deserialize_with = f\<close>: \<open>None\<close> when the key is absent.\<close>

definition field_with :: "'a \<Rightarrow> ('e + 'a \<Rightarrow> 'e + 'a) \<Rightarrow> ('e + 'a) option \<Rightarrow> 'e + 'a" where
  "field_with d f raw = (case raw of None \<Rightarrow> Inr d | Some r \<Rightarrow> f r)"

definition deserialize_worker_config ::
  "(bytes \<Rightarrow> 'e) \<Rightarrow> ('e + usize) option \<Rightarrow> ('e + usize) option \<Rightarrow> ('e + usize) option \<Rightarrow>
   ('e + u64) option \<Rightarrow> ('e + u64) option \<Rightarrow> 'e + worker_config" where
  "deserialize_worker_config custom r1 r2 r3 r4 r5 =
     (case field_with default_max_connections (deserialize_positive_usize custom) r1 of
        Inl e \<Rightarrow> Inl e | Inr mc \<Rightarrow>
     (case field_with default_max_read_buffer_size (deserialize_positive_usize custom) r2 of
        Inl e \<Rightarrow> Inl e | Inr mr \<Rightarrow>
     (case field_with default_max_write_buffer_size (deserialize_positive_usize custom) r3 of
        Inl e \<Rightarrow> Inl e | Inr mw \<Rightarrow>
     (case field_with default_idle_timeout_ms (deserialize_positive_u64 custom) r4 of
        Inl e \<Rightarrow> Inl e | Inr idle \<Rightarrow>
     (case field_with default_drain_timeout_ms (deserialize_positive_u64 custom) r5 of
        Inl e \<Rightarrow> Inl e | Inr drain \<Rightarrow>
     Inr \<lparr>wc_max_connections = mc, wc_max_read_buffer_size = mr,
          wc_max_write_buffer_size = mw, wc_idle_timeout_ms = idle,
          wc_drain_timeout_ms = drain\<rparr>)))))"

definition deserialize_proxy_timeout_config ::
  "(bytes \<Rightarrow> 'e) \<Rightarrow> ('e + u64) option \<Rightarrow> ('e + u64) option \<Rightarrow> ('e + u64) option \<Rightarrow>
   'e + proxy_timeout_config" where
  "deserialize_proxy_timeout_config custom r1 r2 r3 =
     (case field_with default_proxy_connect_timeout_ms (deserialize_positive_u64 custom) r1 of
        Inl e \<Rightarrow> Inl e | Inr c \<Rightarrow>
     (case field_with default_proxy_write_timeout_ms (deserialize_positive_u64 custom) r2 of
        Inl e \<Rightarrow> Inl e | Inr w \<Rightarrow>
     (case field_with default_proxy_read_timeout_ms (deserialize_positive_u64 custom) r3 of
        Inl e \<Rightarrow> Inl e | Inr r \<Rightarrow>
     Inr \<lparr>pc_connect_timeout_ms = c, pc_write_timeout_ms = w, pc_read_timeout_ms = r\<rparr>)))"

definition deserialize_dns_config ::
  "(bytes \<Rightarrow> 'e) \<Rightarrow> ('e + usize) option \<Rightarrow> ('e + u64) option \<Rightarrow> 'e + dns_config" where
  "deserialize_dns_config custom r1 r2 =
     (case field_with default_dns_resolver_threads (deserialize_positive_usize custom) r1 of
        Inl e \<Rightarrow> Inl e | Inr n \<Rightarrow>
     (case field_with default_dns_timeout_ms (deserialize_positive_u64 custom) r2 of
        Inl e \<Rightarrow> Inl e | Inr t \<Rightarrow>
     Inr \<lparr>dc_resolver_threads = n, dc_timeout_ms = t\<rparr>))"

text \<open>The \<open>io_uring\<close> variant of the tagged enum \<open>AsyncRuntimeConfig\<close>.\<close>

definition deserialize_io_uring ::
  "(bytes \<Rightarrow> 'e) \<Rightarrow> ('e + u32) option \<Rightarrow> ('e + u32) option \<Rightarrow> ('e + u32) option \<Rightarrow>
   ('e + usize) option \<Rightarrow> 'e + async_runtime_config" where
  "deserialize_io_uring custom r1 r2 r3 r4 =
     (case field_with default_sq_entries (deserialize_runtime_positive_u32 custom) r1 of
        Inl e \<Rightarrow> Inl e | Inr sq \<Rightarrow>
     (case field_with default_cq_entries (deserialize_runtime_positive_u32 custom) r2 of
        Inl e \<Rightarrow> Inl e | Inr cq \<Rightarrow>
     (case field_with default_buf_ring_size (deserialize_buf_ring_size custom) r3 of
        Inl e \<Rightarrow> Inl e | Inr ring \<Rightarrow>
     (case field_with default_buf_size (deserialize_runtime_positive_usize custom) r4 of
        Inl e \<Rightarrow> Inl e | Inr buf \<Rightarrow>
     Inr (IoUring sq cq ring buf)))))"

section \<open>Validation\<close>

datatype config_error =
    EmptyGroupName
  | EmptyGroup bytes
  | EmptyUpstreamUrl
  | WeightsTooLarge
  | EmptyCertificatePath
  | EmptyPrivateKeyPath
  | EmptyProtocols
  | EmptyCiphers
  | NotExactlyOneUpstream
  | UnknownUpstreamGroup bytes

text \<open>\<open>try_fold(0_u64, |total, endpoint| total.checked_add(weight))\<close>.\<close>

fun sum_weights :: "u64 \<Rightarrow> upstream_endpoint list \<Rightarrow> u64 option" where
  "sum_weights acc [] = Some acc"
| "sum_weights acc (e # es) = (case checked_add acc (ucast (weight e)) of
     None \<Rightarrow> None | Some t \<Rightarrow> sum_weights t es)"

definition validate_endpoints :: "upstream_endpoint list \<Rightarrow> config_error + unit" where
  "validate_endpoints endpoints =
     (if list_ex (\<lambda>e. trim (url e) = []) endpoints then Inl EmptyUpstreamUrl
      else (case sum_weights 0 endpoints of None \<Rightarrow> Inl WeightsTooLarge | Some _ \<Rightarrow> Inr ()))"

definition validate_group :: "bytes \<times> upstream_group \<Rightarrow> config_error + unit" where
  "validate_group = (\<lambda>(name, group).
     if trim name = [] then Inl EmptyGroupName
     else if group_servers group = [] then Inl (EmptyGroup name)
     else validate_endpoints (group_servers group))"

definition validate_ssl :: "ssl_server_config option \<Rightarrow> config_error + unit" where
  "validate_ssl s = (case s of
     None \<Rightarrow> Inr ()
   | Some c \<Rightarrow>
       if trim (certificate_path c) = [] then Inl EmptyCertificatePath
       else if trim (private_key_path c) = [] then Inl EmptyPrivateKeyPath
       else if protocols c = [] then Inl EmptyProtocols
       else if ciphers c = [] then Inl EmptyCiphers
       else Inr ())"

definition configured_sources :: "bytes option \<Rightarrow> bytes option \<Rightarrow> upstream_endpoint list \<Rightarrow> nat" where
  "configured_sources u g es =
     (if u \<noteq> None then 1 else 0) + (if g \<noteq> None then 1 else 0) + (if es \<noteq> [] then 1 else 0)"

definition validate_action ::
  "(bytes, upstream_group) hashmap \<Rightarrow> action \<Rightarrow> config_error + unit" where
  "validate_action groups a = (case a of
     Proxy u g es _ \<Rightarrow>
       if configured_sources u g es \<noteq> 1 then Inl NotExactlyOneUpstream
       else if (case u of Some x \<Rightarrow> trim x = [] | None \<Rightarrow> False)
               \<or> list_ex (\<lambda>e. trim (url e) = []) es then Inl EmptyUpstreamUrl
       else (case validate_endpoints es of
               Inl e \<Rightarrow> Inl e
             | Inr _ \<Rightarrow>
                 (case g of
                    Some name \<Rightarrow>
                      if contains_key groups name then Inr () else Inl (UnknownUpstreamGroup name)
                  | None \<Rightarrow> Inr ()))
   | _ \<Rightarrow> Inr ())"

definition validate_server ::
  "(bytes, upstream_group) hashmap \<Rightarrow> server \<Rightarrow> config_error + unit" where
  "validate_server groups s = (case validate_ssl (ssl s) of
     Inl e \<Rightarrow> Inl e
   | Inr _ \<Rightarrow> try_for_each (\<lambda>l. validate_action groups (loc_action l)) (locations s))"

definition validate :: "config \<Rightarrow> config_error + unit" where
  "validate c = (case try_for_each validate_group (upstreams c) of
     Inl e \<Rightarrow> Inl e
   | Inr _ \<Rightarrow> try_for_each (validate_server (upstreams c)) (http_servers c))"

text \<open>\<open>toml::from_str\<close> and \<open>toml::de::Error::custom\<close> are given.\<close>

definition from_toml ::
  "(bytes \<Rightarrow> 'e + config) \<Rightarrow> (config_error \<Rightarrow> 'e) \<Rightarrow> bytes \<Rightarrow> 'e + config" where
  "from_toml from_str custom contents = (case from_str contents of
     Inl e \<Rightarrow> Inl e
   | Inr c \<Rightarrow> (case validate c of Inl e \<Rightarrow> Inl (custom e) | Inr _ \<Rightarrow> Inr c))"

datatype ('io, 'e) read_config_error = ConfigIo 'io | ConfigParse 'e

definition read_config ::
  "('p \<Rightarrow> 'io + bytes) \<Rightarrow> (bytes \<Rightarrow> 'e + config) \<Rightarrow> (config_error \<Rightarrow> 'e) \<Rightarrow> 'p \<Rightarrow>
   ('io, 'e) read_config_error + config" where
  "read_config read_to_string from_str custom path = (case read_to_string path of
     Inl e \<Rightarrow> Inl (ConfigIo e)
   | Inr contents \<Rightarrow> (case from_toml from_str custom contents of
       Inl e \<Rightarrow> Inl (ConfigParse e) | Inr c \<Rightarrow> Inr c))"

section \<open>What an accepted configuration guarantees\<close>

definition blank :: "bytes \<Rightarrow> bool" where
  "blank s \<longleftrightarrow> trim s = []"

definition total_weight :: "upstream_endpoint list \<Rightarrow> nat" where
  "total_weight es = sum_list (map (\<lambda>e. unat (weight e)) es)"

definition endpoints_ok :: "upstream_endpoint list \<Rightarrow> bool" where
  "endpoints_ok es \<longleftrightarrow> (\<forall>e \<in> set es. \<not> blank (url e)) \<and> total_weight es < 2 ^ 64"

definition ssl_ok :: "ssl_server_config \<Rightarrow> bool" where
  "ssl_ok c \<longleftrightarrow> \<not> blank (certificate_path c) \<and> \<not> blank (private_key_path c)
     \<and> protocols c \<noteq> [] \<and> ciphers c \<noteq> []"

text \<open>A proxy action names exactly one source of upstreams, and that source exists.\<close>

definition proxy_action_ok :: "(bytes, upstream_group) hashmap \<Rightarrow> action \<Rightarrow> bool" where
  "proxy_action_ok groups a \<longleftrightarrow> (case a of
     Proxy (Some u) None [] _ \<Rightarrow> \<not> blank u
   | Proxy None (Some g) [] _ \<Rightarrow> g \<in> fst ` set groups
   | Proxy None None (e # es) _ \<Rightarrow> endpoints_ok (e # es)
   | Proxy _ _ _ _ \<Rightarrow> False
   | _ \<Rightarrow> True)"

definition config_ok :: "config \<Rightarrow> bool" where
  "config_ok c \<longleftrightarrow>
     (\<forall>(name, group) \<in> set (upstreams c).
        \<not> blank name \<and> group_servers group \<noteq> [] \<and> endpoints_ok (group_servers group))
   \<and> (\<forall>s \<in> set (http_servers c).
        (\<forall>x. ssl s = Some x \<longrightarrow> ssl_ok x)
      \<and> (\<forall>l \<in> set (locations s). proxy_action_ok (upstreams c) (loc_action l)))"

lemma sum_weights_Some_iff:
  "sum_weights t es = Some r \<longleftrightarrow>
     unat t + total_weight es < 2 ^ 64 \<and> unat r = unat t + total_weight es"
proof (induction es arbitrary: t)
  case Nil
  have "unat t < 2 ^ 64" using unat_bound[of t] by simp
  then show ?case by (auto simp: total_weight_def word_unat_eq_iff)
next
  case (Cons e es)
  have u: "unat (ucast (weight e) :: u64) = unat (weight e)"
    by (simp add: unat_ucast_up)
  show ?case
  proof (cases "checked_add t (ucast (weight e))")
    case None
    then have "2 ^ 64 \<le> unat t + unat (weight e)" by (simp add: checked_add_None_iff u)
    with None show ?thesis by (simp add: total_weight_def)
  next
    case (Some t')
    then have "unat t' = unat t + unat (weight e)" by (simp add: checked_add_Some_iff u)
    with Some Cons.IH[of t'] show ?thesis by (simp add: total_weight_def add.assoc)
  qed
qed

lemma validate_endpoints_Inr_iff: "validate_endpoints es = Inr () \<longleftrightarrow> endpoints_ok es"
proof -
  have "sum_weights 0 es \<noteq> None \<longleftrightarrow> total_weight es < 2 ^ 64"
  proof
    assume "sum_weights 0 es \<noteq> None"
    then show "total_weight es < 2 ^ 64" by (auto simp: sum_weights_Some_iff)
  next
    assume lt: "total_weight es < 2 ^ 64"
    then have "unat (of_nat (total_weight es) :: u64) = total_weight es"
      by (simp add: unat_of_nat_small)
    then have "sum_weights 0 es = Some (of_nat (total_weight es))"
      using lt by (simp add: sum_weights_Some_iff)
    then show "sum_weights 0 es \<noteq> None" by simp
  qed
  then show ?thesis
    by (auto simp: validate_endpoints_def endpoints_ok_def blank_def list_ex_iff
        split: option.splits)
qed

text \<open>Every limit, timeout and ring size that reaches a worker is positive.\<close>

lemma deserialize_positive_Inr:
  "deserialize_positive_usize custom raw = Inr v \<longleftrightarrow> raw = Inr v \<and> v \<noteq> 0"
  "deserialize_positive_u64 custom raw64 = Inr w \<longleftrightarrow> raw64 = Inr w \<and> w \<noteq> 0"
  "deserialize_runtime_positive_usize custom raw = Inr v \<longleftrightarrow> raw = Inr v \<and> v \<noteq> 0"
  "deserialize_runtime_positive_u32 custom raw32 = Inr u \<longleftrightarrow> raw32 = Inr u \<and> u \<noteq> 0"
  "deserialize_upstream_weight custom raw32 = Inr u \<longleftrightarrow> raw32 = Inr u \<and> u \<noteq> 0"
  by (auto simp: deserialize_positive_usize_def deserialize_positive_u64_def
      deserialize_runtime_positive_usize_def deserialize_runtime_positive_u32_def
      deserialize_upstream_weight_def split: sum.splits if_splits)

lemma field_with_positive:
  assumes "d \<noteq> 0" and "\<And>r v. f r = Inr v \<Longrightarrow> v \<noteq> 0" and "field_with d f raw = Inr v"
  shows "v \<noteq> 0"
  using assms by (auto simp: field_with_def split: option.splits)

definition worker_config_ok :: "worker_config \<Rightarrow> bool" where
  "worker_config_ok c \<longleftrightarrow> wc_max_connections c \<noteq> 0 \<and> wc_max_read_buffer_size c \<noteq> 0
     \<and> wc_max_write_buffer_size c \<noteq> 0 \<and> wc_idle_timeout_ms c \<noteq> 0 \<and> wc_drain_timeout_ms c \<noteq> 0"

lemma deserialize_worker_config_ok:
  assumes "deserialize_worker_config custom r1 r2 r3 r4 r5 = Inr c"
  shows "worker_config_ok c"
  using assms
  by (auto simp: deserialize_worker_config_def worker_config_ok_def deserialize_positive_Inr
      default_defs split: sum.splits dest: field_with_positive[rotated 2])

lemma deserialize_buf_ring_size_Inr_iff:
  "deserialize_buf_ring_size custom raw = Inr v \<longleftrightarrow>
     raw = Inr v \<and> (\<exists>k \<le> 15. unat v = 2 ^ k)"
proof -
  have "(v \<noteq> 0 \<and> v \<le> 32768 \<and> is_power_of_two v) \<longleftrightarrow> (\<exists>k \<le> 15. unat v = 2 ^ k)"
    (is "?L \<longleftrightarrow> ?R")
  proof
    assume ?L
    then obtain k where k: "k < 32" "unat v = 2 ^ k" by (auto simp: is_power_of_two_iff)
    have "(2::nat) ^ k \<le> 2 ^ 15" using \<open>?L\<close> k by (simp add: word_le_nat_alt)
    then have "k \<le> 15" by (rule power_le_imp_le_exp[rotated]) simp
    with k show ?R by blast
  next
    assume ?R
    then obtain k where k: "k \<le> 15" "unat v = 2 ^ k" by blast
    have "unat v \<noteq> 0" using k by simp
    then have "v \<noteq> 0" by auto
    moreover have "(2::nat) ^ k \<le> 2 ^ 15" using k by (intro power_increasing) auto
    ultimately show ?L using k by (auto simp: is_power_of_two_iff word_le_nat_alt)
  qed
  then show ?thesis
    by (auto simp: deserialize_buf_ring_size_def not_less split: sum.splits)
qed

lemma validate_group_Inr_iff:
  "validate_group (n, g) = Inr () \<longleftrightarrow>
     \<not> blank n \<and> group_servers g \<noteq> [] \<and> endpoints_ok (group_servers g)"
  by (auto simp: validate_group_def blank_def validate_endpoints_Inr_iff)

lemma validate_ssl_Inr_iff: "validate_ssl s = Inr () \<longleftrightarrow> (\<forall>x. s = Some x \<longrightarrow> ssl_ok x)"
  by (auto simp: validate_ssl_def ssl_ok_def blank_def split: option.splits)

lemma validate_action_Inr_iff: "validate_action groups a = Inr () \<longleftrightarrow> proxy_action_ok groups a"
proof (cases a)
  case (Proxy u g es p)
  have ve: "validate_endpoints es = Inr () \<longleftrightarrow> endpoints_ok es" for es
    by (rule validate_endpoints_Inr_iff)
  have ck: "contains_key groups n \<longleftrightarrow> n \<in> fst ` set groups" for n
    by (auto simp: contains_key_def map_of_eq_None_iff)
  have nil: "validate_endpoints [] = Inr ()"
    by (simp add: ve endpoints_ok_def total_weight_def)
  show ?thesis
    using ve[of es] nil Proxy
    by (cases u; cases g; cases es)
       (auto simp: validate_action_def proxy_action_ok_def configured_sources_def blank_def ck
          list_ex_iff endpoints_ok_def split: sum.splits)
qed (simp_all add: validate_action_def proxy_action_ok_def)

lemma validate_server_Inr_iff:
  "validate_server groups s = Inr () \<longleftrightarrow>
     (\<forall>x. ssl s = Some x \<longrightarrow> ssl_ok x)
   \<and> (\<forall>l \<in> set (locations s). proxy_action_ok groups (loc_action l))"
  by (auto simp: validate_server_def try_for_each_Inr_iff validate_action_Inr_iff
      validate_ssl_Inr_iff[symmetric] split: sum.splits)

text \<open>
  C27. \<open>Config::validate\<close> accepts a configuration exactly when it satisfies the declarative
  well-formedness condition: named groups are non-empty with non-blank URLs and weights whose sum
  fits in 64 bits, SSL blocks are complete, and every proxy action names exactly one existing
  upstream source.
\<close>

theorem validate_iff_config_ok: "validate c = Inr () \<longleftrightarrow> config_ok c"
proof -
  have "try_for_each validate_group (upstreams c) = Inr () \<longleftrightarrow>
      (\<forall>(name, group) \<in> set (upstreams c).
        \<not> blank name \<and> group_servers group \<noteq> [] \<and> endpoints_ok (group_servers group))"
    by (auto simp: try_for_each_Inr_iff validate_group_Inr_iff)
  then show ?thesis
    unfolding validate_def config_ok_def check_seq_iff
    by (simp add: try_for_each_Inr_iff validate_server_Inr_iff)
qed

end
