(* ===== verification/Load_Balancer.thy ===== *)
theory Load_Balancer
  imports Config
begin

text \<open>
  The upstream balancer of \<open>run/slave/src/load_balancer.rs\<close>: a cursor per upstream group, advanced
  once per selection, and the round-robin and weighted round-robin policies. The reference
  definition is the schedule of a group, the list in which every endpoint occurs as often as its
  weight; the lemmas show that selection walks this list cyclically, that it is fair over a full
  cycle, and that it never panics on a validated configuration.
\<close>

section \<open>The balancer\<close>

record upstream_balancer =
  balancer_groups :: "(bytes, upstream_group) hashmap"
  cursors :: "bytes \<rightharpoonup> u64"

datatype balance_error =
    NotProxy
  | MissingUpstream
  | AmbiguousUpstream
  | InvalidWeight
  | UnknownGroup bytes

definition with_groups :: "(bytes, upstream_group) hashmap \<Rightarrow> upstream_balancer" where
  "with_groups gs = \<lparr>balancer_groups = gs, cursors = Map.empty\<rparr>"

definition policy_debug :: "balance_policy \<Rightarrow> bytes" where
  "policy_debug p = (case p of RoundRobin \<Rightarrow> ''RoundRobin'' | WeightedRoundRobin \<Rightarrow> ''WeightedRoundRobin'')"

definition group_key :: "balance_policy \<Rightarrow> upstream_endpoint list \<Rightarrow> bytes" where
  "group_key p es = policy_debug p @ '':'' @
     concat (map (\<lambda>e. url e @ ''#'' @ dec (unat (weight e)) @ ''|'') es)"

text \<open>The closure passed to \<open>position\<close> adds to \<open>boundary\<close> before it compares.\<close>

fun weighted_position :: "u64 \<Rightarrow> u64 \<Rightarrow> upstream_endpoint list \<Rightarrow> nat option" where
  "weighted_position pos boundary [] = None"
| "weighted_position pos boundary (e # es) =
     (let boundary' = boundary + ucast (weight e)
      in if pos < boundary' then Some 0 else map_option Suc (weighted_position pos boundary' es))"

text \<open>The index selected by a policy: an \<open>InvalidWeight\<close> error, or a panic on a zero total.\<close>

definition selected_index ::
  "balance_policy \<Rightarrow> u64 \<Rightarrow> upstream_endpoint list \<Rightarrow> (balance_error + nat) outcome" where
  "selected_index p cursor es = (case p of
     RoundRobin \<Rightarrow> Return (Inr (unat cursor mod length es))
   | WeightedRoundRobin \<Rightarrow>
       (case sum_weights 0 es of
          None \<Rightarrow> Return (Inl InvalidWeight)
        | Some total_w \<Rightarrow>
            if total_w = 0 then Panic
            else (case weighted_position (cursor mod total_w) 0 es of
                    None \<Rightarrow> Panic
                  | Some i \<Rightarrow> Return (Inr i))))"

definition group_source ::
  "upstream_balancer \<Rightarrow> bytes option \<Rightarrow> upstream_endpoint list \<Rightarrow> balance_policy \<Rightarrow>
   balance_error + bytes \<times> balance_policy \<times> upstream_endpoint list" where
  "group_source b g es p = (case g of
     Some name \<Rightarrow>
       (case map_of (balancer_groups b) name of
          None \<Rightarrow> Inl (UnknownGroup name)
        | Some gr \<Rightarrow> Inr (''named:'' @ name, group_policy gr, group_servers gr))
   | None \<Rightarrow> Inr (group_key p es, p, es))"

definition select ::
  "action \<Rightarrow> upstream_balancer \<Rightarrow> (balance_error + bytes) outcome \<times> upstream_balancer" where
  "select a b = (case a of
     Proxy upstream upstream_group ups policy \<Rightarrow>
       if configured_sources upstream upstream_group ups > 1
       then (Return (Inl AmbiguousUpstream), b)
       else (case upstream of
         Some u \<Rightarrow> (Return (Inr u), b)
       | None \<Rightarrow>
           (case group_source b upstream_group ups policy of
              Inl e \<Rightarrow> (Return (Inl e), b)
            | Inr (key, p, es) \<Rightarrow>
                if es = [] then (Return (Inl MissingUpstream), b)
                else
                  let cursor = (case cursors b key of Some c \<Rightarrow> c | None \<Rightarrow> 0);
                      b' = b\<lparr>cursors := (cursors b)(key \<mapsto> cursor)\<rparr>
                  in (case selected_index p cursor es of
                        Panic \<Rightarrow> (Panic, b')
                      | Return (Inl e) \<Rightarrow> (Return (Inl e), b')
                      | Return (Inr i) \<Rightarrow>
                          if i < length es
                          then (Return (Inr (url (es ! i))),
                                b\<lparr>cursors := (cursors b)(key \<mapsto> cursor + 1)\<rparr>)
                          else (Panic, b\<lparr>cursors := (cursors b)(key \<mapsto> cursor + 1)\<rparr>))))
   | _ \<Rightarrow> (Return (Inl NotProxy), b))"

section \<open>The schedule of a group\<close>

definition schedule :: "balance_policy \<Rightarrow> upstream_endpoint list \<Rightarrow> bytes list" where
  "schedule p es = (case p of
     RoundRobin \<Rightarrow> map url es
   | WeightedRoundRobin \<Rightarrow> concat (map (\<lambda>e. replicate (unat (weight e)) (url e)) es))"

definition cursor_of :: "upstream_balancer \<Rightarrow> bytes \<Rightarrow> u64" where
  "cursor_of b key = (case cursors b key of Some c \<Rightarrow> c | None \<Rightarrow> 0)"

text \<open>What the configuration guarantees of the endpoints of a group that is selected from.\<close>

definition selectable :: "upstream_endpoint list \<Rightarrow> bool" where
  "selectable es \<longleftrightarrow> es \<noteq> [] \<and> (\<forall>e \<in> set es. 0 < unat (weight e)) \<and> total_weight es < 2 ^ 64"

lemma length_weighted_schedule [simp]: "length (schedule WeightedRoundRobin es) = total_weight es"
  by (induction es) (simp_all add: schedule_def total_weight_def)

lemma selectable_total: "selectable es \<Longrightarrow> 0 < total_weight es"
  by (cases es) (auto simp: selectable_def total_weight_def)

lemma selectable_schedule: "selectable es \<Longrightarrow> schedule p es \<noteq> []"
proof (cases p)
  case WeightedRoundRobin
  assume "selectable es"
  from selectable_total[OF this] show ?thesis
    using WeightedRoundRobin length_weighted_schedule[of es] by fastforce
qed (simp add: selectable_def schedule_def)

text \<open>The linear scan with the running boundary finds the scheduled endpoint.\<close>

lemma weighted_position_schedule:
  assumes "unat boundary \<le> unat pos" and "unat pos < unat boundary + total_weight es"
    and "unat boundary + total_weight es < 2 ^ 64"
  shows "\<exists>i < length es. weighted_position pos boundary es = Some i
       \<and> url (es ! i) = schedule WeightedRoundRobin es ! (unat pos - unat boundary)"
  using assms
proof (induction es arbitrary: boundary)
  case Nil
  then show ?case by (simp add: total_weight_def)
next
  case (Cons e es)
  let ?w = "unat (weight e)" and ?b = "boundary + ucast (weight e)"
  have tw: "total_weight (e # es) = ?w + total_weight es" by (simp add: total_weight_def)
  have ub: "unat ?b = unat boundary + ?w"
    using Cons.prems(3) tw by (subst unat_plus_small) (simp_all add: unat_ucast_up)
  have sch: "schedule WeightedRoundRobin (e # es)
      = replicate ?w (url e) @ schedule WeightedRoundRobin es"
    by (simp add: schedule_def)
  show ?case
  proof (cases "pos < ?b")
    case True
    then have "unat pos - unat boundary < ?w"
      using ub Cons.prems(1) by (simp add: word_less_nat_alt)
    with True show ?thesis by (simp add: sch nth_append Let_def)
  next
    case False
    then have le: "unat ?b \<le> unat pos" by (simp add: word_less_nat_alt)
    moreover have "unat pos < unat ?b + total_weight es" "unat ?b + total_weight es < 2 ^ 64"
      using Cons.prems tw ub by simp_all
    ultimately obtain i where i: "i < length es" "weighted_position pos ?b es = Some i"
      "url (es ! i) = schedule WeightedRoundRobin es ! (unat pos - unat ?b)"
      using Cons.IH[of ?b] by blast
    have "\<not> unat pos - unat boundary < ?w" and "unat pos - unat boundary - ?w = unat pos - unat ?b"
      using le ub by simp_all
    with False i show ?thesis
      by (intro exI[of _ "Suc i"]) (simp add: sch nth_append Let_def)
  qed
qed

lemma selected_index_schedule:
  assumes "selectable es"
  shows "\<exists>i < length es. selected_index p c es = Return (Inr i)
       \<and> url (es ! i) = schedule p es ! (unat c mod length (schedule p es))"
proof (cases p)
  case RoundRobin
  have "unat c mod length es < length es" using assms by (simp add: selectable_def)
  with RoundRobin show ?thesis by (simp add: selected_index_def schedule_def)
next
  case WeightedRoundRobin
  let ?T = "of_nat (total_weight es) :: u64"
  have T: "unat ?T = total_weight es" "total_weight es < 2 ^ 64"
    using assms by (simp_all add: selectable_def unat_of_nat_small)
  then have sum: "sum_weights 0 es = Some ?T" by (simp add: sum_weights_Some_iff)
  have pos: "0 < total_weight es" using assms by (rule selectable_total)
  with T have nz: "?T \<noteq> 0" by auto
  have m: "unat (c mod ?T) = unat c mod total_weight es" by (simp add: unat_mod_distrib T)
  with pos have "unat (c mod ?T) < total_weight es" by simp
  with weighted_position_schedule[of 0 "c mod ?T" es] T obtain i where
    "i < length es" "weighted_position (c mod ?T) 0 es = Some i"
    "url (es ! i) = schedule WeightedRoundRobin es ! (unat c mod total_weight es)"
    by (auto simp: m)
  with WeightedRoundRobin sum nz show ?thesis by (simp add: selected_index_def)
qed

section \<open>Selection\<close>

text \<open>
  Selecting from a group is a cyclic walk over its schedule: with cursor \<open>c\<close> the result is
  entry \<open>c mod length\<close> of the schedule, and the only state change is that this group's cursor
  advances by one (wrapping at 64 bits). There is no error and no panic.
\<close>

lemma select_walks_schedule:
  assumes "group_source b g es0 p0 = Inr (key, p, es)" and "selectable es"
    and "configured_sources None g es0 \<le> 1"
  shows "select (Proxy None g es0 p0) b =
     (Return (Inr (schedule p es ! (unat (cursor_of b key) mod length (schedule p es)))),
      b\<lparr>cursors := (cursors b)(key \<mapsto> cursor_of b key + 1)\<rparr>)"
proof -
  have ne: "es \<noteq> []" using assms(2) by (simp add: selectable_def)
  obtain i where "i < length es" "selected_index p (cursor_of b key) es = Return (Inr i)"
    "url (es ! i) = schedule p es ! (unat (cursor_of b key) mod length (schedule p es))"
    using selected_index_schedule[OF assms(2)] by blast
  with assms(1,3) ne show ?thesis
    by (auto simp: select_def cursor_of_def Let_def not_less)
qed

definition sample_endpoints :: "upstream_endpoint list" where
  "sample_endpoints = [\<lparr>url = ''http://a'', weight = 2\<rparr>, \<lparr>url = ''http://b'', weight = 1\<rparr>]"

lemma sample_selectable: "selectable sample_endpoints"
  by (simp add: selectable_def sample_endpoints_def total_weight_def)

lemma group_source_cursors [simp]:
  "group_source (b\<lparr>cursors := x\<rparr>) g es p = group_source b g es p"
  by (cases g) (simp_all add: group_source_def)

fun select_many ::
  "nat \<Rightarrow> action \<Rightarrow> upstream_balancer \<Rightarrow> (balance_error + bytes) outcome list \<times> upstream_balancer" where
  "select_many 0 a b = ([], b)"
| "select_many (Suc n) a b =
     (let (r, b') = select a b; (rs, b'') = select_many n a b' in (r # rs, b''))"

lemma select_many_schedule:
  assumes "group_source b g es0 p0 = Inr (key, p, es)" and "selectable es"
    and "configured_sources None g es0 \<le> 1" and "unat (cursor_of b key) + n \<le> 2 ^ 64"
  shows "fst (select_many n (Proxy None g es0 p0) b)
     = map (\<lambda>k. Return (Inr (schedule p es ! ((unat (cursor_of b key) + k) mod length (schedule p es)))))
         [0..<n]"
  using assms(1,4)
proof (induction n arbitrary: b)
  case 0
  then show ?case by simp
next
  case (Suc n)
  let ?c = "cursor_of b key" and ?a = "Proxy None g es0 p0" and ?L = "length (schedule p es)"
  let ?b = "b\<lparr>cursors := (cursors b)(key \<mapsto> ?c + 1)\<rparr>"
  have sel: "select ?a b = (Return (Inr (schedule p es ! (unat ?c mod ?L))), ?b)"
    by (rule select_walks_schedule[OF Suc.prems(1) assms(2,3)])
  have src: "group_source ?b g es0 p0 = Inr (key, p, es)"
    using Suc.prems(1) by simp
  have cur: "cursor_of ?b key = ?c + 1" by (simp add: cursor_of_def)
  show ?case
  proof (cases n)
    case 0
    with sel show ?thesis by simp
  next
    case (Suc m)
    then have "unat ?c + 1 < 2 ^ 64" using Suc.prems(2) by simp
    then have u: "unat (cursor_of ?b key) = unat ?c + 1" unfolding cur
      using unat_Suc_small[of ?c] by simp
    with Suc.prems(2) have "unat (cursor_of ?b key) + n \<le> 2 ^ 64" by simp
    from Suc.IH[OF src this] u have
      "fst (select_many n ?a ?b) = map (\<lambda>k. Return (Inr (schedule p es ! ((unat ?c + 1 + k) mod ?L)))) [0..<n]"
      by simp
    also have "\<dots> = map (\<lambda>k. Return (Inr (schedule p es ! ((unat ?c + k) mod ?L)))) [1..<Suc n]"
      by (rule nth_equalityI) (simp_all del: upt_Suc)
    finally show ?thesis
      using sel by (simp add: upt_conv_Cons Let_def case_prod_beta del: upt_Suc)
  qed
qed

text \<open>
  C6. Fairness: over any full cycle of selections in which the 64-bit cursor does not wrap, the
  selected URLs are the schedule itself up to rotation, so every endpoint is chosen exactly as
  often as its weight (once, under plain round robin).
\<close>

theorem select_fair:
  assumes "group_source b g es0 p0 = Inr (key, p, es)" and "selectable es"
    and "configured_sources None g es0 \<le> 1"
    and "unat (cursor_of b key) + length (schedule p es) \<le> 2 ^ 64"
  shows "fst (select_many (length (schedule p es)) (Proxy None g es0 p0) b)
       = map (\<lambda>u. Return (Inr u)) (rotate (unat (cursor_of b key)) (schedule p es))
     \<and> mset (fst (select_many (length (schedule p es)) (Proxy None g es0 p0) b))
       = image_mset (\<lambda>u. Return (Inr u)) (mset (schedule p es))"
proof -
  have "fst (select_many (length (schedule p es)) (Proxy None g es0 p0) b)
      = map (\<lambda>u. Return (Inr u)) (rotate (unat (cursor_of b key)) (schedule p es))"
    unfolding select_many_schedule[OF assms]
    by (rule nth_equalityI) (simp_all add: nth_rotate)
  then show ?thesis by simp
qed

theorem select_fair_witness:
  "fst (select_many 3 (Proxy None None sample_endpoints WeightedRoundRobin) (with_groups []))
     = [Return (Inr ''http://a''), Return (Inr ''http://a''), Return (Inr ''http://b'')]"
proof -
  have g: "group_source (with_groups []) None sample_endpoints WeightedRoundRobin
      = Inr (group_key WeightedRoundRobin sample_endpoints, WeightedRoundRobin, sample_endpoints)"
    by (simp add: group_source_def)
  have c: "configured_sources None None sample_endpoints \<le> 1"
    by (simp add: configured_sources_def)
  have l: "length (schedule WeightedRoundRobin sample_endpoints) = 3"
    by (simp add: sample_endpoints_def total_weight_def)
  have sch: "schedule WeightedRoundRobin sample_endpoints = [''http://a'', ''http://a'', ''http://b'']"
    by code_simp
  have cur: "cursor_of (with_groups []) k = 0" for k
    by (simp add: cursor_of_def with_groups_def)
  have b: "unat (cursor_of (with_groups []) (group_key WeightedRoundRobin sample_endpoints))
      + length (schedule WeightedRoundRobin sample_endpoints) \<le> 2 ^ 64"
    unfolding l by (simp add: cur)
  show ?thesis
    using conjunct1[OF select_fair[OF g sample_selectable c b]] unfolding l
    by (simp add: cur sch)
qed

section \<open>Validated configurations\<close>

text \<open>Every weight comes through \<open>deserialize_upstream_weight\<close>, so it is positive.\<close>

definition weights_positive :: "upstream_endpoint list \<Rightarrow> bool" where
  "weights_positive es \<longleftrightarrow> (\<forall>e \<in> set es. weight e \<noteq> 0)"

definition config_weights_positive :: "config \<Rightarrow> bool" where
  "config_weights_positive c \<longleftrightarrow>
     (\<forall>(name, g) \<in> set (upstreams c). weights_positive (group_servers g))
   \<and> (\<forall>s \<in> set (http_servers c). \<forall>l \<in> set (locations s).
        case loc_action l of Proxy _ _ es _ \<Rightarrow> weights_positive es | _ \<Rightarrow> True)"

definition proxy_urls :: "config \<Rightarrow> action \<Rightarrow> bytes set" where
  "proxy_urls c a = (case a of
     Proxy (Some u) _ _ _ \<Rightarrow> {u}
   | Proxy None (Some g) _ _ \<Rightarrow>
       (case map_of (upstreams c) g of Some gr \<Rightarrow> url ` set (group_servers gr) | None \<Rightarrow> {})
   | Proxy None None es _ \<Rightarrow> url ` set es
   | _ \<Rightarrow> {})"

lemma schedule_urls: "set (schedule p es) \<subseteq> url ` set es"
  by (cases p) (auto simp: schedule_def)

lemma select_group_url:
  assumes "group_source b g es0 p0 = Inr (key, p, es)" and "selectable es"
    and "configured_sources None g es0 \<le> 1"
  shows "\<exists>u \<in> url ` set es. fst (select (Proxy None g es0 p0) b) = Return (Inr u)
       \<and> balancer_groups (snd (select (Proxy None g es0 p0) b)) = balancer_groups b"
proof -
  let ?L = "length (schedule p es)"
  have "?L > 0" using selectable_schedule[OF assms(2)] by simp
  then have "schedule p es ! (unat (cursor_of b key) mod ?L) \<in> set (schedule p es)" by simp
  with select_walks_schedule[OF assms] schedule_urls[of p es] show ?thesis by auto
qed

lemma endpoints_selectable:
  "es \<noteq> [] \<Longrightarrow> endpoints_ok es \<Longrightarrow> weights_positive es \<Longrightarrow> selectable es"
  by (auto simp: selectable_def endpoints_ok_def weights_positive_def unat_gt_0)

lemma select_configured:
  assumes "config_ok c" and "config_weights_positive c"
    and "s \<in> set (http_servers c)" and "l \<in> set (locations s)"
    and "loc_action l = Proxy u g es p" and "balancer_groups b = upstreams c"
  shows "\<exists>x \<in> proxy_urls c (loc_action l). fst (select (loc_action l) b) = Return (Inr x)
       \<and> balancer_groups (snd (select (loc_action l) b)) = upstreams c"
proof -
  have ok: "proxy_action_ok (upstreams c) (Proxy u g es p)"
    using assms(1,3-5) unfolding config_ok_def by metis
  have wp: "weights_positive es"
    using assms(2-5) unfolding config_weights_positive_def by fastforce
  consider (direct) x where "u = Some x" "g = None" "es = []"
    | (group) n where "u = None" "g = Some n" "es = []" "n \<in> fst ` set (upstreams c)"
    | (inline) e es' where "u = None" "g = None" "es = e # es'" "endpoints_ok es"
    using ok unfolding proxy_action_ok_def
    by (cases u; cases g; cases es) auto
  then show ?thesis
  proof cases
    case direct
    then show ?thesis using assms(5,6)
      by (simp add: select_def proxy_urls_def configured_sources_def)
  next
    case group
    then obtain gr where gr: "map_of (upstreams c) n = Some gr"
      by (metis map_of_eq_None_iff not_None_eq)
    then have mem: "(n, gr) \<in> set (upstreams c)" by (rule map_of_SomeD)
    then have "group_servers gr \<noteq> [] \<and> endpoints_ok (group_servers gr)"
      using assms(1) unfolding config_ok_def by blast
    moreover have "weights_positive (group_servers gr)"
      using mem assms(2) unfolding config_weights_positive_def by blast
    ultimately have "selectable (group_servers gr)" by (simp add: endpoints_selectable)
    moreover have "group_source b (Some n) [] p
        = Inr (''named:'' @ n, group_policy gr, group_servers gr)"
      using gr assms(6) by (simp add: group_source_def)
    ultimately show ?thesis
      using select_group_url[of b "Some n" "[]" p] group assms(5,6) gr
      by (auto simp: proxy_urls_def configured_sources_def)
  next
    case inline
    then have "selectable es" using wp by (simp add: endpoints_selectable)
    moreover have "group_source b None es p = Inr (group_key p es, p, es)"
      by (simp add: group_source_def)
    ultimately show ?thesis
      using select_group_url[of b None es p] inline(1,2) assms(5,6)
      by (auto simp: proxy_urls_def configured_sources_def)
  qed
qed

definition sample_config :: config where
  "sample_config = (config_default None)\<lparr>
     http_servers := [\<lparr>server_name = None,
       locations = [\<lparr>matcher = Prefix ''/'',
         loc_action = Proxy None (Some ''app'') [] WeightedRoundRobin\<rparr>],
       listen = SocketV4 0 8080, ssl = None\<rparr>],
     upstreams := [(''app'', \<lparr>group_policy = RoundRobin, group_servers = sample_endpoints\<rparr>)]\<rparr>"

lemma sample_config_ok: "config_ok sample_config \<and> config_weights_positive sample_config"
proof -
  have "\<not> blank ''app''" "\<not> blank ''http://a''" "\<not> blank ''http://b''" by code_simp+
  then show ?thesis
    by (simp add: config_ok_def sample_config_def proxy_action_ok_def endpoints_ok_def total_weight_def
        sample_endpoints_def config_weights_positive_def weights_positive_def)
qed

text \<open>
  For a configuration that passed validation and whose weights are positive, every proxy
  action of every location always gets one of its configured URLs from a balancer over the
  configured groups, whatever the cursors: none of the balancer's errors is returned, and neither
  the division by the total weight, nor the unwrap, nor the index can panic.
\<close>

theorem select_total_on_valid_config:
  assumes "config_ok c" and "config_weights_positive c"
    and "s \<in> set (http_servers c)" and "l \<in> set (locations s)"
    and "loc_action l = Proxy u g es p" and "balancer_groups b = upstreams c"
  shows "\<exists>x \<in> proxy_urls c (loc_action l). fst (select (loc_action l) b) = Return (Inr x)
       \<and> balancer_groups (snd (select (loc_action l) b)) = upstreams c"
  using assms by (rule select_configured)

theorem select_total_on_valid_config_witness:
  "\<exists>x \<in> proxy_urls sample_config (Proxy None (Some ''app'') [] WeightedRoundRobin).
     fst (select (Proxy None (Some ''app'') [] WeightedRoundRobin) (with_groups (upstreams sample_config)))
       = Return (Inr x)"
proof -
  let ?l = "\<lparr>matcher = Prefix ''/'', loc_action = Proxy None (Some ''app'') [] WeightedRoundRobin\<rparr>"
  note ok = conjunct1[OF sample_config_ok] and wp = conjunct2[OF sample_config_ok]
  have mem: "hd (http_servers sample_config) \<in> set (http_servers sample_config)"
    "?l \<in> set (locations (hd (http_servers sample_config)))"
    by (simp_all add: sample_config_def)
  have "balancer_groups (with_groups (upstreams sample_config)) = upstreams sample_config"
    by (simp add: with_groups_def)
  from select_total_on_valid_config[OF ok wp mem _ this, of None "Some ''app''" "[]" WeightedRoundRobin]
  show ?thesis by auto
qed

section \<open>Cursor keys\<close>

lemma named_key_fresh: "''named:'' @ n \<noteq> group_key q es"
  by (cases q) (simp_all add: group_key_def policy_debug_def)

text \<open>
  Isolation: a selection from an action whose group resolves to another key leaves the
  cursor of a group unchanged, on every branch, also when the selection fails or panics.
\<close>

theorem select_isolated:
  assumes "\<forall>k p' es'. group_source b g es p = Inr (k, p', es') \<longrightarrow> key \<noteq> k"
  shows "cursors (snd (select (Proxy u g es p) b)) key = cursors b key"
  using assms
  by (auto simp: select_def Let_def split: option.splits sum.splits outcome.splits)

theorem select_isolated_witness:
  "cursors (snd (select (Proxy None None sample_endpoints RoundRobin) (with_groups [])))
     (''named:'' @ ''app'') = cursors (with_groups []) (''named:'' @ ''app'')"
proof (rule select_isolated, intro allI impI)
  fix k p' es'
  assume "group_source (with_groups []) None sample_endpoints RoundRobin = Inr (k, p', es')"
  then have "k = group_key RoundRobin sample_endpoints" by (simp add: group_source_def)
  then show "''named:'' @ ''app'' \<noteq> k" using named_key_fresh by metis
qed

text \<open>
  The key of an inline list does not determine the list: URLs are written into the key
  unescaped, so two different lists whose URLs contain the separators share one cursor.
\<close>

theorem group_key_collision:
  "\<exists>es es'. es \<noteq> es' \<and> selectable es \<and> selectable es' \<and> group_key RoundRobin es = group_key RoundRobin es'"
proof (intro exI conjI)
  let ?es = "[\<lparr>url = ''a#1|b'', weight = 1\<rparr>] :: upstream_endpoint list"
  let ?es' = "[\<lparr>url = ''a'', weight = 1\<rparr>, \<lparr>url = ''b'', weight = 1\<rparr>] :: upstream_endpoint list"
  show "?es \<noteq> ?es'" by simp
  show "selectable ?es" "selectable ?es'" by (simp_all add: selectable_def total_weight_def)
  show "group_key RoundRobin ?es = group_key RoundRobin ?es'" by code_simp
qed

end
