(* ===== verification/Http.thy ===== *)
theory Http
  imports Rust_Text
begin

text \<open>
  The HTTP/1.x request-head parser and the body framing of \<open>run/slave/src/http.rs\<close>. The lemmas
  give the syntax of what is accepted, that a complete parse does not change when more bytes
  arrive, a printer the parser inverts, and the exact meaning of \<open>body_length\<close>.
\<close>

section \<open>Data\<close>

definition MAX_REQUEST_HEAD_SIZE :: nat where
  "MAX_REQUEST_HEAD_SIZE = 16 * 1024"

datatype http_version = Http10 | Http11

record header =
  header_name :: bytes
  header_value :: bytes

record request_head =
  req_method :: bytes
  req_target :: bytes
  req_version :: http_version
  req_headers :: "header list"

datatype body_framing_error =
  InvalidContentLength | ConflictingContentLength | UnsupportedTransferEncoding

datatype request_head_parse = Incomplete | Complete request_head nat

datatype parse_error =
    HeadTooLarge nat
  | InvalidRequestLine
  | InvalidMethod
  | InvalidTarget
  | UnsupportedVersion
  | InvalidHeader
  | InvalidText

definition parse_error_fmt :: "parse_error \<Rightarrow> bytes" where
  "parse_error_fmt e = (case e of
     HeadTooLarge limit \<Rightarrow> ''request head exceeds '' @ dec limit @ '' bytes''
   | InvalidRequestLine \<Rightarrow> ''invalid HTTP request line''
   | InvalidMethod \<Rightarrow> ''invalid HTTP method''
   | InvalidTarget \<Rightarrow> ''invalid HTTP request target''
   | UnsupportedVersion \<Rightarrow> ''unsupported HTTP version''
   | InvalidHeader \<Rightarrow> ''invalid HTTP header''
   | InvalidText \<Rightarrow> ''HTTP request head is not valid text'')"

section \<open>Body framing\<close>

text \<open>The loop over the \<open>content-length\<close> headers, with the length seen so far.\<close>

fun content_length_loop :: "u64 option \<Rightarrow> header list \<Rightarrow> body_framing_error + u64 option" where
  "content_length_loop content_length [] = Inr content_length"
| "content_length_loop content_length (h # hs) =
     (if header_value h = [] \<or> \<not> list_all is_ascii_digit (header_value h)
      then Inl InvalidContentLength
      else (case parse_u64 (header_value h) of
              None \<Rightarrow> Inl InvalidContentLength
            | Some value \<Rightarrow>
                (case content_length of
                   Some previous \<Rightarrow>
                     if previous \<noteq> value then Inl ConflictingContentLength
                     else content_length_loop (Some value) hs
                 | None \<Rightarrow> content_length_loop (Some value) hs)))"

definition body_length :: "request_head \<Rightarrow> body_framing_error + u64" where
  "body_length r =
     (if list_ex (\<lambda>h. header_name h = ''transfer-encoding'') (req_headers r)
      then Inl UnsupportedTransferEncoding
      else (case content_length_loop None
                   (filter (\<lambda>h. header_name h = ''content-length'') (req_headers r)) of
              Inl e \<Rightarrow> Inl e
            | Inr content_length \<Rightarrow>
                Inr (case content_length of Some n \<Rightarrow> n | None \<Rightarrow> 0)))"

section \<open>Parsing\<close>

definition is_token :: "byte \<Rightarrow> bool" where
  "is_token c \<longleftrightarrow> is_ascii_alphanumeric c \<or> c \<in> set ''!#$%&'' \<or> c = CHR 0x27
     \<or> c \<in> set ''*+-.^_'' \<or> c = CHR 0x60 \<or> c \<in> set ''|~''"

definition find_head_end :: "bytes \<Rightarrow> nat option" where
  "find_head_end bs = position (\<lambda>window. window = crlf @ crlf) (windows 4 bs)"

definition parse_version :: "bytes \<Rightarrow> http_version option" where
  "parse_version v =
     (if v = ''HTTP/1.0'' then Some Http10 else if v = ''HTTP/1.1'' then Some Http11 else None)"

definition parse_request_line :: "bytes \<Rightarrow> parse_error + bytes \<times> bytes \<times> http_version" where
  "parse_request_line line = (case split_ascii_whitespace line of
     [method, target, version] \<Rightarrow>
       if \<not> list_all is_token method then Inl InvalidMethod
       else if target = [] \<or> list_ex is_ascii_control target then Inl InvalidTarget
       else (case parse_version version of
               None \<Rightarrow> Inl UnsupportedVersion
             | Some v \<Rightarrow> Inr (method, target, v))
   | _ \<Rightarrow> Inl InvalidRequestLine)"

definition is_blank_or_tab :: "byte \<Rightarrow> bool" where
  "is_blank_or_tab c \<longleftrightarrow> c = SP \<or> c = HT"

definition parse_header :: "bytes \<Rightarrow> parse_error + header" where
  "parse_header line = (case split_once (CHR '':'') line of
     None \<Rightarrow> Inl InvalidHeader
   | Some (name, value) \<Rightarrow>
       if name = [] \<or> \<not> list_all is_token name \<or> CR \<in> set value \<or> LF \<in> set value
       then Inl InvalidHeader
       else Inr \<lparr>header_name = to_ascii_lowercase name,
                 header_value = trim_matches is_blank_or_tab value\<rparr>)"

fun parse_headers :: "bytes list \<Rightarrow> parse_error + header list" where
  "parse_headers [] = Inr []"
| "parse_headers (line # lines) =
     (if line = [] then parse_headers lines
      else (case parse_header line of
              Inl e \<Rightarrow> Inl e
            | Inr h \<Rightarrow> (case parse_headers lines of Inl e \<Rightarrow> Inl e | Inr hs \<Rightarrow> Inr (h # hs))))"

definition parse_head_text :: "bytes \<Rightarrow> parse_error + request_head" where
  "parse_head_text text = (case split_crlf text of
     [] \<Rightarrow> Inl InvalidRequestLine
   | request_line # lines \<Rightarrow>
       (case parse_request_line request_line of
          Inl e \<Rightarrow> Inl e
        | Inr (method, target, version) \<Rightarrow>
            (case parse_headers lines of
               Inl e \<Rightarrow> Inl e
             | Inr headers \<Rightarrow>
                 Inr \<lparr>req_method = method, req_target = target, req_version = version,
                      req_headers = headers\<rparr>)))"

definition parse_request_head :: "bytes \<Rightarrow> parse_error + request_head_parse" where
  "parse_request_head bs = (case find_head_end bs of
     None \<Rightarrow>
       if length bs > MAX_REQUEST_HEAD_SIZE then Inl (HeadTooLarge MAX_REQUEST_HEAD_SIZE)
       else Inr Incomplete
   | Some head_end \<Rightarrow>
       if head_end > MAX_REQUEST_HEAD_SIZE then Inl (HeadTooLarge MAX_REQUEST_HEAD_SIZE)
       else (case from_utf8 (take head_end bs) of
               None \<Rightarrow> Inl InvalidText
             | Some text \<Rightarrow>
                 (case parse_head_text text of
                    Inl e \<Rightarrow> Inl e
                  | Inr request \<Rightarrow> Inr (Complete request (head_end + 4)))))"

section \<open>Tokens\<close>

lemma is_token_cases:
  assumes "is_token c"
  shows "is_ascii c" "\<not> is_ascii_control c" "\<not> is_ascii_whitespace c"
    "c \<noteq> CR" "c \<noteq> LF" "c \<noteq> SP" "c \<noteq> HT" "c \<noteq> CHR '':''"
  using assms by (auto simp: is_token_def ascii_simps)



section \<open>Where the head ends\<close>

lemma find_head_end_Some_iff:
  "find_head_end bs = Some n \<longleftrightarrow>
     n + 4 \<le> length bs \<and> take 4 (drop n bs) = crlf @ crlf
   \<and> (\<forall>m < n. take 4 (drop m bs) \<noteq> crlf @ crlf)"
proof -
  have "find_head_end bs = Some n \<longleftrightarrow> n < length bs + 1 - 4
      \<and> windows 4 bs ! n = crlf @ crlf \<and> (\<forall>m < n. windows 4 bs ! m \<noteq> crlf @ crlf)"
    by (simp add: find_head_end_def position_Some_iff)
  then show ?thesis by (auto simp: nth_windows)
qed

lemma find_head_end_None_iff:
  "find_head_end bs = None \<longleftrightarrow> (\<forall>m. take 4 (drop m bs) \<noteq> crlf @ crlf)"
proof
  assume none: "find_head_end bs = None"
  show "\<forall>m. take 4 (drop m bs) \<noteq> crlf @ crlf"
  proof (rule ccontr)
    assume "\<not> (\<forall>m. take 4 (drop m bs) \<noteq> crlf @ crlf)"
    then obtain m where m: "take 4 (drop m bs) = crlf @ crlf"
      "\<forall>k < m. take 4 (drop k bs) \<noteq> crlf @ crlf"
      using exists_least_iff[of "\<lambda>m. take 4 (drop m bs) = crlf @ crlf"] by blast
    have "length (take 4 (drop m bs)) = 4" by (simp only: m(1)) (simp add: crlf_def)
    then have "m + 4 \<le> length bs" by simp
    with m have "find_head_end bs = Some m" by (simp add: find_head_end_Some_iff)
    with none show False by simp
  qed
next
  assume "\<forall>m. take 4 (drop m bs) \<noteq> crlf @ crlf"
  then show "find_head_end bs = None"
    by (cases "find_head_end bs") (auto simp: find_head_end_Some_iff)
qed

lemma find_head_end_append:
  assumes "find_head_end bs = Some n"
  shows "find_head_end (bs @ rest) = Some n"
  using assms by (auto simp: find_head_end_Some_iff)

lemma find_head_end_prefix:
  assumes "find_head_end bs = Some n" and "n + 4 \<le> k"
  shows "find_head_end (take k bs) = Some n"
  using assms
  by (auto simp: find_head_end_Some_iff drop_take min_def intro: le_less_trans)

lemma find_head_end_short:
  assumes "find_head_end bs = Some n" and "k < n + 4"
  shows "find_head_end (take k bs) = None"
proof (rule ccontr)
  assume "find_head_end (take k bs) \<noteq> None"
  then obtain m where m: "find_head_end (take k bs) = Some m" by blast
  then have "find_head_end bs = Some m"
    using find_head_end_append[of "take k bs" m "drop k bs"] by simp
  with assms m show False by (auto simp: find_head_end_Some_iff)
qed

lemma find_head_end_Cons:
  assumes "take 4 (c # bs) \<noteq> crlf @ crlf"
  shows "find_head_end (c # bs) = map_option Suc (find_head_end bs)"
proof (cases "find_head_end bs")
  case None
  then have "take 4 (drop m (c # bs)) \<noteq> crlf @ crlf" for m
    using assms by (cases m) (auto simp: find_head_end_None_iff)
  then have "find_head_end (c # bs) = None" by (simp add: find_head_end_None_iff)
  with None show ?thesis by simp
next
  case (Some n)
  then have "\<forall>m < Suc n. take 4 (drop m (c # bs)) \<noteq> crlf @ crlf"
    using assms by (auto simp: find_head_end_Some_iff less_Suc_eq_0_disj)
  with Some have "find_head_end (c # bs) = Some (Suc n)"
    by (auto simp: find_head_end_Some_iff)
  with Some show ?thesis by simp
qed

lemma find_head_end_skip:
  "CR \<notin> set l \<Longrightarrow> find_head_end (l @ r) = map_option ((+) (length l)) (find_head_end r)"
proof (induction l)
  case Nil
  then show ?case by (cases "find_head_end r") simp_all
next
  case (Cons c l)
  have "take 4 (c # l @ r) \<noteq> crlf @ crlf" using Cons.prems by (auto simp: crlf_def)
  from find_head_end_Cons[OF this] Cons show ?case
    by (simp add: option.map_comp comp_def)
qed

lemma find_head_end_lines:
  assumes "CR \<notin> set rl" and "\<forall>l \<in> set ls. l \<noteq> [] \<and> CR \<notin> set l"
  shows "find_head_end (rl @ concat (map ((@) crlf) ls) @ crlf @ crlf @ body)
       = Some (length rl + length (concat (map ((@) crlf) ls)))"
  using assms
proof (induction ls arbitrary: rl)
  case Nil
  have "find_head_end (crlf @ crlf @ body) = Some 0"
    by (simp add: find_head_end_Some_iff crlf_def)
  with Nil show ?case by (simp add: find_head_end_skip)
next
  case (Cons l ls)
  let ?rest = "concat (map ((@) crlf) ls) @ crlf @ crlf @ body"
  obtain x xs where l: "l = x # xs" "x \<noteq> CR" using Cons.prems by (cases l) auto
  have "find_head_end (l @ ?rest) = Some (length l + length (concat (map ((@) crlf) ls)))"
    using Cons.IH[of l] Cons.prems by simp
  moreover have "find_head_end (crlf @ l @ ?rest) = map_option (\<lambda>n. n + 2) (find_head_end (l @ ?rest))"
  proof -
    have "take 4 (LF # l @ ?rest) \<noteq> crlf @ crlf" by (simp add: crlf_def)
    then have "find_head_end (LF # l @ ?rest) = map_option Suc (find_head_end (l @ ?rest))"
      by (rule find_head_end_Cons)
    moreover have "take 4 (CR # LF # l @ ?rest) \<noteq> crlf @ crlf"
      using l by (simp add: crlf_def numeral_eq_Suc)
    then have "find_head_end (CR # LF # l @ ?rest) = map_option Suc (find_head_end (LF # l @ ?rest))"
      by (rule find_head_end_Cons)
    ultimately show ?thesis by (simp add: crlf_def option.map_comp comp_def)
  qed
  ultimately show ?case
    using find_head_end_skip[OF Cons.prems(1), of "crlf @ l @ ?rest"] by simp
qed

lemma split_crlf_lines:
  assumes "CR \<notin> set rl" and "\<forall>l \<in> set ls. CR \<notin> set l"
  shows "split_crlf (rl @ concat (map ((@) crlf) ls)) = rl # ls"
  using assms
proof (induction ls arbitrary: rl)
  case Nil
  then show ?case by (simp add: split_crlf_clean)
next
  case (Cons l ls)
  then show ?case
    using split_crlf_line[OF Cons.prems(1), of "l @ concat (map ((@) crlf) ls)"] by simp
qed

section \<open>What the parser accepts\<close>

definition wf_header :: "header \<Rightarrow> bool" where
  "wf_header h \<longleftrightarrow> header_name h \<noteq> [] \<and> list_all is_token (header_name h)
     \<and> to_ascii_lowercase (header_name h) = header_name h
     \<and> CR \<notin> set (header_value h) \<and> LF \<notin> set (header_value h)
     \<and> trim_matches is_blank_or_tab (header_value h) = header_value h"

definition wf_request :: "request_head \<Rightarrow> bool" where
  "wf_request r \<longleftrightarrow> req_method r \<noteq> [] \<and> list_all is_token (req_method r)
     \<and> req_target r \<noteq> [] \<and> (\<forall>c \<in> set (req_target r). \<not> is_ascii_control c \<and> c \<noteq> SP)
     \<and> (\<forall>h \<in> set (req_headers r). wf_header h)"





lemma parse_request_head_Complete_iff:
  "parse_request_head bs = Inr (Complete r consumed) \<longleftrightarrow>
     (\<exists>n. find_head_end bs = Some n \<and> n \<le> MAX_REQUEST_HEAD_SIZE \<and> consumed = n + 4
        \<and> valid_utf8 (take n bs) \<and> parse_head_text (take n bs) = Inr r)"
  by (auto simp: parse_request_head_def from_utf8_def split: option.splits sum.splits if_splits)

lemma parse_request_head_Incomplete_iff:
  "parse_request_head bs = Inr Incomplete \<longleftrightarrow>
     find_head_end bs = None \<and> length bs \<le> MAX_REQUEST_HEAD_SIZE"
  by (auto simp: parse_request_head_def from_utf8_def split: option.splits sum.splits if_splits)

text \<open>Once the terminator is in the buffer, the result depends on the bytes before it only.\<close>

lemma parse_request_head_stable:
  assumes "find_head_end bs = Some n"
  shows "parse_request_head (bs @ rest) = parse_request_head bs"
proof -
  have "n \<le> length bs" using assms by (auto simp: find_head_end_Some_iff)
  with find_head_end_append[OF assms, of rest] assms show ?thesis
    by (simp add: parse_request_head_def)
qed

section \<open>Printing a request head\<close>

definition version_text :: "http_version \<Rightarrow> bytes" where
  "version_text v = (case v of Http10 \<Rightarrow> ''HTTP/1.0'' | Http11 \<Rightarrow> ''HTTP/1.1'')"

definition request_line :: "bytes \<Rightarrow> bytes \<Rightarrow> http_version \<Rightarrow> bytes" where
  "request_line m t v = m @ [SP] @ t @ [SP] @ version_text v"

definition header_line :: "bytes \<Rightarrow> bytes \<Rightarrow> bytes" where
  "header_line name value = name @ '': '' @ value"

definition print_head :: "bytes \<Rightarrow> bytes list \<Rightarrow> bytes" where
  "print_head rl ls = rl @ crlf @ concat (map (\<lambda>l. l @ crlf) ls) @ crlf"

definition print_request :: "request_head \<Rightarrow> bytes" where
  "print_request r = print_head (request_line (req_method r) (req_target r) (req_version r))
     (map (\<lambda>h. header_line (header_name h) (header_value h)) (req_headers r))"

lemma print_head_alt: "print_head rl ls = rl @ concat (map ((@) crlf) ls) @ crlf @ crlf"
proof -
  have "crlf @ concat (map (\<lambda>l. l @ crlf) ls) = concat (map ((@) crlf) ls) @ crlf"
    by (induction ls) auto
  then show ?thesis by (simp add: print_head_def)
qed

lemma length_print_head:
  "length (print_head rl ls) = length (rl @ concat (map ((@) crlf) ls)) + 4"
  by (simp add: print_head_alt)

text \<open>A printed head ends at its own blank line, whatever follows it.\<close>

lemma print_head_frame:
  assumes "CR \<notin> set rl" and "\<forall>l \<in> set ls. l \<noteq> [] \<and> CR \<notin> set l"
  obtains n where "find_head_end (print_head rl ls @ body) = Some n"
    and "n + 4 = length (print_head rl ls)"
    and "drop (n + 4) (print_head rl ls @ body) = body"
    and "take n (print_head rl ls @ body) = rl @ concat (map ((@) crlf) ls)"
    and "split_crlf (take n (print_head rl ls @ body)) = rl # ls"
proof -
  define hd_text where "hd_text = rl @ concat (map ((@) crlf) ls)"
  have ph: "print_head rl ls @ body = hd_text @ (crlf @ crlf @ body)"
    by (simp add: print_head_alt hd_text_def)
  have "find_head_end (hd_text @ (crlf @ crlf @ body)) = Some (length hd_text)"
    using find_head_end_lines[OF assms, of body] by (simp add: hd_text_def)
  moreover have "length hd_text + 4 = length (print_head rl ls)"
    by (simp add: length_print_head hd_text_def)
  moreover have "drop (length hd_text + 4) (hd_text @ (crlf @ crlf @ body)) = body"
    by (simp add: crlf_def)
  moreover have "split_crlf hd_text = rl # ls"
    unfolding hd_text_def using assms by (intro split_crlf_lines) auto
  ultimately show thesis
    using that[of "length hd_text"] unfolding ph by (simp add: hd_text_def)
qed

lemma parse_version_text [simp]: "parse_version (version_text v) = Some v"
  by (cases v) (simp_all add: parse_version_def version_text_def)

lemma version_text_chars:
  "version_text v \<noteq> [] \<and> (\<forall>c \<in> set (version_text v). \<not> is_ascii_whitespace c \<and> is_ascii c \<and> c \<noteq> CR)"
  by (cases v) (auto simp: version_text_def ascii_simps)

lemma split_ascii_whitespace_three:
  assumes "a \<noteq> []" "b \<noteq> []" "c \<noteq> []"
    and "\<forall>x \<in> set a \<union> set b \<union> set c. \<not> is_ascii_whitespace x"
  shows "split_ascii_whitespace (a @ [SP] @ b @ [SP] @ c) = [a, b, c]"
proof -
  have sp: "is_ascii_whitespace SP" by (simp add: ascii_simps)
  have "split_on is_ascii_whitespace (a @ SP # (b @ SP # c)) = [a, b, c]"
    using assms(4) sp by (simp add: split_on_sep split_on_clean)
  with assms(1-3) show ?thesis by (simp add: split_ascii_whitespace_def)
qed

lemma not_whitespace_if_not_control:
  "\<not> is_ascii_control c \<Longrightarrow> c \<noteq> SP \<Longrightarrow> \<not> is_ascii_whitespace c"
  by (auto simp: ascii_simps char_eq_iff_bv)

lemma parse_request_line_print:
  assumes "m \<noteq> []" "list_all is_token m" "t \<noteq> []"
    and "\<forall>c \<in> set t. \<not> is_ascii_control c \<and> c \<noteq> SP"
  shows "parse_request_line (request_line m t v) = Inr (m, t, v)"
proof -
  have "\<forall>x \<in> set m. \<not> is_ascii_whitespace x"
    using assms(2) is_token_cases(3) by (auto simp: list_all_iff)
  moreover have "\<forall>x \<in> set t. \<not> is_ascii_whitespace x"
    using assms(4) not_whitespace_if_not_control by blast
  ultimately have "split_ascii_whitespace (request_line m t v) = [m, t, version_text v]"
    unfolding request_line_def using assms(1,3) version_text_chars[of v]
    by (intro split_ascii_whitespace_three) auto
  with assms show ?thesis
    by (auto simp: parse_request_line_def list_ex_iff)
qed

lemma parse_header_print:
  assumes "name \<noteq> []" "list_all is_token name" "CR \<notin> set value" "LF \<notin> set value"
    and "trim_matches is_blank_or_tab value = value"
  shows "parse_header (header_line name value)
       = Inr \<lparr>header_name = to_ascii_lowercase name, header_value = value\<rparr>"
proof -
  have "CHR '':'' \<notin> set name" using assms(2) is_token_cases(8) by (auto simp: list_all_iff)
  then have "split_once (CHR '':'') (header_line name value) = Some (name, SP # value)"
    by (simp add: split_once_Some_iff header_line_def)
  moreover have "trim_matches is_blank_or_tab (SP # value) = value"
    using assms(5) by (simp add: trim_matches_def is_blank_or_tab_def)
  ultimately show ?thesis using assms by (simp add: parse_header_def)
qed

lemma parse_headers_print:
  assumes "\<forall>l \<in> set ls. l \<noteq> []" and "list_all2 (\<lambda>l h. parse_header l = Inr h) ls hs"
  shows "parse_headers ls = Inr hs"
  using assms(2,1) by (induction rule: list_all2_induct) auto

text \<open>
  A printed head with clean lines is parsed completely, whatever follows it: the general form of
  the round trip, also used for the request the proxy writes to its upstream.
\<close>

lemma parse_print_head:
  assumes rl: "CR \<notin> set rl" "valid_utf8 rl" "parse_request_line rl = Inr (m, t, v)"
    and ls: "\<forall>l \<in> set ls. l \<noteq> [] \<and> CR \<notin> set l \<and> valid_utf8 l"
    and hs: "list_all2 (\<lambda>l h. parse_header l = Inr h) ls hs"
    and len: "length (print_head rl ls) \<le> MAX_REQUEST_HEAD_SIZE + 4"
  shows "parse_request_head (print_head rl ls @ body)
       = Inr (Complete \<lparr>req_method = m, req_target = t, req_version = v, req_headers = hs\<rparr>
                (length (print_head rl ls)))"
proof -
  obtain n where fe: "find_head_end (print_head rl ls @ body) = Some n"
    and n: "n + 4 = length (print_head rl ls)"
    and tk: "take n (print_head rl ls @ body) = rl @ concat (map ((@) crlf) ls)"
    and sp: "split_crlf (take n (print_head rl ls @ body)) = rl # ls"
    using print_head_frame[of rl ls body] rl(1) ls by metis
  have crlf_ok: "valid_utf8 crlf" by (simp add: valid_utf8_ascii crlf_def ascii_simps)
  have "valid_utf8 (concat (map ((@) crlf) ls))"
    using ls crlf_ok by (induction ls) (auto intro!: valid_utf8_append)
  with rl(2) have utf: "valid_utf8 (take n (print_head rl ls @ body))"
    unfolding tk by (rule valid_utf8_append)
  from sp rl(3) parse_headers_print[OF _ hs] ls
  have "parse_head_text (take n (print_head rl ls @ body))
      = Inr \<lparr>req_method = m, req_target = t, req_version = v, req_headers = hs\<rparr>"
    by (simp add: parse_head_text_def)
  with fe n utf len show ?thesis
    by (simp add: parse_request_head_def from_utf8_def)
qed

section \<open>Properties of the parser\<close>

definition utf8_request :: "request_head \<Rightarrow> bool" where
  "utf8_request r \<longleftrightarrow> valid_utf8 (req_target r) \<and> (\<forall>h \<in> set (req_headers r). valid_utf8 (header_value h))"

lemma tokens_clean:
  assumes "list_all is_token s"
  shows "CR \<notin> set s" "LF \<notin> set s" "valid_utf8 s"
  using assms is_token_cases(1,4,5) by (auto simp: list_all_iff intro: valid_utf8_ascii)

lemma request_line_clean:
  assumes "list_all is_token m" "\<forall>c \<in> set t. \<not> is_ascii_control c \<and> c \<noteq> SP" "valid_utf8 t"
  shows "CR \<notin> set (request_line m t v)" "valid_utf8 (request_line m t v)"
proof -
  have "is_ascii_control CR" by (simp add: ascii_simps)
  with assms(2) tokens_clean(1)[OF assms(1)] version_text_chars[of v]
  show "CR \<notin> set (request_line m t v)"
    by (auto simp: request_line_def)
  have "valid_utf8 (version_text v)"
    using version_text_chars[of v] by (intro valid_utf8_ascii) (auto simp: list_all_iff)
  moreover have "is_ascii SP" by (simp add: is_ascii_def)
  ultimately show "valid_utf8 (request_line m t v)"
    using assms(3) tokens_clean(3)[OF assms(1)]
    by (simp add: request_line_def valid_utf8_append)
qed

lemma header_line_clean:
  assumes "list_all is_token n" "CR \<notin> set v" "valid_utf8 v"
  shows "header_line n v \<noteq> []" "CR \<notin> set (header_line n v)" "valid_utf8 (header_line n v)"
  using assms tokens_clean[OF assms(1)]
  by (auto simp: header_line_def ascii_simps intro!: valid_utf8_append)

lemma print_request_lines:
  assumes "\<forall>h \<in> set hs. wf_header h \<and> valid_utf8 (header_value h)"
  shows "\<forall>l \<in> set (map (\<lambda>h. header_line (header_name h) (header_value h)) hs).
           l \<noteq> [] \<and> CR \<notin> set l \<and> valid_utf8 l"
    and "list_all2 (\<lambda>l h. parse_header l = Inr h)
           (map (\<lambda>h. header_line (header_name h) (header_value h)) hs) hs"
  using assms header_line_clean
  by (auto simp: wf_header_def list_all2_conv_all_nth parse_header_print)

text \<open>
  C3. Round trip: a well-formed request head that fits the size limit, printed in HTTP/1 syntax
  and followed by any body bytes, is parsed back to itself, and the parser reports exactly the
  length of the head.
\<close>

theorem parse_print_request:
  assumes "wf_request r" and "utf8_request r"
    and "length (print_request r) \<le> MAX_REQUEST_HEAD_SIZE + 4"
  shows "parse_request_head (print_request r @ body)
       = Inr (Complete r (length (print_request r)))"
proof -
  note wf = assms(1)[unfolded wf_request_def] assms(2)[unfolded utf8_request_def]
  let ?rl = "request_line (req_method r) (req_target r) (req_version r)"
  have "parse_request_line ?rl = Inr (req_method r, req_target r, req_version r)"
    using wf by (intro parse_request_line_print) auto
  with parse_print_head[of ?rl "req_method r" "req_target r" "req_version r"
      "map (\<lambda>h. header_line (header_name h) (header_value h)) (req_headers r)" "req_headers r" body]
  show ?thesis
    using request_line_clean[of "req_method r" "req_target r" "req_version r"]
      print_request_lines[of "req_headers r"] wf assms(3)
    by (simp add: print_request_def)
qed

definition sample_request :: request_head where
  "sample_request = \<lparr>req_method = ''GET'', req_target = ''/a'', req_version = Http11,
     req_headers = [\<lparr>header_name = ''host'', header_value = ''x''\<rparr>]\<rparr>"

lemma sample_request_ok:
  "wf_request sample_request" "utf8_request sample_request"
  "length (print_request sample_request) \<le> MAX_REQUEST_HEAD_SIZE + 4"
  by (simp_all add: sample_request_def wf_request_def wf_header_def utf8_request_def is_token_def
      ascii_simps to_ascii_lowercase_def trim_matches_def is_blank_or_tab_def print_request_def
      print_head_def request_line_def header_line_def version_text_def MAX_REQUEST_HEAD_SIZE_def
      crlf_def)

theorem parse_print_request_witness:
  "wf_request sample_request \<and> utf8_request sample_request
   \<and> parse_request_head (print_request sample_request @ ''body'')
       = Inr (Complete sample_request (length (print_request sample_request)))"
  using parse_print_request[OF sample_request_ok, of "''body''"] sample_request_ok by simp



text \<open>
  Fragmentation: a request head whose blank line ends within the size limit (plus one byte)
  is recognised at the same point however the bytes arrive: every shorter prefix of the stream is
  reported as incomplete and every longer one yields the same request and length.
\<close>

theorem parse_request_head_fragmented:
  assumes "parse_request_head bs = Inr (Complete r consumed)"
    and "consumed \<le> MAX_REQUEST_HEAD_SIZE + 1"
  shows "parse_request_head (take k (bs @ rest))
       = (if k < consumed then Inr Incomplete else Inr (Complete r consumed))"
proof -
  from assms(1) obtain n where n: "find_head_end bs = Some n" "consumed = n + 4"
    by (auto simp: parse_request_head_Complete_iff)
  have fe: "find_head_end (bs @ rest) = Some n" using n(1) by (rule find_head_end_append)
  show ?thesis
  proof (cases "k < consumed")
    case True
    then have "find_head_end (take k (bs @ rest)) = None"
      using find_head_end_short[OF fe] n(2) by simp
    with True assms(2) show ?thesis by (auto simp: parse_request_head_Incomplete_iff)
  next
    case False
    then have "find_head_end (take k (bs @ rest)) = Some n"
      using n(2) by (intro find_head_end_prefix[OF fe]) simp
    from parse_request_head_stable[OF this, of "drop k (bs @ rest)"]
    have "parse_request_head (take k (bs @ rest)) = parse_request_head (bs @ rest)"
      by (simp only: append_take_drop_id)
    with parse_request_head_stable[OF n(1), of rest] assms(1) False show ?thesis by simp
  qed
qed

theorem parse_request_head_fragmented_witness:
  "parse_request_head (take 17 ((''GET / HTTP/1.1'' @ crlf @ crlf) @ ''xyz'')) = Inr Incomplete
 \<and> parse_request_head (take 20 ((''GET / HTTP/1.1'' @ crlf @ crlf) @ ''xyz''))
     = Inr (Complete \<lparr>req_method = ''GET'', req_target = ''/'', req_version = Http11,
                      req_headers = []\<rparr> 18)"
proof -
  have p: "parse_request_head (''GET / HTTP/1.1'' @ crlf @ crlf)
      = Inr (Complete \<lparr>req_method = ''GET'', req_target = ''/'', req_version = Http11,
               req_headers = []\<rparr> 18)"
    by code_simp
  have m: "(18::nat) \<le> MAX_REQUEST_HEAD_SIZE + 1" by (simp add: MAX_REQUEST_HEAD_SIZE_def)
  show ?thesis
    using parse_request_head_fragmented[OF p m, of 17 "''xyz''"]
      parse_request_head_fragmented[OF p m, of 20 "''xyz''"] by simp
qed

text \<open>
  C33. The limit is fragmentation-dependent at its edge: there is a request that is accepted when
  its last byte arrives together with the rest, and rejected as too large when the parser runs
  on the same bytes one byte earlier.
\<close>

theorem head_limit_depends_on_fragmentation:
  "\<exists>bs r consumed. parse_request_head (bs @ [LF]) = Inr (Complete r consumed)
     \<and> parse_request_head bs = Inl (HeadTooLarge MAX_REQUEST_HEAD_SIZE)"
proof -
  let ?rl = "request_line ''GET'' ''/'' Http11" and ?v = "replicate 16363 (CHR ''a'')"
  let ?l = "header_line ''x'' ?v"
  let ?all = "print_head ?rl [?l]"
  let ?bs = "?rl @ crlf @ ?l @ [CR, LF, CR]"
  have v: "CR \<notin> set ?v" "LF \<notin> set ?v" "valid_utf8 ?v"
    by (auto simp: list_all_iff ascii_simps intro!: valid_utf8_ascii)
  have tok: "list_all is_token ''GET''" "list_all is_token ''x''"
    by (simp_all add: is_token_def ascii_simps)
  have trim: "trim_matches is_blank_or_tab ?v = ?v"
    by (rule trim_matches_id) (simp add: is_blank_or_tab_def)
  have slash: "\<forall>c \<in> set ''/''. \<not> is_ascii_control c \<and> c \<noteq> SP" "valid_utf8 ''/''"
    by (simp_all add: ascii_simps)
  have len: "length ?all = 16386"
    by (simp add: print_head_def request_line_def header_line_def version_text_def crlf_def)
  have all: "?all = ?bs @ [LF]" by (simp add: print_head_def crlf_def)
  have "parse_request_head (?all @ []) = Inr (Complete
      \<lparr>req_method = ''GET'', req_target = ''/'', req_version = Http11,
       req_headers = [\<lparr>header_name = to_ascii_lowercase ''x'', header_value = ?v\<rparr>]\<rparr> (length ?all))"
    using parse_request_line_print[OF _ tok(1) _ slash(1), of Http11]
      request_line_clean[OF tok(1) slash, of Http11]
      header_line_clean[OF tok(2) v(1,3)] parse_header_print[OF _ tok(2) v(1,2) trim] len
    by (intro parse_print_head) (simp_all add: MAX_REQUEST_HEAD_SIZE_def)
  then have ok: "parse_request_head (?bs @ [LF]) = Inr (Complete
      \<lparr>req_method = ''GET'', req_target = ''/'', req_version = Http11,
       req_headers = [\<lparr>header_name = to_ascii_lowercase ''x'', header_value = ?v\<rparr>]\<rparr> 16386)"
    using len by (simp only: all append_Nil2)
  then obtain n where n: "find_head_end (?bs @ [LF]) = Some n" "n + 4 = 16386"
    by (auto simp: parse_request_head_Complete_iff)
  have lbs: "length ?bs = 16385" using len by (simp only: all length_append) simp
  then have "take 16385 (?bs @ [LF]) = ?bs" by (rule take_length_append)
  moreover have "find_head_end (take 16385 (?bs @ [LF])) = None"
    using n(2) by (intro find_head_end_short[OF n(1)]) simp
  ultimately have "find_head_end ?bs = None" by (simp only:)
  with lbs have "parse_request_head ?bs = Inl (HeadTooLarge MAX_REQUEST_HEAD_SIZE)"
    by (simp add: parse_request_head_def MAX_REQUEST_HEAD_SIZE_def)
  with ok show ?thesis by blast
qed

section \<open>Properties of the body framing\<close>

lemma content_length_loop_Inr_iff:
  "content_length_loop p hs = Inr q \<longleftrightarrow>
     (if hs = [] then q = p
      else \<exists>n. q = Some n \<and> (p = None \<or> p = Some n)
         \<and> (\<forall>h \<in> set hs. header_value h \<noteq> [] \<and> list_all is_ascii_digit (header_value h)
              \<and> digits_value (header_value h) = unat n))"
proof (induction hs arbitrary: p)
  case Nil
  then show ?case by auto
next
  case (Cons h hs)
  have parse: "parse_u64 (header_value h) = Some v \<longleftrightarrow> digits_value (header_value h) = unat v"
    if "header_value h \<noteq> []" "list_all is_ascii_digit (header_value h)" for v
    using parse_u64_plain[OF that] unat_bound[of v]
    by (auto simp: unat_of_nat_small word_unat_eq_iff)
  show ?case
  proof (cases "header_value h \<noteq> [] \<and> list_all is_ascii_digit (header_value h)")
    case ok: True
    show ?thesis
    proof (cases "parse_u64 (header_value h)")
      case None
      with ok parse show ?thesis by auto
    next
      case (Some v)
      with ok parse have "digits_value (header_value h) = unat v" by blast
      with ok Some Cons.IH[of "Some v"] show ?thesis
        by (cases p; cases "hs = []") (auto simp: word_unat_eq_iff)
    qed
  next
    case False
    then show ?thesis by auto
  qed
qed

lemma content_length_loop_not_None:
  "hs \<noteq> [] \<Longrightarrow> content_length_loop p hs = Inr q \<Longrightarrow> \<exists>n. q = Some n"
  by (auto simp: content_length_loop_Inr_iff)

text \<open>
  C30. \<open>body_length\<close> succeeds with \<open>n\<close> exactly when there is no Transfer-Encoding header, every
  Content-Length header is a non-empty string of digits denoting \<open>n\<close> (so repeated headers agree
  and \<open>n\<close> fits a 64-bit \<open>usize\<close>), and \<open>n\<close> is 0 when there is no such header.
\<close>

theorem body_length_iff:
  "body_length r = Inr n \<longleftrightarrow>
     (\<forall>h \<in> set (req_headers r). header_name h \<noteq> ''transfer-encoding'')
   \<and> (\<forall>h \<in> set (req_headers r). header_name h = ''content-length'' \<longrightarrow>
        header_value h \<noteq> [] \<and> list_all is_ascii_digit (header_value h)
      \<and> digits_value (header_value h) = unat n)
   \<and> ((\<forall>h \<in> set (req_headers r). header_name h \<noteq> ''content-length'') \<longrightarrow> n = 0)"
proof (cases "list_ex (\<lambda>h. header_name h = ''transfer-encoding'') (req_headers r)")
  case True
  then show ?thesis by (auto simp: body_length_def list_ex_iff)
next
  case False
  let ?cl = "filter (\<lambda>h. header_name h = ''content-length'') (req_headers r)"
  have "body_length r = Inr n \<longleftrightarrow> (\<exists>q. content_length_loop None ?cl = Inr q
      \<and> n = (case q of Some n \<Rightarrow> n | None \<Rightarrow> 0))"
    using False by (auto simp: body_length_def split: sum.splits)
  also have "\<dots> \<longleftrightarrow> (if ?cl = [] then n = 0
      else (\<forall>h \<in> set ?cl. header_value h \<noteq> [] \<and> list_all is_ascii_digit (header_value h)
              \<and> digits_value (header_value h) = unat n))"
  proof (cases "?cl = []")
    case True
    then show ?thesis by simp
  next
    case ne: False
    then have "(\<exists>q. content_length_loop None ?cl = Inr q \<and> n = (case q of Some n \<Rightarrow> n | None \<Rightarrow> 0))
        \<longleftrightarrow> content_length_loop None ?cl = Inr (Some n)"
      using content_length_loop_not_None[of ?cl None] by (cases "content_length_loop None ?cl") auto
    with ne show ?thesis by (simp add: content_length_loop_Inr_iff)
  qed
  finally have main: "body_length r = Inr n \<longleftrightarrow> (if ?cl = [] then n = 0
      else (\<forall>h \<in> set ?cl. header_value h \<noteq> [] \<and> list_all is_ascii_digit (header_value h)
              \<and> digits_value (header_value h) = unat n))" .
  have nil: "?cl = [] \<longleftrightarrow> (\<forall>h \<in> set (req_headers r). header_name h \<noteq> ''content-length'')"
    by (simp add: filter_empty_conv)
  have te: "\<forall>h \<in> set (req_headers r). header_name h \<noteq> ''transfer-encoding''"
    using False by (simp add: list_ex_iff)
  show ?thesis
  proof (cases "?cl = []")
    case True
    then show ?thesis unfolding main using nil te by auto
  next
    case ne: False
    then show ?thesis unfolding main using nil te by auto
  qed
qed

theorem body_length_iff_witness:
  "body_length \<lparr>req_method = ''PUT'', req_target = ''/'', req_version = Http11,
      req_headers = [\<lparr>header_name = ''content-length'', header_value = ''007''\<rparr>]\<rparr> = Inr 7"
  unfolding body_length_iff
  by (simp add: is_ascii_digit_def digits_value_def)

end
