(* ===== verification/Upstream_Proxy.thy ===== *)
theory Upstream_Proxy
  imports Http
begin

text \<open>
  The upstream side of a proxied request, \<open>run/slave/src/proxy.rs\<close>: parsing an upstream URL and
  rewriting a parsed request for it. The lemmas show that the bytes sent upstream are parsed by
  the program's own parser as exactly the intended request, so that no client header or target
  can inject a line into it, and when the framing of the body survives the rewriting.
\<close>

section \<open>Upstream URLs\<close>

record upstream_url =
  authority :: bytes
  connect_address :: bytes
  base_path :: bytes

datatype upstream_error = UnsupportedScheme | MissingHost | InvalidAuthority

definition upstream_error_fmt :: "upstream_error \<Rightarrow> bytes" where
  "upstream_error_fmt e = (case e of
     UnsupportedScheme \<Rightarrow> ''only http upstreams are supported''
   | MissingHost \<Rightarrow> ''upstream URL has no host''
   | InvalidAuthority \<Rightarrow> ''upstream URL has an invalid authority'')"

definition parse_connect_address :: "bytes \<Rightarrow> upstream_error + bytes" where
  "parse_connect_address auth =
     (if prefix ''['' auth then
        (case position (\<lambda>c. c = CHR '']'') auth of
           None \<Rightarrow> Inl InvalidAuthority
         | Some closing \<Rightarrow>
             if closing + 1 = length auth then Inr (auth @ '':80'')
             else if get auth (closing + 1) = Some (CHR '':'') then Inr auth
             else Inl InvalidAuthority)
      else if CHR '':'' \<in> set auth then Inr auth
      else Inr (auth @ '':80''))"

definition parse :: "bytes \<Rightarrow> upstream_error + upstream_url" where
  "parse u = (case strip_prefix ''http://'' u of
     None \<Rightarrow> Inl UnsupportedScheme
   | Some remainder \<Rightarrow>
       let (auth, base) = (case split_once (CHR ''/'') remainder of
             None \<Rightarrow> (remainder, [])
           | Some (a, path) \<Rightarrow> (a, ''/'' @ path))
       in if auth = [] then Inl MissingHost
          else if CHR ''@'' \<in> set auth \<or> CHR ''?'' \<in> set auth \<or> CHR ''#'' \<in> set auth
          then Inl InvalidAuthority
          else (case parse_connect_address auth of
                  Inl e \<Rightarrow> Inl e
                | Inr addr \<Rightarrow> Inr \<lparr>authority = auth, connect_address = addr, base_path = base\<rparr>))"

section \<open>Rewriting a request\<close>

definition connection_headers :: "request_head \<Rightarrow> bytes list" where
  "connection_headers r = map (\<lambda>name. to_ascii_lowercase (trim name))
     (concat (map (\<lambda>h. split_on (\<lambda>c. c = CHR '','') (header_value h))
        (filter (\<lambda>h. header_name h = ''connection'') (req_headers r))))"

definition hop_by_hop :: "bytes \<Rightarrow> bool" where
  "hop_by_hop name \<longleftrightarrow> name \<in> {''host'', ''connection'', ''proxy-connection'', ''keep-alive'',
     ''transfer-encoding'', ''upgrade''}"

definition upstream_target :: "upstream_url \<Rightarrow> bytes \<Rightarrow> bytes" where
  "upstream_target u target =
     (if base_path u = [] then target
      else trim_end_matches (\<lambda>c. c = CHR ''/'') (base_path u) @ target)"

definition forward_header :: "request_head \<Rightarrow> header \<Rightarrow> bytes" where
  "forward_header r h =
     (if hop_by_hop (header_name h) \<or> header_name h \<in> set (connection_headers r) then []
      else header_name h @ '': '' @ header_value h @ crlf)"

definition request_bytes :: "upstream_url \<Rightarrow> request_head \<Rightarrow> bytes \<Rightarrow> bytes" where
  "request_bytes u r body =
     req_method r @ '' '' @ upstream_target u (req_target r) @ '' HTTP/1.1'' @ crlf
   @ ''Host: '' @ authority u @ crlf
   @ concat (map (forward_header r) (req_headers r))
   @ ''Connection: close'' @ crlf @ crlf @ body"

section \<open>Properties of upstream URLs\<close>

definition authority_ok :: "bytes \<Rightarrow> bool" where
  "authority_ok a \<longleftrightarrow> a \<noteq> [] \<and> (\<forall>c \<in> set a. c \<notin> {CHR ''/'', CHR ''@'', CHR ''?'', CHR ''#''})"

lemma parse_connect_address_cases:
  assumes "parse_connect_address a = Inr addr"
  shows "addr = a \<or> addr = a @ '':80''" "CHR '':'' \<in> set addr"
proof -
  show "addr = a \<or> addr = a @ '':80''"
    using assms by (auto simp: parse_connect_address_def split: if_splits option.splits)
  show "CHR '':'' \<in> set addr"
    using assms nth_mem
    by (fastforce simp: parse_connect_address_def split: if_splits option.splits)
qed

text \<open>
  An accepted upstream URL is exactly \<open>http://\<close>, a non-empty authority free of \<open>/ @ ? #\<close>, and
  a base path that is empty or starts with a slash; the address to connect to is the authority,
  completed with port 80 when it has no port, and always contains a colon.
\<close>

theorem upstream_parse_iff:
  "parse s = Inr u \<longleftrightarrow>
     s = ''http://'' @ authority u @ base_path u \<and> authority_ok (authority u)
   \<and> (base_path u = [] \<or> prefix ''/'' (base_path u))
   \<and> parse_connect_address (authority u) = Inr (connect_address u)"
proof
  assume "parse s = Inr u"
  then obtain rest where s: "s = ''http://'' @ rest"
    and p: "parse (''http://'' @ rest) = Inr u"
    by (cases "strip_prefix ''http://'' s") (auto simp: parse_def strip_prefix_Some_iff)
  from p show "s = ''http://'' @ authority u @ base_path u \<and> authority_ok (authority u)
     \<and> (base_path u = [] \<or> prefix ''/'' (base_path u))
     \<and> parse_connect_address (authority u) = Inr (connect_address u)"
    unfolding s
    by (cases "split_once (CHR ''/'') rest")
       (auto simp: parse_def authority_ok_def split_once_Some_iff split_once_None_iff
         split: if_splits sum.splits)
next
  assume r: "s = ''http://'' @ authority u @ base_path u \<and> authority_ok (authority u)
     \<and> (base_path u = [] \<or> prefix ''/'' (base_path u))
     \<and> parse_connect_address (authority u) = Inr (connect_address u)"
  have "split_once (CHR ''/'') (authority u @ base_path u) =
      (if base_path u = [] then None else Some (authority u, tl (base_path u)))"
    using r by (cases "base_path u")
      (auto simp: split_once_Some_iff split_once_None_iff authority_ok_def)
  moreover have "base_path u \<noteq> [] \<Longrightarrow> CHR ''/'' # tl (base_path u) = base_path u"
    using r by (cases "base_path u") auto
  ultimately show "parse s = Inr u"
    using r by (cases "base_path u = []") (auto simp: parse_def authority_ok_def)
qed

section \<open>Properties of the forwarded request\<close>

text \<open>An upstream whose authority and base path are printable ASCII, as URLs are.\<close>

definition url_char :: "byte \<Rightarrow> bool" where
  "url_char c \<longleftrightarrow> is_ascii c \<and> \<not> is_ascii_control c \<and> c \<noteq> SP"

definition upstream_printable :: "upstream_url \<Rightarrow> bool" where
  "upstream_printable u \<longleftrightarrow> list_all url_char (authority u) \<and> list_all url_char (base_path u)"

definition kept_headers :: "request_head \<Rightarrow> header list" where
  "kept_headers r = filter (\<lambda>h. header_name h \<notin> {''host'', ''connection'', ''proxy-connection'', ''keep-alive'',
       ''transfer-encoding'', ''upgrade''}
     \<and> header_name h \<notin> set (connection_headers r)) (req_headers r)"

definition forwarded_request :: "upstream_url \<Rightarrow> request_head \<Rightarrow> request_head" where
  "forwarded_request u r = \<lparr>req_method = req_method r,
     req_target = upstream_target u (req_target r), req_version = Http11,
     req_headers = [\<lparr>header_name = ''host'', header_value = authority u\<rparr>] @ kept_headers r
       @ [\<lparr>header_name = ''connection'', header_value = ''close''\<rparr>]\<rparr>"

definition forwarded_lines :: "upstream_url \<Rightarrow> request_head \<Rightarrow> bytes list" where
  "forwarded_lines u r = [header_line ''Host'' (authority u)]
     @ map (\<lambda>h. header_line (header_name h) (header_value h)) (kept_headers r)
     @ [header_line ''Connection'' ''close'']"

lemma forward_headers_lines:
  "concat (map (forward_header r) hs) =
     concat (map (\<lambda>h. header_line (header_name h) (header_value h) @ crlf)
       (filter (\<lambda>h. header_name h \<notin> {''host'', ''connection'', ''proxy-connection'', ''keep-alive'',
           ''transfer-encoding'', ''upgrade''} \<and> header_name h \<notin> set (connection_headers r)) hs))"
  by (induction hs) (auto simp: forward_header_def header_line_def hop_by_hop_def)

lemma request_bytes_head:
  "request_bytes u r body =
     print_head (request_line (req_method r) (upstream_target u (req_target r)) Http11)
       (forwarded_lines u r) @ body"
  unfolding request_bytes_def print_head_def forwarded_lines_def forward_headers_lines
  by (simp add: request_line_def header_line_def version_text_def kept_headers_def comp_def)

lemma trim_end_matches_subset: "set (trim_end_matches p s) \<subseteq> set s"
  using set_dropWhileD[of _ p "rev s"] by (auto simp: trim_end_matches_def)

lemma not_url_char: "\<not> url_char CR" "\<not> url_char LF" "is_blank_or_tab c \<Longrightarrow> \<not> url_char c"
  by (auto simp: url_char_def ascii_simps is_blank_or_tab_def)

lemma url_chars_clean:
  assumes "list_all url_char s"
  shows "CR \<notin> set s" "LF \<notin> set s" "valid_utf8 s" "trim_matches is_blank_or_tab s = s"
proof -
  show "CR \<notin> set s" "LF \<notin> set s"
    using assms not_url_char(1,2) by (metis list_all_iff)+
  show "valid_utf8 s"
    by (rule valid_utf8_ascii) (use assms in \<open>simp add: list_all_iff url_char_def\<close>)
  have "\<not> is_blank_or_tab c" if "c \<in> set s" for c
    using assms that not_url_char(3) by (metis list_all_iff)
  then show "trim_matches is_blank_or_tab s = s"
    by (intro trim_matches_id) (metis hd_in_set last_in_set)
qed

lemma upstream_target_clean:
  assumes "list_all url_char (base_path u)" "t \<noteq> []" "valid_utf8 t"
    and "\<forall>c \<in> set t. \<not> is_ascii_control c \<and> c \<noteq> SP"
  shows "upstream_target u t \<noteq> []" "valid_utf8 (upstream_target u t)"
    "\<forall>c \<in> set (upstream_target u t). \<not> is_ascii_control c \<and> c \<noteq> SP"
proof -
  let ?b = "trim_end_matches (\<lambda>c. c = CHR ''/'') (base_path u)"
  have b: "list_all url_char ?b"
    using assms(1) trim_end_matches_subset[of "\<lambda>c. c = CHR ''/''" "base_path u"]
    by (auto simp: list_all_iff)
  then show "valid_utf8 (upstream_target u t)"
    using assms(3) url_chars_clean(3) by (simp add: upstream_target_def valid_utf8_append)
  show "upstream_target u t \<noteq> []" using assms(2) by (simp add: upstream_target_def)
  show "\<forall>c \<in> set (upstream_target u t). \<not> is_ascii_control c \<and> c \<noteq> SP"
    using b assms(4) by (auto simp: upstream_target_def list_all_iff url_char_def)
qed

lemma fixed_header_names:
  "list_all is_token ''Host''" "list_all is_token ''Connection''"
  "to_ascii_lowercase ''Host'' = ''host''" "to_ascii_lowercase ''Connection'' = ''connection''"
  "list_all url_char ''close''"
  by code_simp+

lemma forwarded_lines_ok:
  assumes "upstream_printable u" and "\<forall>h \<in> set (req_headers r). wf_header h \<and> valid_utf8 (header_value h)"
  shows "\<forall>l \<in> set (forwarded_lines u r). l \<noteq> [] \<and> CR \<notin> set l \<and> valid_utf8 l"
    and "list_all2 (\<lambda>l h. parse_header l = Inr h) (forwarded_lines u r)
           (req_headers (forwarded_request u r))"
proof -
  have a: "list_all url_char (authority u)" using assms(1) by (simp add: upstream_printable_def)
  have kept: "\<forall>h \<in> set (kept_headers r). wf_header h \<and> valid_utf8 (header_value h)"
    using assms(2) by (simp add: kept_headers_def)
  note host = header_line_clean[OF fixed_header_names(1) url_chars_clean(1,3)[OF a]]
  note conn = header_line_clean[OF fixed_header_names(2) url_chars_clean(1,3)[OF fixed_header_names(5)]]
  from host conn print_request_lines(1)[OF kept]
  show "\<forall>l \<in> set (forwarded_lines u r). l \<noteq> [] \<and> CR \<notin> set l \<and> valid_utf8 l"
    unfolding forwarded_lines_def by auto
  have "parse_header (header_line ''Host'' (authority u))
      = Inr \<lparr>header_name = ''host'', header_value = authority u\<rparr>"
    using parse_header_print[OF _ fixed_header_names(1) url_chars_clean(1,2,4)[OF a]]
    by (simp add: fixed_header_names)
  moreover have "parse_header (header_line ''Connection'' ''close'')
      = Inr \<lparr>header_name = ''connection'', header_value = ''close''\<rparr>"
    using parse_header_print[OF _ fixed_header_names(2) url_chars_clean(1,2,4)[OF fixed_header_names(5)]]
    by (simp add: fixed_header_names)
  ultimately show "list_all2 (\<lambda>l h. parse_header l = Inr h) (forwarded_lines u r)
      (req_headers (forwarded_request u r))"
    unfolding forwarded_lines_def forwarded_request_def
    using print_request_lines(2)[OF kept] by (auto intro!: list_all2_appendI)
qed

text \<open>
  C4. No request smuggling by header or target: the bytes sent upstream parse, with the program's
  own parser, to exactly the forwarded request: same method, the target under the upstream's
  base path, \<open>Host\<close> replaced by the authority, the hop-by-hop headers and those named by
  \<open>Connection\<close> removed, \<open>Connection: close\<close> added; and what follows the head is the body.
\<close>

theorem forwarded_request_parses:
  assumes "wf_request r" and "utf8_request r" and "upstream_printable u"
    and "length (request_bytes u r []) \<le> MAX_REQUEST_HEAD_SIZE + 4"
  shows "parse_request_head (request_bytes u r body)
       = Inr (Complete (forwarded_request u r) (length (request_bytes u r [])))
     \<and> drop (length (request_bytes u r [])) (request_bytes u r body) = body"
proof -
  note wf = assms(1)[unfolded wf_request_def] assms(2)[unfolded utf8_request_def]
  let ?t = "upstream_target u (req_target r)"
  let ?rl = "request_line (req_method r) ?t Http11"
  have b: "list_all url_char (base_path u)" using assms(3) by (simp add: upstream_printable_def)
  have t0: "req_target r \<noteq> []" "valid_utf8 (req_target r)"
    "\<forall>c \<in> set (req_target r). \<not> is_ascii_control c \<and> c \<noteq> SP" using wf by blast+
  note t = upstream_target_clean[OF b t0]
  have rl: "parse_request_line ?rl = Inr (req_method r, ?t, Http11)"
    by (rule parse_request_line_print[OF _ _ t(1,3)]) (use wf in simp_all)
  have hs: "\<forall>h \<in> set (req_headers r). wf_header h \<and> valid_utf8 (header_value h)" using wf by auto
  note lines = forwarded_lines_ok[OF assms(3) hs]
  have len: "length (print_head ?rl (forwarded_lines u r)) \<le> MAX_REQUEST_HEAD_SIZE + 4"
    using assms(4) by (simp add: request_bytes_head)
  have m: "list_all is_token (req_method r)" using wf by simp
  have "parse_request_head (print_head ?rl (forwarded_lines u r) @ body)
      = Inr (Complete (forwarded_request u r) (length (print_head ?rl (forwarded_lines u r))))"
    unfolding parse_print_head[OF request_line_clean[OF m t(3,2)] rl lines len]
    by (simp add: forwarded_request_def)
  then show ?thesis by (simp add: request_bytes_head)
qed

definition sample_upstream :: upstream_url where
  "sample_upstream = \<lparr>authority = ''up'', connect_address = ''up:80'', base_path = ''/v1/''\<rparr>"

definition sample_put :: request_head where
  "sample_put = \<lparr>req_method = ''PUT'', req_target = ''/a'', req_version = Http11, req_headers =
     [\<lparr>header_name = ''connection'', header_value = ''Keep-Alive, X-Id''\<rparr>,
      \<lparr>header_name = ''x-id'', header_value = ''7''\<rparr>,
      \<lparr>header_name = ''content-length'', header_value = ''2''\<rparr>]\<rparr>"

lemma sample_put_ok: "wf_request sample_put" "utf8_request sample_put" "upstream_printable sample_upstream"
  "length (request_bytes sample_upstream sample_put []) \<le> MAX_REQUEST_HEAD_SIZE + 4"
  by code_simp+

theorem forwarded_request_parses_witness:
  "parse_request_head (request_bytes sample_upstream sample_put ''hi'')
     = Inr (Complete \<lparr>req_method = ''PUT'', req_target = ''/v1/a'', req_version = Http11, req_headers =
         [\<lparr>header_name = ''host'', header_value = ''up''\<rparr>,
          \<lparr>header_name = ''content-length'', header_value = ''2''\<rparr>,
          \<lparr>header_name = ''connection'', header_value = ''close''\<rparr>]\<rparr>
       (length (request_bytes sample_upstream sample_put [])))"
proof -
  have "forwarded_request sample_upstream sample_put
      = \<lparr>req_method = ''PUT'', req_target = ''/v1/a'', req_version = Http11, req_headers =
         [\<lparr>header_name = ''host'', header_value = ''up''\<rparr>,
          \<lparr>header_name = ''content-length'', header_value = ''2''\<rparr>,
          \<lparr>header_name = ''connection'', header_value = ''close''\<rparr>]\<rparr>"
    by code_simp
  with conjunct1[OF forwarded_request_parses[OF sample_put_ok, of "''hi''"]] show ?thesis
    by (simp only:)
qed

section \<open>Framing of the forwarded body\<close>

lemma body_length_cong:
  assumes "filter (\<lambda>h. header_name h = ''content-length'') (req_headers r)
         = filter (\<lambda>h. header_name h = ''content-length'') (req_headers r')"
    and "list_ex (\<lambda>h. header_name h = ''transfer-encoding'') (req_headers r)
       = list_ex (\<lambda>h. header_name h = ''transfer-encoding'') (req_headers r')"
  shows "body_length r = body_length r'"
  using assms by (simp add: body_length_def)

lemma forwarded_no_transfer_encoding:
  "\<not> list_ex (\<lambda>h. header_name h = ''transfer-encoding'') (req_headers (forwarded_request u r))"
  by (simp add: forwarded_request_def kept_headers_def hop_by_hop_def list_ex_iff)

lemma forwarded_content_length:
  assumes "''content-length'' \<notin> set (connection_headers r)"
  shows "filter (\<lambda>h. header_name h = ''content-length'') (req_headers (forwarded_request u r))
       = filter (\<lambda>h. header_name h = ''content-length'') (req_headers r)"
proof -
  have "filter (\<lambda>h. header_name h = ''content-length'') (kept_headers r)
      = filter (\<lambda>h. header_name h = ''content-length'') (req_headers r)"
    unfolding kept_headers_def filter_filter using assms
    by (intro filter_cong) (auto simp: hop_by_hop_def)
  then show ?thesis by (simp add: forwarded_request_def)
qed

text \<open>
  The upstream sees the body the client declared: when the request is accepted with body
  length \<open>n\<close> and no Connection header names Content-Length, the forwarded request declares the
  same length \<open>n\<close>.
\<close>

theorem forwarded_framing:
  assumes "body_length r = Inr n" and "''content-length'' \<notin> set (connection_headers r)"
  shows "body_length (forwarded_request u r) = Inr n"
proof -
  have "\<not> list_ex (\<lambda>h. header_name h = ''transfer-encoding'') (req_headers r)"
    using assms(1) by (auto simp: body_length_def)
  with body_length_cong[OF forwarded_content_length[OF assms(2)]] assms(1)
    forwarded_no_transfer_encoding[of u r] show ?thesis by metis
qed

theorem forwarded_framing_witness: "body_length (forwarded_request sample_upstream sample_put) = Inr 2"
proof (rule forwarded_framing)
  show "body_length sample_put = Inr 2"
    by (simp add: sample_put_def body_length_def parse_u64_def digits_value_def is_ascii_digit_def)
  show "''content-length'' \<notin> set (connection_headers sample_put)" by code_simp
qed


end
