(* ===== verification/Router.thy ===== *)
theory Router
  imports Config Http
begin

text \<open>
  Routing, virtual hosts and canned responses of \<open>run/slave/src/router.rs\<close>: an exact location wins
  over every prefix location, a longer prefix wins over a shorter one, the host name selects a
  server within a listener group, and a response is framed so that its body starts after the
  first blank line and has the announced length.
\<close>

section \<open>Routing\<close>

definition matches_exact :: "location \<Rightarrow> bytes \<Rightarrow> bool" where
  "matches_exact l target = (case matcher l of Exact path \<Rightarrow> path = target | _ \<Rightarrow> False)"

definition prefix_candidate :: "bytes \<Rightarrow> location \<Rightarrow> (nat \<times> action) option" where
  "prefix_candidate target l = (case matcher l of
     Prefix path \<Rightarrow> if prefix path target then Some (length path, loc_action l) else None
   | _ \<Rightarrow> None)"

definition route :: "server \<Rightarrow> bytes \<Rightarrow> action option" where
  "route s target =
     (case find_map (\<lambda>l. if matches_exact l target then Some (loc_action l) else None) (locations s) of
        Some a \<Rightarrow> Some a
      | None \<Rightarrow> map_option snd
          (max_by_key fst (List.map_filter (prefix_candidate target) (locations s))))"

definition hostname :: "bytes \<Rightarrow> bytes" where
  "hostname host0 =
     (let host = trim host0 in
      case strip_prefix ''['' host of
        Some bracketed \<Rightarrow>
          (case split_once (CHR '']'') bracketed of Some (address, _) \<Rightarrow> address | None \<Rightarrow> bracketed)
      | None \<Rightarrow>
          (case split_once (CHR '':'') host of Some (name, _) \<Rightarrow> name | None \<Rightarrow> host))"

definition serves_host :: "server list \<Rightarrow> bytes \<Rightarrow> nat \<Rightarrow> bool" where
  "serves_host servers host i = (case get servers i of
     None \<Rightarrow> False
   | Some s \<Rightarrow> (case server_name s of None \<Rightarrow> False | Some n \<Rightarrow> eq_ignore_ascii_case n host))"

definition select_server :: "nat list \<Rightarrow> nat \<Rightarrow> request_head \<Rightarrow> server list \<Rightarrow> nat" where
  "select_server server_indices default_server request servers =
     (case map_option (\<lambda>h. hostname (header_value h))
             (find (\<lambda>h. header_name h = ''host'') (req_headers request)) of
        None \<Rightarrow> default_server
      | Some host \<Rightarrow>
          (case find (serves_host servers host) server_indices of
             Some i \<Rightarrow> i
           | None \<Rightarrow> default_server))"

section \<open>Responses\<close>

definition reason_phrase :: "u16 \<Rightarrow> bytes" where
  "reason_phrase status =
     (if status = 200 then ''OK''
      else if status = 201 then ''Created''
      else if status = 204 then ''No Content''
      else if status = 206 then ''Partial Content''
      else if status = 304 then ''Not Modified''
      else if status = 400 then ''Bad Request''
      else if status = 404 then ''Not Found''
      else if status = 405 then ''Method Not Allowed''
      else if status = 413 then ''Payload Too Large''
      else if status = 416 then ''Range Not Satisfiable''
      else if status = 500 then ''Internal Server Error''
      else if status = 501 then ''Not Implemented''
      else if status = 502 then ''Bad Gateway''
      else if status = 504 then ''Gateway Timeout''
      else ''Unknown'')"

definition response_bytes_with_body :: "u16 \<Rightarrow> bytes \<Rightarrow> bytes \<Rightarrow> bool \<Rightarrow> bytes" where
  "response_bytes_with_body status content_type body include_body =
     (let response = ''HTTP/1.1 '' @ dec (unat status) @ '' '' @ reason_phrase status @ crlf
        @ ''Content-Type: '' @ content_type @ crlf
        @ ''Content-Length: '' @ dec (length body) @ crlf
        @ ''Connection: close'' @ crlf @ crlf
      in if include_body then response @ body else response)"

definition response_bytes :: "u16 \<Rightarrow> bytes \<Rightarrow> bytes" where
  "response_bytes status body =
     response_bytes_with_body status ''text/plain; charset=utf-8'' body True"

section \<open>Properties\<close>

lemma map_filter_in: "y \<in> set (List.map_filter f xs) \<longleftrightarrow> (\<exists>x \<in> set xs. f x = Some y)"
  by (force simp: List.map_filter_def)

lemma map_filter_split:
  "List.map_filter f xs = ys @ y # zs \<Longrightarrow>
   \<exists>as a bs. xs = as @ a # bs \<and> f a = Some y \<and> List.map_filter f as = ys
     \<and> List.map_filter f bs = zs"
proof (induction xs arbitrary: ys)
  case Nil
  then show ?case by (simp add: List.map_filter_def)
next
  case (Cons x xs)
  show ?case
  proof (cases "f x")
    case None
    with Cons.prems have "List.map_filter f xs = ys @ y # zs" by (simp add: map_filter_simps)
    from Cons.IH[OF this] obtain as a bs where *: "xs = as @ a # bs" "f a = Some y"
      "List.map_filter f as = ys" "List.map_filter f bs = zs" by blast
    with None show ?thesis
      by (intro exI[of _ "x # as"] exI[of _ a] exI[of _ bs]) (simp add: map_filter_simps)
  next
    case (Some w)
    show ?thesis
    proof (cases ys)
      case Nil
      with Some Cons.prems show ?thesis
        by (intro exI[of _ "[]"] exI[of _ x] exI[of _ xs]) (simp add: map_filter_simps)
    next
      case (Cons v ys')
      with Some Cons.prems have "w = v" "List.map_filter f xs = ys' @ y # zs"
        by (simp_all add: map_filter_simps)
      with Cons.IH[of ys'] obtain as a bs where *: "xs = as @ a # bs" "f a = Some y"
        "List.map_filter f as = ys'" "List.map_filter f bs = zs" by blast
      with Some Cons \<open>w = v\<close> show ?thesis
        by (intro exI[of _ "x # as"] exI[of _ a] exI[of _ bs]) (simp add: map_filter_simps)
    qed
  qed
qed

text \<open>The prefix of a location, when it is a prefix location that matches the target.\<close>

definition prefix_match :: "bytes \<Rightarrow> location \<Rightarrow> bytes \<Rightarrow> bool" where
  "prefix_match target l path \<longleftrightarrow> matcher l = Prefix path \<and> prefix path target"

lemma prefix_candidate_Some_iff:
  "prefix_candidate target l = Some (n, a) \<longleftrightarrow>
     (\<exists>path. prefix_match target l path \<and> n = length path \<and> a = loc_action l)"
  by (auto simp: prefix_candidate_def prefix_match_def split: path_matcher.splits)

text \<open>
  C28. Routing is first-exact-match, then longest-prefix: a routed action is that of the first
  exact location for the target if there is one; otherwise it is that of a prefix location whose
  path is at least as long as every other matching prefix and strictly longer than the matching
  prefixes configured after it.
\<close>

theorem route_precedence:
  assumes "route s target = Some a"
  shows "(\<exists>before l after. locations s = before @ l # after \<and> matches_exact l target
            \<and> a = loc_action l \<and> (\<forall>b \<in> set before. \<not> matches_exact b target))
       \<or> (\<forall>l \<in> set (locations s). \<not> matches_exact l target)
         \<and> (\<exists>before l after path. locations s = before @ l # after
              \<and> prefix_match target l path \<and> a = loc_action l
              \<and> (\<forall>b \<in> set before. \<forall>p. prefix_match target b p \<longrightarrow> length p \<le> length path)
              \<and> (\<forall>b \<in> set after. \<forall>p. prefix_match target b p \<longrightarrow> length p < length path))"
proof (cases "find_map (\<lambda>l. if matches_exact l target then Some (loc_action l) else None) (locations s)")
  case (Some x)
  with assms have x: "x = a" by (simp add: route_def)
  from Some obtain i where i: "i < length (locations s)"
    "matches_exact (locations s ! i) target" "loc_action (locations s ! i) = x"
    "\<forall>j < i. \<not> matches_exact (locations s ! j) target"
    by (auto simp: find_map_Some_iff split: if_splits)
  have "\<forall>b \<in> set (take i (locations s)). \<not> matches_exact b target"
    using i(1,4) by (auto simp: in_set_conv_nth)
  with i x show ?thesis using id_take_nth_drop[OF i(1)] by blast
next
  case None
  then have none: "\<forall>l \<in> set (locations s). \<not> matches_exact l target"
    by (auto simp: find_map_None_iff split: if_splits)
  from None assms obtain n where "max_by_key fst
      (List.map_filter (prefix_candidate target) (locations s)) = Some (n, a)"
    by (auto simp: route_def)
  then obtain ys zs where "List.map_filter (prefix_candidate target) (locations s) = ys @ (n, a) # zs"
    and ys: "\<forall>y \<in> set ys. fst y \<le> n" and zs: "\<forall>z \<in> set zs. fst z < n"
    by (auto simp: last_max_def dest!: max_by_key_last_max)
  with map_filter_split[of "prefix_candidate target" "locations s"] obtain as l bs where
    split: "locations s = as @ l # bs" "prefix_candidate target l = Some (n, a)"
    and as: "List.map_filter (prefix_candidate target) as = ys"
    and bs: "List.map_filter (prefix_candidate target) bs = zs" by blast
  have "length p \<le> n" if "b \<in> set as" "prefix_match target b p" for b p
  proof -
    have "(length p, loc_action b) \<in> set ys"
      using that unfolding as[symmetric] map_filter_in prefix_candidate_Some_iff by blast
    with ys show ?thesis by auto
  qed
  moreover have "length p < n" if "b \<in> set bs" "prefix_match target b p" for b p
  proof -
    have "(length p, loc_action b) \<in> set zs"
      using that unfolding bs[symmetric] map_filter_in prefix_candidate_Some_iff by blast
    with zs show ?thesis by auto
  qed
  ultimately show ?thesis using none split unfolding prefix_candidate_Some_iff by blast
qed

definition sample_server :: server where
  "sample_server = \<lparr>server_name = Some ''Example.com'',
     locations = [\<lparr>matcher = Prefix ''/'', loc_action = Response 200 ''root''\<rparr>,
                  \<lparr>matcher = Prefix ''/api'', loc_action = Response 200 ''api''\<rparr>,
                  \<lparr>matcher = Exact ''/api/x'', loc_action = Response 204 []\<rparr>],
     listen = SocketV4 0 80, ssl = None\<rparr>"

theorem route_precedence_witness:
  "route sample_server ''/api/y'' = Some (Response 200 ''api'')
 \<and> (\<exists>before l after path. locations sample_server = before @ l # after
      \<and> prefix_match ''/api/y'' l path \<and> loc_action l = Response 200 ''api'')"
proof -
  have r: "route sample_server ''/api/y'' = Some (Response 200 ''api'')" by code_simp
  have "\<not> matches_exact l ''/api/y''" if "l \<in> set (locations sample_server)" for l
    using that by (auto simp: sample_server_def matches_exact_def)
  with route_precedence[OF r] r show ?thesis by (metis in_set_conv_decomp)
qed

text \<open>
  A request is routed to nothing exactly when no location of the server matches its target.
\<close>

lemma route_None_iff:
  "route s target = None \<longleftrightarrow>
     (\<forall>l \<in> set (locations s). \<not> matches_exact l target \<and> (\<nexists>path. prefix_match target l path))"
proof -
  have "prefix_candidate target l = None \<longleftrightarrow> (\<nexists>path. prefix_match target l path)" for l
    by (auto simp: prefix_candidate_def prefix_match_def split: path_matcher.splits)
  moreover have "List.map_filter f xs = [] \<longleftrightarrow> (\<forall>x \<in> set xs. f x = None)"
    for f :: "location \<Rightarrow> (nat \<times> action) option" and xs
    by (induction xs) (auto simp: map_filter_simps split: option.splits)
  ultimately have pre: "List.map_filter (prefix_candidate target) (locations s) = [] \<longleftrightarrow>
      (\<forall>l \<in> set (locations s). \<nexists>path. prefix_match target l path)" by simp
  have "find_map (\<lambda>l. if matches_exact l target then Some (loc_action l) else None) (locations s)
      = None \<longleftrightarrow> (\<forall>l \<in> set (locations s). \<not> matches_exact l target)"
    by (auto simp: find_map_None_iff split: if_splits)
  with pre show ?thesis
    unfolding route_def option.case_eq_if by auto
qed

lemma route_in_locations:
  assumes "route s target = Some a"
  shows "\<exists>l \<in> set (locations s). loc_action l = a"
proof (cases "find_map (\<lambda>l. if matches_exact l target then Some (loc_action l) else None) (locations s)")
  case (Some b)
  with assms have "b = a" by (simp add: route_def)
  with Some show ?thesis by (auto simp: find_map_Some_iff split: if_splits)
next
  case None
  then obtain n where "(n, a) \<in> set (List.map_filter (prefix_candidate target) (locations s))"
    using assms by (auto simp: route_def dest!: max_by_key_in)
  then show ?thesis by (auto simp: map_filter_in prefix_candidate_Some_iff)
qed

text \<open>
  Virtual hosts: the selected server is the first one of the listener's group whose name
  equals the request's host name up to ASCII case, and the group's default server when there is
  no Host header or no such server.
\<close>

theorem select_server_spec:
  "(\<exists>h before after. find (\<lambda>h. header_name h = ''host'') (req_headers req) = Some h
      \<and> idx = before @ select_server idx d req servers # after
      \<and> serves_host servers (hostname (header_value h)) (select_server idx d req servers)
      \<and> (\<forall>b \<in> set before. \<not> serves_host servers (hostname (header_value h)) b))
 \<or> select_server idx d req servers = d
      \<and> (find (\<lambda>h. header_name h = ''host'') (req_headers req) = None
       \<or> (\<exists>h. find (\<lambda>h. header_name h = ''host'') (req_headers req) = Some h
            \<and> find (serves_host servers (hostname (header_value h))) idx = None))"
proof (cases "find (\<lambda>h. header_name h = ''host'') (req_headers req)")
  case None
  then show ?thesis by (simp add: select_server_def)
next
  case (Some h)
  let ?P = "serves_host servers (hostname (header_value h))"
  show ?thesis
  proof (cases "find ?P idx")
    case None
    with Some show ?thesis by (simp add: select_server_def)
  next
    case (Some i)
    with \<open>find _ _ = Some h\<close> have sel: "select_server idx d req servers = i"
      by (simp add: select_server_def)
    from Some obtain k where k: "k < length idx" "?P (idx ! k)" "i = idx ! k"
      "\<forall>j < k. \<not> ?P (idx ! j)" by (auto simp: find_Some_iff)
    have "\<forall>b \<in> set (take k idx). \<not> ?P b" using k by (auto simp: in_set_conv_nth)
    then show ?thesis unfolding sel
      using k \<open>find _ _ = Some h\<close> id_take_nth_drop[OF k(1)]
      by (intro disjI1 exI[of _ h] exI[of _ "take k idx"] exI[of _ "drop (Suc k) idx"]) simp
  qed
qed

definition sample_host_request :: request_head where
  "sample_host_request = \<lparr>req_method = ''GET'', req_target = ''/'', req_version = Http11,
     req_headers = [\<lparr>header_name = ''host'', header_value = ''EXAMPLE.com:80''\<rparr>]\<rparr>"

theorem select_server_spec_witness:
  "\<exists>h before after. find (\<lambda>h. header_name h = ''host'') (req_headers sample_host_request) = Some h
     \<and> [1, 0] = before @ select_server [1, 0] 1 sample_host_request
         [sample_server, sample_server\<lparr>server_name := None\<rparr>] # after
     \<and> serves_host [sample_server, sample_server\<lparr>server_name := None\<rparr>] (hostname (header_value h)) 0"
proof -
  have "select_server [1, 0] 1 sample_host_request [sample_server, sample_server\<lparr>server_name := None\<rparr>] = 0"
    by code_simp
  with select_server_spec[of sample_host_request "[1, 0]" 1 "[sample_server, sample_server\<lparr>server_name := None\<rparr>]"]
  show ?thesis by auto
qed

text \<open>
  Response framing: for a content type without carriage returns the generated response has
  its first blank line right before the body, the body that follows is the given one (or nothing
  for a HEAD request), and the head announces the length of the given body.
\<close>

theorem response_framing:
  assumes "CR \<notin> set content_type"
  shows "\<exists>n. find_head_end (response_bytes_with_body status content_type body inc) = Some n
       \<and> drop (n + 4) (response_bytes_with_body status content_type body inc)
           = (if inc then body else [])
       \<and> (''Content-Length: '' @ dec (length body))
           \<in> set (split_crlf (take n (response_bytes_with_body status content_type body inc)))"
proof -
  let ?rl = "''HTTP/1.1 '' @ dec (unat status) @ '' '' @ reason_phrase status"
  let ?ls = "[''Content-Type: '' @ content_type, ''Content-Length: '' @ dec (length body),
              ''Connection: close'']"
  let ?rest = "if inc then body else []"
  have eq: "response_bytes_with_body status content_type body inc = print_head ?rl ?ls @ ?rest"
    by (simp add: response_bytes_with_body_def print_head_def Let_def)
  have d: "CR \<notin> set (dec k)" for k
    using dec_digits[of k] by (auto simp: list_all_iff is_ascii_digit_def)
  have r: "CR \<notin> set (reason_phrase status)"
    by (auto simp: reason_phrase_def)
  have clean: "CR \<notin> set ?rl" "\<forall>l \<in> set ?ls. l \<noteq> [] \<and> CR \<notin> set l"
    using assms d r by auto
  from print_head_frame[OF clean, of ?rest] obtain n where
    "find_head_end (print_head ?rl ?ls @ ?rest) = Some n"
    "drop (n + 4) (print_head ?rl ?ls @ ?rest) = ?rest"
    "split_crlf (take n (print_head ?rl ?ls @ ?rest)) = ?rl # ?ls" by metis
  then show ?thesis unfolding eq by (intro exI[of _ n]) simp
qed

theorem response_framing_witness:
  "CR \<notin> set ''text/plain'' \<and> (\<exists>n. find_head_end (response_bytes_with_body 200 ''text/plain'' ''hi'' True)
      = Some n \<and> drop (n + 4) (response_bytes_with_body 200 ''text/plain'' ''hi'' True) = ''hi'')"
  using response_framing[of "''text/plain''" 200 "''hi''" True] by auto

end
