(* ===== verification/Rust_Io.thy ===== *)
theory Rust_Io
  imports Rust_Text
begin

text \<open>
  The parts of Rust's standard library for input and output that the program uses: error values
  with their kinds (the \<open>errno\<close> mapping is that of Linux), Unix paths with their components, and
  the file-system operations as a record of functions, which every use takes as an argument.
\<close>

section \<open>Errors\<close>

datatype error_kind =
    KNotFound
  | KPermissionDenied
  | KConnectionRefused
  | KConnectionReset
  | KBrokenPipe
  | KWouldBlock
  | KInvalidInput
  | KInvalidData
  | KTimedOut
  | KWriteZero
  | KInterrupted
  | KUnexpectedEof
  | KUnsupported
  | KOutOfMemory
  | KOther

datatype io_error = Os int | Custom error_kind bytes

definition EPERM :: int where "EPERM = 1"
definition ENOENT :: int where "ENOENT = 2"
definition EINTR :: int where "EINTR = 4"
definition EAGAIN :: int where "EAGAIN = 11"
definition EACCES :: int where "EACCES = 13"
definition EINVAL :: int where "EINVAL = 22"
definition EPIPE :: int where "EPIPE = 32"
definition EOPNOTSUPP :: int where "EOPNOTSUPP = 95"
definition ECONNRESET :: int where "ECONNRESET = 104"
definition ENOBUFS :: int where "ENOBUFS = 105"
definition ETIMEDOUT :: int where "ETIMEDOUT = 110"
definition ECONNREFUSED :: int where "ECONNREFUSED = 111"
definition ECANCELED :: int where "ECANCELED = 125"
definition ECHILD :: int where "ECHILD = 10"

lemmas errno_defs = EPERM_def ENOENT_def EINTR_def EAGAIN_def EACCES_def EINVAL_def EPIPE_def
  EOPNOTSUPP_def ECONNRESET_def ENOBUFS_def ETIMEDOUT_def ECONNREFUSED_def ECANCELED_def ECHILD_def

definition errno_kind :: "int \<Rightarrow> error_kind" where
  "errno_kind n =
     (if n = ENOENT then KNotFound
      else if n = EPERM \<or> n = EACCES then KPermissionDenied
      else if n = ECONNREFUSED then KConnectionRefused
      else if n = ECONNRESET then KConnectionReset
      else if n = EPIPE then KBrokenPipe
      else if n = EAGAIN then KWouldBlock
      else if n = EINVAL then KInvalidInput
      else if n = ETIMEDOUT then KTimedOut
      else if n = EINTR then KInterrupted
      else KOther)"

definition kind :: "io_error \<Rightarrow> error_kind" where
  "kind e = (case e of Os n \<Rightarrow> errno_kind n | Custom k _ \<Rightarrow> k)"

definition raw_os_error :: "io_error \<Rightarrow> int option" where
  "raw_os_error e = (case e of Os n \<Rightarrow> Some n | Custom _ _ \<Rightarrow> None)"

section \<open>Paths\<close>

text \<open>
  On Unix a path is a byte string. \<open>components\<close> drops empty components and every \<open>.\<close> that is not
  the first component of a relative path; there are no prefixes.
\<close>

datatype component = RootDir | CurDir | ParentDir | Normal bytes

abbreviation (input) slash :: byte where "slash \<equiv> CHR ''/''"

definition path_pieces :: "bytes \<Rightarrow> bytes list" where
  "path_pieces p = split_on (\<lambda>c. c = slash) p"

definition body_components :: "bytes list \<Rightarrow> component list" where
  "body_components ps = map (\<lambda>s. if s = ''..'' then ParentDir else Normal s)
     (filter (\<lambda>s. s \<noteq> [] \<and> s \<noteq> ''.'') ps)"

definition components :: "bytes \<Rightarrow> component list" where
  "components p =
     (if prefix ''/'' p then RootDir # body_components (path_pieces p)
      else if hd (path_pieces p) = ''.'' then CurDir # body_components (path_pieces p)
      else body_components (path_pieces p))"

definition push :: "bytes \<Rightarrow> bytes \<Rightarrow> bytes" where
  "push p part =
     (if prefix ''/'' part then part
      else if p \<noteq> [] \<and> last p \<noteq> slash then p @ ''/'' @ part
      else p @ part)"

definition path_starts_with :: "bytes \<Rightarrow> bytes \<Rightarrow> bool" where
  "path_starts_with p base \<longleftrightarrow> prefix (components base) (components p)"

subsection \<open>Components and push\<close>

lemma body_components_append [simp]:
  "body_components (ps @ qs) = body_components ps @ body_components qs"
  by (simp add: body_components_def)

lemma body_components_Nil_piece [simp]: "body_components ([] # ps) = body_components ps"
  by (simp add: body_components_def)

lemma body_components_Nil [simp]: "body_components [] = []"
  by (simp add: body_components_def)

lemma path_pieces_slash: "path_pieces (p @ slash # q) = path_pieces p @ path_pieces q"
proof (induction p)
  case Nil
  then show ?case by (simp add: path_pieces_def)
next
  case (Cons c p)
  have "split_on (\<lambda>c. c = slash) p \<noteq> []" by simp
  with Cons show ?case
    by (auto simp: path_pieces_def neq_Nil_conv split: list.splits)
qed

definition plain_name :: "bytes \<Rightarrow> bool" where
  "plain_name s \<longleftrightarrow> s \<noteq> [] \<and> s \<noteq> ''.'' \<and> s \<noteq> ''..'' \<and> slash \<notin> set s"

lemma plain_name_pieces: "slash \<notin> set s \<Longrightarrow> path_pieces s = [s]"
  unfolding path_pieces_def by (rule split_on_clean) auto

lemma components_plain: "plain_name s \<Longrightarrow> components s = [Normal s]"
  by (cases s) (auto simp: components_def plain_name_def plain_name_pieces body_components_def)

lemma normal_components_plain:
  assumes "Normal s \<in> set (components p)"
  shows "plain_name s"
proof -
  have "s \<in> set (path_pieces p)" "s \<noteq> []" "s \<noteq> ''.''" "s \<noteq> ''..''"
    using assms by (auto simp: components_def body_components_def split: if_splits)
  then show ?thesis
    using split_on_pieces[of s "\<lambda>c. c = slash" p slash] by (auto simp: plain_name_def path_pieces_def)
qed

lemma path_pieces_Nil [simp]: "path_pieces [] = [[]]"
  by (simp add: path_pieces_def)

lemma path_pieces_nonempty [simp]: "path_pieces p \<noteq> []"
  by (simp add: path_pieces_def)

text \<open>Pushing a plain name appends one normal component.\<close>

lemma components_push:
  assumes "plain_name s"
  shows "components (push p s) = components p @ [Normal s]"
proof (cases "p = [] \<or> last p = slash")
  case False
  have "\<not> prefix ''/'' s" using assms by (cases s) (auto simp: plain_name_def)
  with False have "push p s = p @ slash # s" by (simp add: push_def)
  moreover have "body_components (path_pieces s) = [Normal s]"
    using assms by (simp add: plain_name_def plain_name_pieces body_components_def)
  moreover have "prefix ''/'' (p @ slash # s) \<longleftrightarrow> prefix ''/'' p" using False by (cases p) auto
  ultimately show ?thesis
    by (simp add: components_def path_pieces_slash)
next
  case True
  have ns: "\<not> prefix ''/'' s" using assms by (cases s) (auto simp: plain_name_def)
  show ?thesis
  proof (cases "p = []")
    case True
    with ns assms show ?thesis
      by (simp add: push_def components_plain) (simp add: components_def path_pieces_def body_components_def)
  next
    case ne: False
    then obtain q where p: "p = q @ [slash]" using True by (metis append_butlast_last_id)
    have bs: "body_components (path_pieces s) = [Normal s]"
      using assms by (simp add: plain_name_def plain_name_pieces body_components_def)
    have "push p s = q @ slash # s" using ns p by (simp add: push_def)
    moreover have "prefix ''/'' (q @ slash # s) \<longleftrightarrow> prefix ''/'' (q @ [slash])" by (cases q) auto
    ultimately show ?thesis
      using bs by (simp add: p components_def path_pieces_slash)
  qed
qed

section \<open>The file system\<close>

record metadata =
  md_len :: u64
  md_is_dir :: bool
  md_is_file :: bool
  md_modified :: "u64 option"

text \<open>
  \<open>fs_open\<close> gives the bytes of the opened file; \<open>md_modified\<close> is the modification time in seconds
  since the epoch, \<open>None\<close> when it is unavailable or earlier.
\<close>

record fs =
  fs_canonicalize :: "bytes \<Rightarrow> io_error + bytes"
  fs_metadata :: "bytes \<Rightarrow> io_error + metadata"
  fs_read :: "bytes \<Rightarrow> io_error + bytes"
  fs_open :: "bytes \<Rightarrow> io_error + bytes"

definition map_err :: "('e \<Rightarrow> 'f) \<Rightarrow> 'e + 'a \<Rightarrow> 'f + 'a" where
  "map_err f r = (case r of Inl e \<Rightarrow> Inl (f e) | Inr x \<Rightarrow> Inr x)"

lemma map_err_Inr_iff [simp]: "map_err f r = Inr x \<longleftrightarrow> r = Inr x"
  by (cases r) (simp_all add: map_err_def)

section \<open>Sockets and time\<close>

text \<open>
  A socket is its file descriptor. An \<open>Instant\<close> is a number of milliseconds; \<open>duration_since\<close> saturates
  at zero.
\<close>

type_synonym socket = nat
type_synonym instant = nat

abbreviation duration_since :: "instant \<Rightarrow> instant \<Rightarrow> nat" where
  "duration_since now earlier \<equiv> now - earlier"

end
