(* ===== verification/Static_Files.thy ===== *)
theory Static_Files
  imports Router Rust_Io
begin

text \<open>
  Static files, \<open>run/slave/src/static_files.rs\<close>: decoding the request target, confining it to the
  document root, byte ranges, and the thread that streams a file through a channel of two chunks.
  The file system (\<^typ>\<open>fs\<close>) and the MIME table are arguments.
\<close>

section \<open>Data\<close>

definition MAX_IN_MEMORY_STATIC_FILE_SIZE :: u64 where
  "MAX_IN_MEMORY_STATIC_FILE_SIZE = 4 * 1024 * 1024"

definition STREAM_CHUNK_SIZE :: nat where
  "STREAM_CHUNK_SIZE = 64 * 1024"

datatype static_error =
    BadRequest
  | Forbidden
  | MethodNotAllowed
  | NotFound
  | TooLarge
  | RangeNotSatisfiable
  | StaticIo io_error

record request_target =
  rt_path :: bytes
  rt_query :: "bytes option"

record static_file =
  sf_bytes :: bytes
  sf_content_type :: bytes
  sf_content_length :: u64

section \<open>Request targets\<close>

definition hex :: "byte \<Rightarrow> u8 option" where
  "hex c = (let byte = of_nat (bv c) :: u8 in
     if 48 \<le> bv c \<and> bv c \<le> 57 then Some (byte - 48)
     else if 97 \<le> bv c \<and> bv c \<le> 102 then Some (byte - 97 + 10)
     else if 65 \<le> bv c \<and> bv c \<le> 70 then Some (byte - 65 + 10)
     else None)"

definition hex_byte :: "u8 \<Rightarrow> u8 \<Rightarrow> byte" where
  "hex_byte high low = char_of (unat (or (push_bit 4 high) low))"

fun percent_decode :: "bytes \<Rightarrow> static_error + bytes" where
  "percent_decode [] = Inr []"
| "percent_decode (c # cs) =
     (if c = CHR ''%'' then
        (case cs of
           h # l # rest \<Rightarrow>
             (case hex h of None \<Rightarrow> Inl BadRequest | Some high \<Rightarrow>
             (case hex l of None \<Rightarrow> Inl BadRequest | Some low \<Rightarrow>
             (case percent_decode rest of
                Inl e \<Rightarrow> Inl e
              | Inr decoded \<Rightarrow> Inr (hex_byte high low # decoded))))
         | _ \<Rightarrow> Inl BadRequest)
      else (case percent_decode cs of Inl e \<Rightarrow> Inl e | Inr decoded \<Rightarrow> Inr (c # decoded)))"

fun relative_loop :: "bytes \<Rightarrow> component list \<Rightarrow> static_error + bytes" where
  "relative_loop relative [] = Inr relative"
| "relative_loop relative (RootDir # cs) = relative_loop relative cs"
| "relative_loop relative (Normal part # cs) = relative_loop (push relative part) cs"
| "relative_loop relative (CurDir # cs) = Inl Forbidden"
| "relative_loop relative (ParentDir # cs) = Inl Forbidden"

definition relative_path :: "bytes \<Rightarrow> static_error + bytes" where
  "relative_path path = relative_loop [] (components path)"

definition parse_request_target :: "bytes \<Rightarrow> static_error + request_target" where
  "parse_request_target raw =
     (let (raw_path, query) = (case split_once (CHR ''?'') raw of
            None \<Rightarrow> (raw, None) | Some (path, query) \<Rightarrow> (path, Some query))
      in if \<not> prefix ''/'' raw_path then Inl BadRequest
         else (case percent_decode raw_path of
                 Inl e \<Rightarrow> Inl e
               | Inr bs \<Rightarrow>
                   (case from_utf8 bs of
                      None \<Rightarrow> Inl BadRequest
                    | Some path \<Rightarrow>
                        if list_ex (\<lambda>c. bv c = 0 \<or> is_ascii_control c) path then Inl BadRequest
                        else (case relative_path path of
                                Inl e \<Rightarrow> Inl e
                              | Inr _ \<Rightarrow> Inr \<lparr>rt_path = path, rt_query = query\<rparr>))))"

section \<open>Resolving a target to a file\<close>

definition map_io_error :: "io_error \<Rightarrow> static_error" where
  "map_io_error e = (case kind e of
     KNotFound \<Rightarrow> NotFound
   | KPermissionDenied \<Rightarrow> Forbidden
   | _ \<Rightarrow> StaticIo e)"

text \<open>The directory branch: the index file, confined to the root again.\<close>

definition resolve_index ::
  "fs \<Rightarrow> bytes \<Rightarrow> bytes \<Rightarrow> metadata \<Rightarrow> static_error + bytes \<times> metadata" where
  "resolve_index fs root candidate md =
     (if md_is_dir md then
        (case map_err map_io_error (fs_canonicalize fs (push candidate ''index.html'')) of
           Inl e \<Rightarrow> Inl e
         | Inr candidate' \<Rightarrow>
             if \<not> path_starts_with candidate' root then Inl Forbidden
             else (case map_err map_io_error (fs_metadata fs candidate') of
                     Inl e \<Rightarrow> Inl e
                   | Inr md' \<Rightarrow> Inr (candidate', md')))
      else Inr (candidate, md))"

definition resolve_static_path ::
  "fs \<Rightarrow> bytes \<Rightarrow> bytes \<Rightarrow> static_error + bytes \<times> metadata" where
  "resolve_static_path fs root0 raw_target =
     (case parse_request_target raw_target of Inl e \<Rightarrow> Inl e | Inr target \<Rightarrow>
     (case map_err map_io_error (fs_canonicalize fs root0) of Inl e \<Rightarrow> Inl e | Inr root \<Rightarrow>
     (case relative_path (rt_path target) of Inl e \<Rightarrow> Inl e | Inr relative \<Rightarrow>
     (case map_err map_io_error (fs_canonicalize fs (push root relative)) of
        Inl e \<Rightarrow> Inl e | Inr candidate \<Rightarrow>
     (if \<not> path_starts_with candidate root then Inl Forbidden
      else (case map_err map_io_error (fs_metadata fs candidate) of Inl e \<Rightarrow> Inl e | Inr md \<Rightarrow>
           (case resolve_index fs root candidate md of Inl e \<Rightarrow> Inl e | Inr (candidate', md') \<Rightarrow>
            if \<not> md_is_file md' then Inl NotFound else Inr (candidate', md'))))))))"

record mime =
  mime_type :: bytes
  mime_subtype :: bytes
  mime_essence :: bytes

text \<open>\<open>from_path\<close> stands for \<open>mime_guess::from_path(path).first_or_octet_stream()\<close>.\<close>

definition content_type :: "(bytes \<Rightarrow> mime) \<Rightarrow> bytes \<Rightarrow> bytes" where
  "content_type from_path path = (let mime = from_path path in
     if mime_type mime = ''text'' \<or> mime_subtype mime \<in> {''javascript'', ''json'', ''xml''}
     then mime_essence mime @ ''; charset=utf-8''
     else mime_essence mime)"

section \<open>Files served from memory\<close>

definition serve_static ::
  "fs \<Rightarrow> (bytes \<Rightarrow> mime) \<Rightarrow> bytes \<Rightarrow> bytes \<Rightarrow> bytes \<Rightarrow> static_error + static_file" where
  "serve_static fs from_path root method raw_target =
     (if method \<noteq> ''GET'' \<and> method \<noteq> ''HEAD'' then Inl MethodNotAllowed
      else (case resolve_static_path fs root raw_target of
              Inl e \<Rightarrow> Inl e
            | Inr (candidate, md) \<Rightarrow>
                if md_len md > MAX_IN_MEMORY_STATIC_FILE_SIZE then Inl TooLarge
                else (case map_err map_io_error (fs_read fs candidate) of
                        Inl e \<Rightarrow> Inl e
                      | Inr bs \<Rightarrow> Inr \<lparr>sf_bytes = bs, sf_content_type = content_type from_path candidate,
                          sf_content_length = md_len md\<rparr>)))"

definition static_error_response :: "static_error \<Rightarrow> bytes" where
  "static_error_response e =
     (let response = (\<lambda>status body. response_bytes_with_body status ''text/plain; charset=utf-8'' body True)
      in case e of
        BadRequest \<Rightarrow> response 400 ''bad request''
      | Forbidden \<Rightarrow> response 403 ''forbidden''
      | MethodNotAllowed \<Rightarrow> response 405 ''method not allowed''
      | NotFound \<Rightarrow> response 404 ''not found''
      | TooLarge \<Rightarrow> response 413 ''file too large''
      | RangeNotSatisfiable \<Rightarrow> response 416 ''range not satisfiable''
      | StaticIo _ \<Rightarrow> response 500 ''internal server error'')"

definition static_response_bytes ::
  "fs \<Rightarrow> (bytes \<Rightarrow> mime) \<Rightarrow> bytes \<Rightarrow> bytes \<Rightarrow> bytes \<Rightarrow> bytes" where
  "static_response_bytes fs from_path root method raw_target =
     (case serve_static fs from_path root method raw_target of
        Inr file \<Rightarrow> response_bytes_with_body 200 (sf_content_type file) (sf_bytes file) (method \<noteq> ''HEAD'')
      | Inl e \<Rightarrow> static_error_response e)"

section \<open>Byte ranges\<close>

definition range_bounds :: "bytes \<Rightarrow> bytes \<Rightarrow> u64 \<Rightarrow> static_error + u64 \<times> u64" where
  "range_bounds start0 end0 len =
     (if start0 = [] then
        (case parse_u64 end0 of
           None \<Rightarrow> Inl BadRequest
         | Some sfx \<Rightarrow>
             if sfx = 0 then Inl RangeNotSatisfiable else Inr (saturating_sub len sfx, len - 1))
      else
        (case parse_u64 start0 of
           None \<Rightarrow> Inl BadRequest
         | Some start \<Rightarrow>
             (case (if end0 = [] then Some (len - 1) else parse_u64 end0) of
                None \<Rightarrow> Inl BadRequest
              | Some stop \<Rightarrow> Inr (start, min stop (len - 1)))))"

definition parse_range :: "bytes \<Rightarrow> u64 \<Rightarrow> static_error + u64 \<times> u64" where
  "parse_range v len = (case strip_prefix ''bytes='' v of
     None \<Rightarrow> Inl BadRequest
   | Some value \<Rightarrow>
       if CHR '','' \<in> set value \<or> len = 0 then Inl RangeNotSatisfiable
       else (case split_once (CHR ''-'') value of
               None \<Rightarrow> Inl BadRequest
             | Some (start0, end0) \<Rightarrow>
                 (case range_bounds start0 end0 len of
                    Inl e \<Rightarrow> Inl e
                  | Inr (start, stop) \<Rightarrow>
                      if start \<ge> len \<or> start > stop then Inl RangeNotSatisfiable
                      else Inr (start, stop))))"

section \<open>Streaming\<close>

text \<open>
  The streaming thread and its \<open>sync_channel(2)\<close>: \<open>ss_todo\<close> are the messages the thread has yet to
  send, \<open>ss_queue\<close> the messages in the channel, \<open>ss_sender\<close> whether the sender is still alive and
  \<open>ss_receiver\<close> whether the receiver is. The thread reads the file it opened: reading past its
  end is the error of \<open>read_exact\<close>, seeking beyond \<open>i64::MAX\<close> the error of \<open>lseek\<close>.
\<close>

type_synonym stream_message = "io_error + bytes"

record static_stream =
  ss_todo :: "stream_message list"
  ss_queue :: "stream_message list"
  ss_sender :: bool
  ss_receiver :: bool

datatype static_chunk = Data bytes | Pending | Finished

definition unexpected_eof :: io_error where
  "unexpected_eof = Custom KUnexpectedEof ''failed to fill whole buffer''"

function file_chunks :: "bytes \<Rightarrow> nat \<Rightarrow> nat \<Rightarrow> stream_message list" where
  "file_chunks contents pos remaining =
     (if remaining > 0 then
        let n = min STREAM_CHUNK_SIZE remaining
        in if pos + n \<le> length contents
           then Inr (take n (drop pos contents)) # file_chunks contents (pos + n) (remaining - n)
           else [Inl unexpected_eof]
      else [])"
  by pat_completeness auto
termination by (relation "measure (\<lambda>(_, _, remaining). remaining)") (auto simp: STREAM_CHUNK_SIZE_def)

declare file_chunks.simps [simp del]

definition stream_messages :: "fs \<Rightarrow> bytes \<Rightarrow> u64 \<Rightarrow> u64 \<Rightarrow> stream_message list" where
  "stream_messages fs path start len = (case fs_open fs path of
     Inl e \<Rightarrow> [Inl e]
   | Inr contents \<Rightarrow>
       if unat start < 2 ^ 63 then file_chunks contents (unat start) (unat len)
       else [Inl (Os EINVAL)])"

definition spawn_file_stream :: "fs \<Rightarrow> bytes \<Rightarrow> u64 \<Rightarrow> u64 \<Rightarrow> static_stream" where
  "spawn_file_stream fs path start len =
     \<lparr>ss_todo = stream_messages fs path start len, ss_queue = [], ss_sender = True, ss_receiver = True\<rparr>"

text \<open>The receiving side.\<close>

definition try_next :: "static_stream \<Rightarrow> (io_error + static_chunk) \<times> static_stream" where
  "try_next s = (case ss_queue s of
     Inr bs # q \<Rightarrow> (Inr (Data bs), s\<lparr>ss_queue := q\<rparr>)
   | Inl e # q \<Rightarrow> (Inl e, s\<lparr>ss_queue := q\<rparr>)
   | [] \<Rightarrow> (Inr (if ss_sender s then Pending else Finished), s))"

text \<open>The sending side: a send blocks while two messages wait, and fails once the receiver is gone.\<close>

inductive producer_step :: "static_stream \<Rightarrow> static_stream \<Rightarrow> bool" where
  send: "\<lbrakk>ss_sender s; ss_receiver s; ss_todo s = m # ms; length (ss_queue s) < 2\<rbrakk>
    \<Longrightarrow> producer_step s (s\<lparr>ss_todo := ms, ss_queue := ss_queue s @ [m]\<rparr>)"
| stop: "\<lbrakk>ss_sender s; \<not> ss_receiver s; ss_todo s = m # ms\<rbrakk>
    \<Longrightarrow> producer_step s (s\<lparr>ss_todo := [], ss_sender := False\<rparr>)"
| finish: "\<lbrakk>ss_sender s; ss_todo s = []\<rbrakk>
    \<Longrightarrow> producer_step s (s\<lparr>ss_sender := False\<rparr>)"

inductive_cases producer_stepE: "producer_step s s'"

record static_stream_response =
  ssr_head :: bytes
  ssr_stream :: "static_stream option"

definition etag :: "metadata \<Rightarrow> bytes" where
  "etag md = [CHR 0x22] @ lower_hex (unat (md_len md)) @ ''-''
     @ lower_hex (case md_modified md of Some s \<Rightarrow> unat s | None \<Rightarrow> 0) @ [CHR 0x22]"

definition requested_range :: "request_head \<Rightarrow> u64 \<Rightarrow> static_error + (u64 \<times> u64) option" where
  "requested_range request len =
     (case find (\<lambda>h. header_name h = ''range'') (req_headers request) of
        None \<Rightarrow> Inr None
      | Some h \<Rightarrow> (case parse_range (header_value h) len of Inl e \<Rightarrow> Inl e | Inr r \<Rightarrow> Inr (Some r)))"

definition static_stream_head :: "bytes \<Rightarrow> u16 \<Rightarrow> bytes \<Rightarrow> u64 \<Rightarrow> u64 \<Rightarrow> u64 \<Rightarrow> u64 \<Rightarrow> bytes" where
  "static_stream_head ct status tag start stop len response_length =
     ''HTTP/1.1 '' @ dec (unat status) @ '' '' @ (if status = 206 then ''Partial Content'' else ''OK'') @ crlf
   @ ''Content-Type: '' @ ct @ crlf
   @ ''Content-Length: '' @ dec (unat response_length) @ crlf
   @ ''Accept-Ranges: bytes'' @ crlf
   @ ''ETag: '' @ tag @ crlf
   @ ''Cache-Control: public, max-age=3600'' @ crlf
   @ (if status = 206
      then ''Content-Range: bytes '' @ dec (unat start) @ ''-'' @ dec (unat stop) @ ''/'' @ dec (unat len) @ crlf
      else [])
   @ ''Connection: close'' @ crlf @ crlf"

definition static_stream_response ::
  "fs \<Rightarrow> (bytes \<Rightarrow> mime) \<Rightarrow> bytes \<Rightarrow> request_head \<Rightarrow> static_error + static_stream_response" where
  "static_stream_response fs from_path root request =
     (if req_method request \<noteq> ''GET'' \<and> req_method request \<noteq> ''HEAD'' then Inl MethodNotAllowed
      else (case resolve_static_path fs root (req_target request) of Inl e \<Rightarrow> Inl e | Inr (path, md) \<Rightarrow>
        let len = md_len md; tag = etag md in
        if list_ex (\<lambda>h. header_name h = ''if-none-match'' \<and> header_value h = tag) (req_headers request)
        then Inr \<lparr>ssr_head = ''HTTP/1.1 304 Not Modified'' @ crlf @ ''ETag: '' @ tag @ crlf
               @ ''Cache-Control: public, max-age=3600'' @ crlf @ ''Connection: close'' @ crlf @ crlf,
             ssr_stream = None\<rparr>
        else (case requested_range request len of Inl e \<Rightarrow> Inl e | Inr rng \<Rightarrow>
          let (status, start, stop) = (case rng of
                None \<Rightarrow> (200, 0, saturating_sub len 1) | Some (a, b) \<Rightarrow> (206, a, b));
              response_length = (if len = 0 then 0 else stop - start + 1)
          in Inr \<lparr>ssr_head = static_stream_head (content_type from_path path) status tag start stop len
                 response_length,
               ssr_stream = (if req_method request = ''GET'' \<and> response_length > 0
                 then Some (spawn_file_stream fs path start response_length) else None)\<rparr>)))"

section \<open>Properties of targets and paths\<close>

text \<open>The reference encoder: every byte as a percent sign and two hexadecimal digits.\<close>

definition encode_byte :: "byte \<Rightarrow> bytes" where
  "encode_byte c = [CHR ''%'', hex_digit (bv c div 16), hex_digit (bv c mod 16)]"

lemma hex_hex_digit: "d < 16 \<Longrightarrow> hex (hex_digit d) = Some (of_nat d)"
  by (auto simp: hex_def hex_digit_def Let_def)

lemma bv_div_16: "bv c div 16 < 16"
proof -
  have "bv c < 256" by simp
  then show ?thesis by (simp add: div_less_iff_less_mult)
qed

lemma hex_byte_bv: "hex_byte (of_nat (bv c div 16)) (of_nat (bv c mod 16)) = c"
proof -
  note d = bv_div_16[of c]
  then have u: "unat (of_nat (bv c div 16) :: u8) = bv c div 16"
    "unat (of_nat (bv c mod 16) :: u8) = bv c mod 16"
    by (simp_all add: unat_of_nat_small)
  have "unat (or (push_bit 4 (of_nat (bv c div 16) :: u8)) (of_nat (bv c mod 16)))
      = bv c div 16 * 2 ^ 4 + bv c mod 16"
    using d by (subst unat_pack) (simp_all only: u, simp_all)
  then show ?thesis by (simp add: hex_byte_def)
qed

lemma percent_decode_escape:
  "percent_decode (encode_byte c @ rest) =
     (case percent_decode rest of Inl e \<Rightarrow> Inl e | Inr d \<Rightarrow> Inr (c # d))"
  using hex_byte_bv[of c] bv_div_16[of c]
  by (simp add: encode_byte_def hex_hex_digit split: sum.splits)

text \<open>
  Percent decoding inverts percent encoding: any byte string, each byte either written as
  itself (when it is not a percent sign) or as an escape, decodes to that string.
\<close>

theorem percent_decode_encode:
  assumes "\<forall>c \<in> set s. esc c \<or> c \<noteq> CHR ''%''"
  shows "percent_decode (concat (map (\<lambda>c. if esc c then encode_byte c else [c]) s)) = Inr s"
  using assms
proof (induction s)
  case Nil
  then show ?case by simp
next
  case (Cons c s)
  then show ?case
    by (cases "esc c") (auto simp: percent_decode_escape)
qed

theorem percent_decode_encode_witness: "percent_decode ''/%2e%2e'' = Inr ''/..''"
proof -
  have "concat (map (\<lambda>c. if c = CHR ''.'' then encode_byte c else [c]) ''/..'') = ''/%2e%2e''"
    by code_simp
  with percent_decode_encode[of "''/..''" "\<lambda>c. c = CHR ''.''"] show ?thesis
    by (simp del: percent_decode.simps)
qed

lemma relative_loop_Inr:
  assumes "relative_loop rel cs = Inr q" and "\<And>s. Normal s \<in> set cs \<Longrightarrow> plain_name s"
  shows "components q = components rel @ filter (\<lambda>c. c \<noteq> RootDir) cs
    \<and> set cs \<subseteq> insert RootDir (range Normal)"
  using assms
  by (induction rel cs rule: relative_loop.induct) (auto simp: components_push)

lemma components_Nil [simp]: "components [] = []"
  by (simp add: components_def body_components_def)

text \<open>
  A relative path that is accepted consists of the normal components of the decoded path,
  in order: no parent, current-directory or root component is left in it.
\<close>

theorem relative_path_normal:
  assumes "relative_path p = Inr q"
  shows "components q = filter (\<lambda>c. c \<noteq> RootDir) (components p)
       \<and> (\<forall>c \<in> set (components q). \<exists>s. c = Normal s \<and> plain_name s)"
proof -
  have n: "Normal s \<in> set (components p) \<Longrightarrow> plain_name s" for s by (rule normal_components_plain)
  note r = relative_loop_Inr[OF assms[unfolded relative_path_def] n]
  then show ?thesis using n by auto
qed

theorem relative_path_normal_witness:
  "components ''a/b'' = filter (\<lambda>c. c \<noteq> RootDir) (components ''/a//./b'')
   \<and> components ''a/b'' = [Normal ''a'', Normal ''b'']"
proof -
  have "relative_path ''/a//./b'' = Inr ''a/b''" "components ''a/b'' = [Normal ''a'', Normal ''b'']"
    by code_simp+
  with relative_path_normal[of "''/a//./b''" "''a/b''"] show ?thesis by blast
qed



definition sample_fs :: "bytes \<Rightarrow> fs" where
  "sample_fs contents = \<lparr>
     fs_canonicalize = (\<lambda>p. Inr (if p = ''www'' then ''/srv/www'' else p)),
     fs_metadata = (\<lambda>p. Inr \<lparr>md_len = of_nat (length contents), md_is_dir = False, md_is_file = True,
       md_modified = Some 255\<rparr>),
     fs_read = (\<lambda>p. Inr contents), fs_open = (\<lambda>p. Inr contents)\<rparr>"

lemma sample_resolved:
  "resolve_static_path (sample_fs ''hello'') ''www'' ''/a.txt?v=1'' = Inr (''/srv/www/a.txt'',
     \<lparr>md_len = 5, md_is_dir = False, md_is_file = True, md_modified = Some 255\<rparr>)"
proof -
  have p: "parse_request_target ''/a.txt?v=1'' = Inr \<lparr>rt_path = ''/a.txt'', rt_query = Some ''v=1''\<rparr>"
    "relative_path ''/a.txt'' = Inr ''a.txt''" "push ''/srv/www'' ''a.txt'' = ''/srv/www/a.txt''"
    "path_starts_with ''/srv/www/a.txt'' ''/srv/www''"
    by code_simp+
  show ?thesis
    by (simp add: resolve_static_path_def p resolve_index_def sample_fs_def map_err_def)
qed


section \<open>Properties of ranges and streams\<close>

lemma parse_range_len:
  assumes "parse_range v len = Inr (start, stop)"
  shows "len \<noteq> 0" "start \<le> stop" "stop < len"
    "unat (stop - start + 1) = unat stop - unat start + 1" "unat start + unat (stop - start + 1) \<le> unat len"
proof -
  from assms show nz: "len \<noteq> 0" and le: "start \<le> stop"
    by (auto simp: parse_range_def not_le not_less split: option.splits if_splits sum.splits)
  from assms have "stop \<le> len - 1"
    by (auto simp: parse_range_def range_bounds_def split: option.splits if_splits sum.splits)
  then have "unat stop \<le> unat len - 1" using nz by (simp add: word_le_nat_alt unat_minus_one)
  moreover have "0 < unat len" using nz by (simp add: unat_gt_0)
  ultimately have s: "unat stop < unat len" by linarith
  then show "stop < len" by (simp add: word_less_nat_alt)
  have d: "unat (stop - start) = unat stop - unat start" using le by (simp add: unat_sub word_le_nat_alt)
  have "unat (stop - start) + 1 < 2 ^ 64" unfolding d using s unat_bound[of len] by simp
  then show n: "unat (stop - start + 1) = unat stop - unat start + 1"
    using unat_Suc_small[of "stop - start"] d by simp
  show "unat start + unat (stop - start + 1) \<le> unat len"
    unfolding n using s le by (simp add: word_le_nat_alt)
qed

text \<open>
  C31. Byte ranges: an accepted range is inside the file and not empty, so the length computed
  from it neither underflows nor exceeds the file.
\<close>

theorem parse_range_bounds:
  assumes "parse_range v len = Inr (start, stop)"
  shows "start \<le> stop \<and> stop < len \<and> unat (stop - start + 1) = unat stop - unat start + 1
       \<and> unat (stop - start + 1) \<le> unat len"
  using parse_range_len[OF assms] by simp

theorem parse_range_bounds_witness:
  "unat (9 - 7 + 1 :: u64) \<le> unat (10 :: u64) \<and> parse_range ''bytes=-3'' 10 = Inr (7, 9)"
proof -
  have "parse_range ''bytes=-3'' 10 = Inr (7, 9)"
    by (simp add: parse_range_def split_once_def range_bounds_def parse_u64_def digits_value_def
        is_ascii_digit_def saturating_sub_def)
  with parse_range_bounds[OF this] show ?thesis by blast
qed

fun good_data :: "stream_message list \<Rightarrow> bytes" where
  "good_data [] = []"
| "good_data (Inr bs # ms) = bs @ good_data ms"
| "good_data (Inl e # ms) = good_data ms"

lemma file_chunks_complete:
  assumes "pos + remaining \<le> length contents"
  shows "good_data (file_chunks contents pos remaining) = take remaining (drop pos contents)
       \<and> (\<forall>m \<in> set (file_chunks contents pos remaining).
            \<exists>bs. m = Inr bs \<and> bs \<noteq> [] \<and> length bs \<le> STREAM_CHUNK_SIZE)"
  using assms
proof (induction contents pos remaining rule: file_chunks.induct)
  case (1 contents pos remaining)
  show ?case
  proof (cases "remaining = 0")
    case True
    then show ?thesis by (simp add: file_chunks.simps)
  next
    case False
    let ?n = "min STREAM_CHUNK_SIZE remaining"
    have n: "0 < ?n" "?n \<le> remaining" using False by (auto simp: STREAM_CHUNK_SIZE_def)
    have fits: "pos + ?n \<le> length contents" using "1.prems" by simp
    have eq: "file_chunks contents pos remaining
        = Inr (take ?n (drop pos contents)) # file_chunks contents (pos + ?n) (remaining - ?n)"
      using False fits by (subst file_chunks.simps) (simp add: Let_def)
    have ih: "good_data (file_chunks contents (pos + ?n) (remaining - ?n))
          = take (remaining - ?n) (drop (pos + ?n) contents)"
      "\<forall>m \<in> set (file_chunks contents (pos + ?n) (remaining - ?n)).
            \<exists>bs. m = Inr bs \<and> bs \<noteq> [] \<and> length bs \<le> STREAM_CHUNK_SIZE"
      using "1.IH"[of ?n] False fits "1.prems" n(2) by auto
    have "take ?n (drop pos contents) @ take (remaining - ?n) (drop (pos + ?n) contents)
        = take remaining (drop pos contents)"
      using take_add[of ?n "remaining - ?n" "drop pos contents"] n(2) by (simp add: add.commute)
    moreover have "take ?n (drop pos contents) \<noteq> []" "length (take ?n (drop pos contents)) \<le> STREAM_CHUNK_SIZE"
      using n(1) fits by auto
    ultimately show ?thesis unfolding eq using ih by simp
  qed
qed

text \<open>
  Runs of a stream: producer steps, calls of \<open>try_next\<close> and the drop of the receiver, interleaved
  in any order, with the messages received so far.
\<close>

fun received :: "io_error + static_chunk \<Rightarrow> stream_message list" where
  "received (Inr (Data bs)) = [Inr bs]"
| "received (Inl e) = [Inl e]"
| "received (Inr Pending) = []"
| "received (Inr Finished) = []"

inductive stream_run :: "static_stream \<Rightarrow> stream_message list \<Rightarrow> static_stream \<Rightarrow> bool"
  for s0 where
  init: "stream_run s0 [] s0"
| produce: "stream_run s0 rs s \<Longrightarrow> producer_step s s' \<Longrightarrow> stream_run s0 rs s'"
| consume: "stream_run s0 rs s \<Longrightarrow> ss_receiver s \<Longrightarrow> try_next s = (r, s')
    \<Longrightarrow> stream_run s0 (rs @ received r) s'"
| hangup: "stream_run s0 rs s \<Longrightarrow> stream_run s0 rs (s\<lparr>ss_receiver := False\<rparr>)"

definition stream_inv :: "stream_message list \<Rightarrow> stream_message list \<Rightarrow> static_stream \<Rightarrow> bool" where
  "stream_inv ms rs s \<longleftrightarrow> length (ss_queue s) \<le> 2
     \<and> (\<not> ss_sender s \<longrightarrow> ss_todo s = [])
     \<and> prefix (rs @ ss_queue s) ms
     \<and> (ss_receiver s \<longrightarrow> rs @ ss_queue s @ ss_todo s = ms)"

lemma stream_inv_produce:
  assumes "stream_inv ms rs s" and "producer_step s s'"
  shows "stream_inv ms rs s'"
  using assms(2,1)
  by cases (auto simp: stream_inv_def prefix_def)

lemma stream_inv_consume:
  assumes "stream_inv ms rs s" and "try_next s = (r, s')"
  shows "stream_inv ms (rs @ received r) s'"
  using assms by (auto simp: stream_inv_def try_next_def split: list.splits sum.splits if_splits)

lemma stream_run_inv:
  assumes "stream_run (spawn_file_stream fs path start len) rs s"
  shows "stream_inv (stream_messages fs path start len) rs s"
  using assms
proof induction
  case init
  then show ?case by (simp add: stream_inv_def spawn_file_stream_def)
next
  case (hangup rs s)
  then show ?case by (simp add: stream_inv_def)
qed (blast intro: stream_inv_produce stream_inv_consume)+

text \<open>
  Streaming in any interleaving: at most two chunks are ever buffered, what the receiver has
  seen is a prefix of what the thread reads, and when it sees the end it has seen everything.
\<close>

theorem stream_delivers:
  assumes "stream_run (spawn_file_stream fs path start len) rs s"
  shows "length (ss_queue s) \<le> 2 \<and> prefix rs (stream_messages fs path start len)
       \<and> (ss_receiver s \<and> fst (try_next s) = Inr Finished \<longrightarrow> rs = stream_messages fs path start len)"
  using stream_run_inv[OF assms]
  by (auto simp: stream_inv_def try_next_def dest: append_prefixD split: list.splits sum.splits if_splits)

theorem stream_delivers_witness:
  "stream_messages (sample_fs ''hello'') ''f'' 1 3 = [Inr ''ell'']
   \<and> prefix [] (stream_messages (sample_fs ''hello'') ''f'' 1 3)"
  using stream_delivers[OF stream_run.init, of "sample_fs ''hello''" "''f''" 1 3]
  by (simp add: stream_messages_def sample_fs_def file_chunks.simps STREAM_CHUNK_SIZE_def)

definition stream_measure :: "static_stream \<Rightarrow> nat" where
  "stream_measure s = 2 * length (ss_todo s) + length (ss_queue s) + (if ss_sender s then 1 else 0)"

lemma stream_pending_progress:
  assumes "fst (try_next s) = Inr Pending" and "ss_receiver s"
  shows "\<exists>s'. producer_step s s' \<and> ss_receiver s' \<and> stream_measure s' < stream_measure s"
proof (cases "ss_todo s")
  case Nil
  have "ss_sender s" using assms(1) by (auto simp: try_next_def split: list.splits sum.splits if_splits)
  with Nil have "producer_step s (s\<lparr>ss_sender := False\<rparr>)" by (intro finish)
  with \<open>ss_sender s\<close> assms(2) show ?thesis by (force simp: stream_measure_def)
next
  case (Cons m ms)
  have "ss_sender s" "ss_queue s = []"
    using assms(1) by (auto simp: try_next_def split: list.splits sum.splits if_splits)
  with Cons assms(2) have "producer_step s (s\<lparr>ss_todo := ms, ss_queue := ss_queue s @ [m]\<rparr>)"
    by (intro send) auto
  with Cons assms(2) show ?thesis by (force simp: stream_measure_def)
qed

lemma stream_consume_progress:
  assumes "try_next s = (r, s')" and "r \<noteq> Inr Pending" and "r \<noteq> Inr Finished"
  shows "stream_measure s' < stream_measure s \<and> ss_receiver s' = ss_receiver s"
  using assms by (auto simp: try_next_def stream_measure_def split: list.splits sum.splits if_splits)

text \<open>
  The stream never gets stuck: from every reachable state with a live receiver, the thread
  and the receiver can go on until the receiver sees the end.
\<close>

theorem stream_can_finish:
  assumes "stream_run s0 rs s" and "ss_receiver s"
  shows "\<exists>rs' s'. stream_run s0 rs' s' \<and> ss_receiver s' \<and> prefix rs rs' \<and> fst (try_next s') = Inr Finished"
  using assms
proof (induction "stream_measure s" arbitrary: rs s rule: less_induct)
  case less
  obtain r s1 where r: "try_next s = (r, s1)" by (cases "try_next s")
  consider "r = Inr Finished" | "r = Inr Pending" | "r \<noteq> Inr Pending" "r \<noteq> Inr Finished" by blast
  then show ?case
  proof cases
    case 1
    with less.prems r show ?thesis by force
  next
    case 2
    with r obtain s' where "producer_step s s'" "ss_receiver s'" "stream_measure s' < stream_measure s"
      using stream_pending_progress[of s] less.prems(2) by auto
    then show ?thesis using less.hyps[of s' rs] less.prems(1) produce by blast
  next
    case 3
    note m = stream_consume_progress[OF r 3]
    have "stream_run s0 (rs @ received r) s1" using less.prems r by (intro consume)
    with less.hyps[of s1 "rs @ received r"] m less.prems(2) show ?thesis
      by (meson append_prefixD)
  qed
qed

theorem stream_can_finish_witness:
  "\<exists>rs' s'. stream_run (spawn_file_stream (sample_fs ''hello'') ''f'' 1 3) rs' s'
     \<and> fst (try_next s') = Inr Finished"
  using stream_can_finish[OF stream_run.init, of "spawn_file_stream (sample_fs ''hello'') ''f'' 1 3"]
  by (auto simp: spawn_file_stream_def)

section \<open>The streamed response\<close>

definition static_head_lines :: "bytes \<Rightarrow> u16 \<Rightarrow> bytes \<Rightarrow> u64 \<Rightarrow> u64 \<Rightarrow> u64 \<Rightarrow> u64 \<Rightarrow> bytes list" where
  "static_head_lines ct status tag start stop len n =
     [header_line ''Content-Type'' ct, header_line ''Content-Length'' (dec (unat n)),
      header_line ''Accept-Ranges'' ''bytes'', header_line ''ETag'' tag,
      header_line ''Cache-Control'' ''public, max-age=3600'']
   @ (if status = 206 then [header_line ''Content-Range''
        (''bytes '' @ dec (unat start) @ ''-'' @ dec (unat stop) @ ''/'' @ dec (unat len))] else [])
   @ [header_line ''Connection'' ''close'']"

lemma static_stream_head_lines:
  "static_stream_head ct status tag start stop len n =
     print_head (''HTTP/1.1 '' @ dec (unat status) @ '' ''
         @ (if status = 206 then ''Partial Content'' else ''OK''))
       (static_head_lines ct status tag start stop len n)"
  by (simp add: static_stream_head_def static_head_lines_def print_head_def header_line_def)

text \<open>What a response with a stream was built from.\<close>

lemma static_stream_response_stream:
  assumes "static_stream_response fs from_path root request = Inr resp" and "ssr_stream resp = Some s0"
    and "resolve_static_path fs root (req_target request) = Inr (path, md)"
  obtains status start n stop where
    "ssr_head resp = static_stream_head (content_type from_path path) status (etag md) start stop (md_len md) n"
    "s0 = spawn_file_stream fs path start n" "unat start + unat n \<le> unat (md_len md)" "0 < unat n"
proof -
  obtain rng where rng: "requested_range request (md_len md) = Inr rng"
    using assms by (auto simp: static_stream_response_def Let_def split: if_splits sum.splits)
  define start where "start = (case rng of None \<Rightarrow> 0 | Some (a, b) \<Rightarrow> a)"
  define stop where "stop = (case rng of None \<Rightarrow> saturating_sub (md_len md) 1 | Some (a, b) \<Rightarrow> b)"
  define status :: u16 where "status = (case rng of None \<Rightarrow> 200 | Some _ \<Rightarrow> 206)"
  define n where "n = (if md_len md = 0 then 0 else stop - start + 1)"
  have resp: "ssr_head resp = static_stream_head (content_type from_path path) status (etag md) start stop (md_len md) n"
    "s0 = spawn_file_stream fs path start n" "0 < n"
    using assms rng unfolding n_def start_def stop_def status_def
    by (auto simp: static_stream_response_def Let_def split: if_splits option.splits)
  have "unat start + unat n \<le> unat (md_len md)"
  proof (cases rng)
    case None
    have "md_len md \<noteq> 0" using resp(3) by (auto simp: n_def split: if_splits)
    moreover from this have "1 \<le> md_len md" by (simp add: word_le_nat_alt Suc_le_eq unat_gt_0)
    ultimately have "n = md_len md" using None
      by (simp add: n_def start_def stop_def saturating_sub_def)
    then show ?thesis using None by (simp add: start_def)
  next
    case (Some ab)
    then have "\<exists>v. parse_range v (md_len md) = Inr (start, stop)"
      using rng by (auto simp: requested_range_def start_def stop_def split: option.splits sum.splits prod.splits)
    then obtain v where v: "parse_range v (md_len md) = Inr (start, stop)" ..
    note b = parse_range_len[OF v]
    then have "n = stop - start + 1" by (auto simp: n_def)
    with b show ?thesis by simp
  qed
  moreover have "0 < unat n" using resp(3) by (simp add: word_less_nat_alt)
  ultimately show thesis using that resp(1,2) by blast
qed

text \<open>
  C16. The declared length is the delivered length: for a file whose size is the one in its
  metadata, a receiver that reads the stream of a response to the end, in any interleaving, has
  received exactly as many bytes as the Content-Length of the head says, without an error, and
  they are a contiguous part of the file.
\<close>

theorem static_stream_delivers_declared:
  assumes "static_stream_response fs from_path root request = Inr resp" and "ssr_stream resp = Some s0"
    and "resolve_static_path fs root (req_target request) = Inr (path, md)"
    and "fs_open fs path = Inr contents" and "length contents = unat (md_len md)"
    and "length contents < 2 ^ 63"
    and "stream_run s0 rs s" and "ss_receiver s" and "fst (try_next s) = Inr Finished"
  shows "\<exists>status_line ls start n. ssr_head resp = print_head status_line ls
       \<and> header_line ''Content-Length'' (dec n) \<in> set ls
       \<and> good_data rs = take n (drop start contents) \<and> length (good_data rs) = n
       \<and> (\<forall>m \<in> set rs. isl m = False)"
proof -
  obtain status start n stop where
    hd: "ssr_head resp = static_stream_head (content_type from_path path) status (etag md) start stop (md_len md) n"
    and s0: "s0 = spawn_file_stream fs path start n" and le: "unat start + unat n \<le> unat (md_len md)"
    by (rule static_stream_response_stream[OF assms(1-3)])
  have rs: "rs = stream_messages fs path start n"
    using stream_run_inv[OF assms(7)[unfolded s0]] assms(8,9)
    by (auto simp: stream_inv_def try_next_def split: list.splits sum.splits if_splits)
  have "rs = file_chunks contents (unat start) (unat n)"
    unfolding rs stream_messages_def using assms(4-6) le by simp
  with file_chunks_complete[of "unat start" "unat n" contents] le assms(5)
  have data: "good_data rs = take (unat n) (drop (unat start) contents)" "\<forall>m \<in> set rs. isl m = False"
    by fastforce+
  have "header_line ''Content-Length'' (dec (unat n))
      \<in> set (static_head_lines (content_type from_path path) status (etag md) start stop (md_len md) n)"
    by (simp add: static_head_lines_def)
  moreover have "length (good_data rs) = unat n" using data(1) le assms(5) by simp
  ultimately show ?thesis unfolding hd static_stream_head_lines using data by blast
qed

definition sample_get :: request_head where
  "sample_get = \<lparr>req_method = ''GET'', req_target = ''/a.txt?v=1'', req_version = Http11,
     req_headers = [\<lparr>header_name = ''range'', header_value = ''bytes=1-3''\<rparr>]\<rparr>"

definition sample_mime :: "bytes \<Rightarrow> mime" where
  "sample_mime p = \<lparr>mime_type = ''text'', mime_subtype = ''plain'', mime_essence = ''text/plain''\<rparr>"

lemma sample_run:
  assumes "s0 = spawn_file_stream (sample_fs ''hello'') ''/srv/www/a.txt'' 1 3"
  shows "stream_run s0 [Inr ''ell''] (s0\<lparr>ss_todo := [], ss_queue := [], ss_sender := False\<rparr>)"
proof -
  have todo: "ss_todo s0 = [Inr ''ell'']" "ss_queue s0 = []" "ss_sender s0" "ss_receiver s0"
    by (simp_all add: assms spawn_file_stream_def stream_messages_def sample_fs_def file_chunks.simps
        STREAM_CHUNK_SIZE_def)
  define s1 where "s1 = s0\<lparr>ss_todo := [], ss_queue := [Inr ''ell'']\<rparr>"
  have "producer_step s0 s1" using send[of s0 "Inr ''ell''" "[]"] todo by (simp add: s1_def)
  from produce[OF stream_run.init this] have "stream_run s0 [] s1" .
  moreover have "try_next s1 = (Inr (Data ''ell''), s1\<lparr>ss_queue := []\<rparr>)" "ss_receiver s1"
    using todo by (simp_all add: s1_def try_next_def)
  ultimately have "stream_run s0 [Inr ''ell''] (s1\<lparr>ss_queue := []\<rparr>)"
    using consume[of s0 "[]" s1] by force
  from produce[OF this finish] show ?thesis using todo by (simp add: s1_def)
qed

theorem static_stream_delivers_declared_witness:
  "\<exists>resp s0 status_line ls start n. static_stream_response (sample_fs ''hello'') sample_mime ''www'' sample_get = Inr resp
     \<and> ssr_stream resp = Some s0 \<and> ssr_head resp = print_head status_line ls
     \<and> header_line ''Content-Length'' (dec n) \<in> set ls \<and> ''ell'' = take n (drop start ''hello'') \<and> n = 3"
proof -
  let ?s0 = "spawn_file_stream (sample_fs ''hello'') ''/srv/www/a.txt'' 1 3"
  have rng: "parse_range ''bytes=1-3'' 5 = Inr (1, 3)"
    by (simp add: parse_range_def split_once_def range_bounds_def parse_u64_def digits_value_def
        is_ascii_digit_def word_le_nat_alt)
  then obtain resp where resp: "static_stream_response (sample_fs ''hello'') sample_mime ''www'' sample_get = Inr resp"
    "ssr_stream resp = Some ?s0"
    by (auto simp: static_stream_response_def sample_get_def sample_resolved requested_range_def)
  have res: "resolve_static_path (sample_fs ''hello'') ''www'' (req_target sample_get)
      = Inr (''/srv/www/a.txt'', \<lparr>md_len = 5, md_is_dir = False, md_is_file = True, md_modified = Some 255\<rparr>)"
    by (simp add: sample_get_def sample_resolved)
  let ?s = "?s0\<lparr>ss_todo := [], ss_queue := [], ss_sender := False\<rparr>"
  have s: "ss_receiver ?s" "fst (try_next ?s) = Inr Finished"
    by (simp_all add: spawn_file_stream_def try_next_def)
  have f: "fs_open (sample_fs ''hello'') ''/srv/www/a.txt'' = Inr ''hello''" by (simp add: sample_fs_def)
  have l: "length ''hello'' = unat (md_len
      \<lparr>md_len = 5, md_is_dir = False, md_is_file = True, md_modified = Some 255\<rparr>)"
    "length ''hello'' < 2 ^ 63"
    by simp_all
  obtain sl ls start n where h: "ssr_head resp = print_head sl ls"
    "header_line ''Content-Length'' (dec n) \<in> set ls"
    "good_data [Inr ''ell''] = take n (drop start ''hello'')" "length (good_data [Inr ''ell'']) = n"
    using static_stream_delivers_declared[OF resp res f l sample_run[OF refl] s] by blast
  from h(4) have "n = 3" by simp
  moreover from h(3) have "''ell'' = take n (drop start ''hello'')" by simp
  ultimately show ?thesis using resp h(1,2) by blast
qed

end
