(* ===== verification/Listener.thy ===== *)
theory Listener
  imports Config Rust_Io
begin

text \<open>
  Listeners, \<open>run/slave/src/listener.rs\<close>: grouping the configured servers by address and binding one
  socket per group. The socket calls (socket2) are a record of functions.
\<close>

section \<open>Binding\<close>

definition DEFAULT_BACKLOG :: int where "DEFAULT_BACKLOG = 1024"

record listener_group =
  lg_address :: socket_addr
  lg_default_server :: nat
  lg_server_indices :: "nat list"

record 's bound_listener_group =
  bl_socket :: 's
  bl_address :: socket_addr
  bl_default_server :: nat
  bl_server_indices :: "nat list"

record 's socket_ops =
  sock_new :: "socket_addr \<Rightarrow> io_error + 's"
  sock_set_reuse_address :: "'s \<Rightarrow> io_error + 's"
  sock_set_reuse_port :: "'s \<Rightarrow> io_error + 's"
  sock_set_nonblocking :: "'s \<Rightarrow> io_error + 's"
  sock_bind :: "'s \<Rightarrow> socket_addr \<Rightarrow> io_error + 's"
  sock_listen :: "'s \<Rightarrow> int \<Rightarrow> io_error + 's"

definition bind_worker_listener :: "'s socket_ops \<Rightarrow> socket_addr \<Rightarrow> int \<Rightarrow> io_error + 's" where
  "bind_worker_listener ops address backlog =
     (if backlog \<le> 0 then Inl (Custom KInvalidInput ''listener backlog must be greater than zero'')
      else (case sock_new ops address of Inl e \<Rightarrow> Inl e | Inr s0 \<Rightarrow>
           (case sock_set_reuse_address ops s0 of Inl e \<Rightarrow> Inl e | Inr s1 \<Rightarrow>
           (case sock_set_reuse_port ops s1 of Inl e \<Rightarrow> Inl e | Inr s2 \<Rightarrow>
           (case sock_set_nonblocking ops s2 of Inl e \<Rightarrow> Inl e | Inr s3 \<Rightarrow>
           (case sock_bind ops s3 address of Inl e \<Rightarrow> Inl e | Inr s4 \<Rightarrow>
            sock_listen ops s4 backlog))))))"

text \<open>One iteration of the grouping loop, and the loop over the enumerated servers.\<close>

definition group_server :: "listener_group list \<Rightarrow> nat \<Rightarrow> socket_addr \<Rightarrow> listener_group list" where
  "group_server groups server_index addr =
     (let (gs, k) = (case position (\<lambda>g. lg_address g = addr) groups of
            Some i \<Rightarrow> (groups, i)
          | None \<Rightarrow>
              (groups @ [\<lparr>lg_address = addr, lg_default_server = server_index, lg_server_indices = []\<rparr>],
               length groups))
      in gs[k := (gs ! k)\<lparr>lg_server_indices := lg_server_indices (gs ! k) @ [server_index]\<rparr>])"

fun group_loop :: "listener_group list \<Rightarrow> nat \<Rightarrow> server list \<Rightarrow> listener_group list" where
  "group_loop groups i [] = groups"
| "group_loop groups i (s # ss) = group_loop (group_server groups i (listen s)) (i + 1) ss"

definition listener_groups :: "server list \<Rightarrow> listener_group list" where
  "listener_groups servers = group_loop [] 0 servers"

definition bind_group :: "'s socket_ops \<Rightarrow> listener_group \<Rightarrow> io_error + 's bound_listener_group" where
  "bind_group ops g = (case bind_worker_listener ops (lg_address g) DEFAULT_BACKLOG of
     Inl e \<Rightarrow> Inl e
   | Inr socket \<Rightarrow> Inr \<lparr>bl_socket = socket, bl_address = lg_address g,
       bl_default_server = lg_default_server g, bl_server_indices = lg_server_indices g\<rparr>)"

definition bind_worker_listeners :: "'s socket_ops \<Rightarrow> config \<Rightarrow> io_error + 's bound_listener_group list" where
  "bind_worker_listeners ops c = collect_results (map (bind_group ops) (listener_groups (http_servers c)))"

section \<open>The groups partition the servers\<close>

definition group_ok :: "socket_addr list \<Rightarrow> listener_group \<Rightarrow> bool" where
  "group_ok xs g \<longleftrightarrow> lg_server_indices g = filter (\<lambda>i. xs ! i = lg_address g) [0..<length xs]
     \<and> lg_server_indices g \<noteq> [] \<and> lg_default_server g = hd (lg_server_indices g)"

definition groups_ok :: "socket_addr list \<Rightarrow> listener_group list \<Rightarrow> bool" where
  "groups_ok xs gs \<longleftrightarrow> distinct (map lg_address gs) \<and> lg_address ` set gs = set xs
     \<and> (\<forall>g \<in> set gs. group_ok xs g)"

lemma filter_upt_snoc:
  "filter (\<lambda>i. (xs @ [a]) ! i = b) [0..<length (xs @ [a])]
     = filter (\<lambda>i. xs ! i = b) [0..<length xs] @ (if a = b then [length xs] else [])"
proof -
  have "filter (\<lambda>i. (xs @ [a]) ! i = b) [0..<length xs] = filter (\<lambda>i. xs ! i = b) [0..<length xs]"
    by (rule filter_cong) (auto simp: nth_append)
  then show ?thesis by simp
qed

lemma group_ok_other: "group_ok xs g \<Longrightarrow> lg_address g \<noteq> a \<Longrightarrow> group_ok (xs @ [a]) g"
  by (simp only: group_ok_def filter_upt_snoc) auto

lemma group_ok_same:
  "group_ok xs g \<Longrightarrow> lg_address g = a
   \<Longrightarrow> group_ok (xs @ [a]) (g\<lparr>lg_server_indices := lg_server_indices g @ [length xs]\<rparr>)"
  by (simp only: group_ok_def filter_upt_snoc) auto

lemma group_ok_fresh:
  assumes "a \<notin> set xs"
  shows "group_ok (xs @ [a]) \<lparr>lg_address = a, lg_default_server = length xs, lg_server_indices = [length xs]\<rparr>"
proof -
  have "filter (\<lambda>i. xs ! i = a) [0..<length xs] = []" using assms by (auto simp: filter_empty_conv)
  then show ?thesis by (simp only: group_ok_def filter_upt_snoc) simp
qed

lemma groups_ok_step:
  assumes "groups_ok xs gs"
  shows "groups_ok (xs @ [a]) (group_server gs (length xs) a)"
proof (cases "position (\<lambda>g. lg_address g = a) gs")
  case None
  then have a: "a \<notin> lg_address ` set gs" by (auto simp: position_None_iff)
  have "group_server gs (length xs) a = gs @ [\<lparr>lg_address = a, lg_default_server = length xs,
      lg_server_indices = [length xs]\<rparr>]"
    using None by (simp add: group_server_def)
  moreover have "\<forall>g \<in> set gs. group_ok (xs @ [a]) g"
  proof
    fix g assume "g \<in> set gs"
    with assms a show "group_ok (xs @ [a]) g"
      by (intro group_ok_other) (auto simp: groups_ok_def)
  qed
  moreover have "a \<notin> set xs" using assms a by (simp add: groups_ok_def)
  ultimately show ?thesis using assms group_ok_fresh[of a xs] a by (simp add: groups_ok_def)
next
  case (Some k)
  then have k: "k < length gs" "lg_address (gs ! k) = a" by (auto simp: position_Some_iff)
  let ?g = "(gs ! k)\<lparr>lg_server_indices := lg_server_indices (gs ! k) @ [length xs]\<rparr>"
  have gs': "group_server gs (length xs) a = gs[k := ?g]" using Some by (simp add: group_server_def)
  have addr: "map lg_address (gs[k := ?g]) = map lg_address gs"
    using k by (simp add: map_update list_update_same_conv)
  have "group_ok (xs @ [a]) g" if mem: "g \<in> set (gs[k := ?g])" for g
  proof -
    obtain j where j: "j < length gs" "g = gs[k := ?g] ! j"
      using mem unfolding in_set_conv_nth length_list_update by blast
    have ok: "group_ok xs (gs ! j)" using assms j(1) by (simp add: groups_ok_def)
    show ?thesis
    proof (cases "j = k")
      case True
      with j k ok group_ok_same[of xs "gs ! k" a] show ?thesis by simp
    next
      case False
      have "lg_address (gs ! j) \<noteq> a"
        using assms k j(1) False nth_eq_iff_index_eq[of "map lg_address gs" j k] by (auto simp: groups_ok_def)
      with False j ok group_ok_other show ?thesis by simp
    qed
  qed
  moreover have "lg_address ` set (gs[k := ?g]) = lg_address ` set gs" using addr by (metis list.set_map)
  moreover have "a \<in> lg_address ` set gs" using k nth_mem by blast
  ultimately show ?thesis using assms addr unfolding gs' groups_ok_def by (metis insert_absorb list.set_map set_append Un_insert_right sup_bot_right list.set(1) list.set(2))
qed

lemma group_loop_ok:
  "groups_ok xs gs \<Longrightarrow> groups_ok (xs @ map listen ss) (group_loop gs (length xs) ss)"
proof (induction ss arbitrary: xs gs)
  case (Cons s ss)
  from Cons.IH[OF groups_ok_step[OF Cons.prems, of "listen s"]] show ?case by simp
qed simp

lemma listener_groups_ok: "groups_ok (map listen servers) (listener_groups servers)"
  using group_loop_ok[of "[]" "[]" servers] by (simp add: groups_ok_def listener_groups_def)

text \<open>
  The listener groups partition the configured servers: there is one group per distinct listen
  address, its members are exactly the servers with that address in configuration order, and its
  default server is the first of them.
\<close>

theorem listener_groups_partition:
  "distinct (map lg_address (listener_groups servers))
   \<and> lg_address ` set (listener_groups servers) = listen ` set servers
   \<and> (\<forall>g \<in> set (listener_groups servers).
        lg_server_indices g = filter (\<lambda>i. listen (servers ! i) = lg_address g) [0..<length servers]
      \<and> lg_server_indices g \<noteq> [] \<and> lg_default_server g = hd (lg_server_indices g))"
proof -
  have "filter (\<lambda>i. map listen servers ! i = a) [0..<length servers]
      = filter (\<lambda>i. listen (servers ! i) = a) [0..<length servers]" for a
    by (rule filter_cong) auto
  note eq = this
  have ok: "groups_ok (map listen servers) (listener_groups servers)" by (rule listener_groups_ok)
  show ?thesis
    using ok unfolding groups_ok_def group_ok_def length_map list.set_map eq by (elim conjE) (intro conjI)
qed

definition sample_servers :: "server list" where
  "sample_servers =
     [\<lparr>server_name = Some ''a'', locations = [], listen = SocketV4 0 80, ssl = None\<rparr>,
      \<lparr>server_name = Some ''b'', locations = [], listen = SocketV4 0 81, ssl = None\<rparr>,
      \<lparr>server_name = Some ''c'', locations = [], listen = SocketV4 0 80, ssl = None\<rparr>]"

theorem listener_groups_partition_witness:
  "map lg_server_indices (listener_groups sample_servers) = [[0, 2], [1]]
   \<and> distinct (map lg_address (listener_groups sample_servers))
   \<and> map lg_default_server (listener_groups sample_servers) = [0, 1]"
proof -
  have "map lg_server_indices (listener_groups sample_servers) = [[0, 2], [1]]"
    by (simp add: listener_groups_def group_server_def sample_servers_def)
  moreover have "map lg_default_server (listener_groups sample_servers)
      = map (hd \<circ> lg_server_indices) (listener_groups sample_servers)"
    using listener_groups_partition[of sample_servers] by simp
  ultimately show ?thesis using listener_groups_partition[of sample_servers]
    by (metis (no_types, lifting) list.map_comp list.sel(1) list.simps(8,9))
qed

text \<open>The bound groups are the listener groups, each with a socket listening on its address.\<close>

lemma bind_worker_listeners_Inr:
  assumes "bind_worker_listeners ops c = Inr bs"
  shows "list_all2 (\<lambda>g b. bl_address b = lg_address g \<and> bl_default_server b = lg_default_server g
      \<and> bl_server_indices b = lg_server_indices g
      \<and> bind_worker_listener ops (lg_address g) DEFAULT_BACKLOG = Inr (bl_socket b))
    (listener_groups (http_servers c)) bs"
proof -
  have "map (bind_group ops) (listener_groups (http_servers c)) = map Inr bs"
    using assms by (simp add: bind_worker_listeners_def collect_results_Inr_iff)
  then have "list_all2 (\<lambda>g b. bind_group ops g = Inr b) (listener_groups (http_servers c)) bs"
    by (simp add: list_all2_conv_all_nth list_eq_iff_nth_eq)
  then show ?thesis
    by (rule list_all2_mono) (auto simp: bind_group_def split: sum.splits)
qed

end
