(* ===== verification/Buffer_Ring.thy ===== *)
theory Buffer_Ring
  imports Rust_Io Config
begin

unbundle bit_operations_syntax

text \<open>
  The provided-buffer ring of the io_uring runtime, \<open>runtime/io_uring/buffer_ring.rs\<close>, the probe of
  the kernel's capabilities (\<open>capabilities.rs\<close>) and the runtime probe (\<open>io_uring/mod.rs\<close>). The ring is
  shown to be a FIFO queue of buffer ids, and the pool to keep every buffer in exactly one place: in
  the ring, or lent to a completion.
\<close>

section \<open>The ring\<close>

record ring_entry =
  re_addr :: nat
  re_len :: u32
  re_bid :: u16

text \<open>\<open>re_addr\<close> is the index of the buffer whose address the descriptor holds.\<close>

record buffer_ring =
  br_entries :: "ring_entry list"
  br_buffers :: "bytes list"
  br_mask :: u16
  br_tail :: u16
  br_buffer_len :: u32

definition publish :: "u16 \<Rightarrow> buffer_ring \<Rightarrow> unit outcome \<times> buffer_ring" where
  "publish i r =
     (let index = unat (br_tail r AND br_mask r) in
      if unat i < length (br_buffers r) then
        (Return (), r\<lparr>br_entries := (br_entries r)[index :=
             \<lparr>re_addr = unat i, re_len = br_buffer_len r, re_bid = i\<rparr>],
           br_tail := br_tail r + 1\<rparr>)
      else (Panic, r))"

definition copy_and_release :: "u16 \<Rightarrow> nat \<Rightarrow> buffer_ring \<Rightarrow> (io_error + bytes) outcome \<times> buffer_ring" where
  "copy_and_release i len r = (case get (br_buffers r) (unat i) of
     None \<Rightarrow> (Return (Inl (Custom KInvalidData ''kernel selected an invalid buffer ID'')), r)
   | Some buffer \<Rightarrow>
       if len > length buffer then
         (case publish i r of
            (Panic, r') \<Rightarrow> (Panic, r')
          | (Return _, r') \<Rightarrow>
              (Return (Inl (Custom KInvalidData ''receive completion exceeds its selected buffer'')), r'))
       else
         (case publish i r of
            (Panic, r') \<Rightarrow> (Panic, r')
          | (Return _, r') \<Rightarrow> (Return (Inr (take len buffer)), r')))"

fun publish_all :: "u16 list \<Rightarrow> buffer_ring \<Rightarrow> unit outcome \<times> buffer_ring" where
  "publish_all [] r = (Return (), r)"
| "publish_all (i # is) r = (case publish i r of
     (Panic, r') \<Rightarrow> (Panic, r') | (Return _, r') \<Rightarrow> publish_all is r')"

text \<open>
  What the operating system answers during registration: the page size, whether the layout is
  valid and the allocation succeeds, the last error, and the result of registering the ring.
\<close>

record ring_env =
  env_page_size :: int
  env_layout_ok :: bool
  env_alloc_ok :: bool
  env_last_os_error :: io_error
  env_register :: "io_error + unit"

definition register :: "ring_env \<Rightarrow> u32 \<Rightarrow> usize \<Rightarrow> (io_error + buffer_ring) outcome" where
  "register env entry_count buffer_size =
     (if entry_count = 0 \<or> \<not> is_power_of_two entry_count \<or> entry_count > 32768
      then Return (Inl (Custom KInvalidInput ''io_uring buf_ring_size must be a power of two between 1 and 32768''))
      else
        let count = ucast entry_count :: u16 in
        if unat buffer_size \<ge> 2 ^ 32 then Return (Inl (Custom KInvalidInput ''io_uring buf_size is too large''))
        else if buffer_size = 0
        then Return (Inl (Custom KInvalidInput ''io_uring buf_size must be greater than zero''))
        else if env_page_size env \<le> 0 then Return (Inl (env_last_os_error env))
        else if \<not> env_layout_ok env then Return (Inl (Custom KInvalidInput ''invalid buffer ring layout''))
        else if \<not> env_alloc_ok env then Return (Inl (Custom KOutOfMemory ''buffer ring allocation failed''))
        else
          let zero_entry = \<lparr>re_addr = 0, re_len = 0, re_bid = 0\<rparr>;
              pool = \<lparr>br_entries = replicate (unat count) zero_entry,
                 br_buffers = replicate (unat count) (replicate (unat buffer_size) (char_of (0::nat))),
                 br_mask = count - 1, br_tail = 0, br_buffer_len = ucast buffer_size\<rparr>
          in (case publish_all (map of_nat [0..<unat count]) pool of
                (Panic, _) \<Rightarrow> Panic
              | (Return _, pool') \<Rightarrow>
                  (case env_register env of Inl e \<Rightarrow> Return (Inl e) | Inr _ \<Rightarrow> Return (Inr pool'))))"

section \<open>Capabilities and the probe\<close>

record capabilities =
  cap_accept :: bool
  cap_connect :: bool
  cap_recv :: bool
  cap_send :: bool
  cap_read :: bool
  cap_async_cancel :: bool

datatype opcode = OpAccept | OpConnect | OpRecv | OpSend | OpRead | OpAsyncCancel

definition capabilities_probe :: "io_error + (opcode \<Rightarrow> bool) \<Rightarrow> io_error + capabilities" where
  "capabilities_probe register_probe = (case register_probe of
     Inl e \<Rightarrow> Inl e
   | Inr supported \<Rightarrow> Inr \<lparr>cap_accept = supported OpAccept, cap_connect = supported OpConnect,
       cap_recv = supported OpRecv, cap_send = supported OpSend, cap_read = supported OpRead,
       cap_async_cancel = supported OpAsyncCancel\<rparr>)"

fun join :: "bytes \<Rightarrow> bytes list \<Rightarrow> bytes" where
  "join sep [] = []"
| "join sep [s] = s"
| "join sep (s # ss) = s @ sep @ join sep ss"

definition validate_required :: "capabilities \<Rightarrow> io_error + unit" where
  "validate_required c =
     (let required = [(''accept'', cap_accept c), (''connect'', cap_connect c), (''recv'', cap_recv c),
            (''send'', cap_send c), (''read'', cap_read c), (''async_cancel'', cap_async_cancel c)];
          missing = map fst (filter (\<lambda>(name, supported). \<not> supported) required)
      in if missing = [] then Inr ()
         else Inl (Custom KUnsupported
           (''io_uring is missing required operation(s): '' @ join '', '' missing)))"

record io_uring_runtime =
  iu_sq_entries :: u32
  iu_cq_entries :: u32
  iu_buf_ring_size :: u32
  iu_buf_size :: usize

text \<open>\<open>build\<close> is the result of building the ring, \<open>register_probe\<close> what the kernel supports.\<close>

definition probe ::
  "(u32 \<Rightarrow> u32 \<Rightarrow> io_error + unit) \<Rightarrow> io_error + (opcode \<Rightarrow> bool) \<Rightarrow> ring_env \<Rightarrow> io_uring_runtime \<Rightarrow>
   (io_error + unit) outcome" where
  "probe build register_probe env rt =
     (case build (iu_cq_entries rt) (iu_sq_entries rt) of Inl e \<Rightarrow> Return (Inl e) | Inr _ \<Rightarrow>
     (case capabilities_probe register_probe of Inl e \<Rightarrow> Return (Inl e) | Inr caps \<Rightarrow>
     (case validate_required caps of Inl e \<Rightarrow> Return (Inl e) | Inr _ \<Rightarrow>
      if unat (iu_buf_size rt) \<ge> 2 ^ 32
      then Return (Inl (Custom KInvalidInput ''io_uring buf_size is too large''))
      else if iu_buf_size rt = 0
      then Return (Inl (Custom KInvalidInput ''io_uring buf_size must be greater than zero''))
      else (case register env (iu_buf_ring_size rt) 1 of
              Panic \<Rightarrow> Panic
            | Return (Inl e) \<Rightarrow> Return (Inl e)
            | Return (Inr _) \<Rightarrow> Return (Inr ())))))"

section \<open>The ring as a queue\<close>

definition ring_ok :: "nat \<Rightarrow> buffer_ring \<Rightarrow> bool" where
  "ring_ok n r \<longleftrightarrow> (\<exists>k \<le> 15. n = 2 ^ k) \<and> length (br_entries r) = n \<and> length (br_buffers r) = n
     \<and> br_mask r = of_nat (n - 1)"

definition ring_slot :: "nat \<Rightarrow> u16 \<Rightarrow> nat \<Rightarrow> nat" where
  "ring_slot n h i = (unat h + i) mod n"

definition ring_count :: "u16 \<Rightarrow> buffer_ring \<Rightarrow> nat" where
  "ring_count h r = unat (br_tail r - h)"

text \<open>The descriptors between the kernel's head and the tail, oldest first.\<close>

definition ring_queue :: "u16 \<Rightarrow> buffer_ring \<Rightarrow> u16 list" where
  "ring_queue h r = map (\<lambda>i. re_bid (br_entries r ! unat ((h + of_nat i) AND br_mask r))) [0..<ring_count h r]"

lemma and_mask_mod:
  assumes "k \<le> 16"
  shows "unat ((w :: u16) AND of_nat (2 ^ k - 1)) = unat w mod 2 ^ k"
proof -
  have "(of_nat (2 ^ k - 1) :: u16) = mask k"
    by (simp add: mask_eq_exp_minus_1 of_nat_diff)
  then have "w AND of_nat (2 ^ k - 1) = take_bit k w" by (simp only: take_bit_eq_mask)
  then show ?thesis
    using unsigned_take_bit_eq[of k w, where 'a = nat] take_bit_eq_mod[of k "unat w"] by argo
qed

lemma slot_index:
  assumes "ring_ok n r"
  shows "unat ((h + of_nat i) AND br_mask r) = ring_slot n h i"
proof -
  obtain k where k: "k \<le> 15" "n = 2 ^ k" "br_mask r = of_nat (2 ^ k - 1)"
    using assms by (auto simp: ring_ok_def)
  have dvd: "n dvd 2 ^ 16" unfolding k(2) by (rule le_imp_power_dvd) (use k in simp)
  have "unat (h + of_nat i) = (unat h + i) mod 2 ^ 16"
    by (simp add: unat_word_ariths unat_of_nat mod_simps)
  then show ?thesis
    using and_mask_mod[of k "h + of_nat i"] k dvd by (simp add: ring_slot_def mod_mod_cancel)
qed

lemma ring_ok_size: "ring_ok n r \<Longrightarrow> 0 < n \<and> n \<le> 2 ^ 15"
  using power_increasing[of _ 15 "2::nat"] by (auto simp: ring_ok_def)

lemma ring_slot_inj: "i < n \<Longrightarrow> j < n \<Longrightarrow> ring_slot n h i = ring_slot n h j \<Longrightarrow> i = j"
proof (induction i j rule: linorder_wlog)
  case (le i j)
  then have "n dvd (unat h + j) - (unat h + i)"
    by (metis add_le_cancel_left mod_eq_dvd_iff_nat ring_slot_def)
  with le show ?case by (auto dest: dvd_imp_le)
qed simp

lemma ring_queue_slots:
  assumes "ring_ok n r"
  shows "ring_queue h r = map (\<lambda>i. re_bid (br_entries r ! ring_slot n h i)) [0..<ring_count h r]"
  by (simp add: ring_queue_def slot_index[OF assms])

lemma tail_slot:
  assumes "ring_ok n r"
  shows "unat (br_tail r AND br_mask r) = ring_slot n h (ring_count h r)"
  using slot_index[OF assms, of h "ring_count h r"] by (simp add: ring_count_def)

text \<open>Publishing is enqueuing, and the kernel's consumption is dequeuing.\<close>

lemma publish_queue:
  assumes "ring_ok n r" and "ring_count h r < n" and "unat i < n"
  shows "\<exists>r'. publish i r = (Return (), r') \<and> ring_ok n r' \<and> br_buffers r' = br_buffers r
     \<and> ring_queue h r' = ring_queue h r @ [i]"
proof -
  let ?c = "ring_count h r"
  let ?e = "\<lparr>re_addr = unat i, re_len = br_buffer_len r, re_bid = i\<rparr>"
  let ?r = "r\<lparr>br_entries := (br_entries r)[ring_slot n h ?c := ?e], br_tail := br_tail r + 1\<rparr>"
  have len: "length (br_entries r) = n" "length (br_buffers r) = n" using assms(1) by (simp_all add: ring_ok_def)
  have p: "publish i r = (Return (), ?r)"
    using assms(3) len by (simp add: publish_def Let_def tail_slot[OF assms(1), of h])
  have ok: "ring_ok n ?r" using assms(1) by (simp add: ring_ok_def)
  have "unat (br_tail r - h + 1) = ?c + 1"
    unfolding ring_count_def using assms(2) ring_ok_size[OF assms(1)]
    by (intro unat_Suc_small) (simp add: ring_count_def)
  then have c: "ring_count h ?r = Suc ?c" by (simp add: ring_count_def algebra_simps)
  have "ring_slot n h ?c < n" using ring_ok_size[OF assms(1)] by (simp add: ring_slot_def)
  moreover have "ring_slot n h ?c \<noteq> ring_slot n h j" if "j < ?c" for j
    using ring_slot_inj[of ?c n j h] that assms(2) by auto
  ultimately have "ring_queue h ?r = ring_queue h r @ [i]"
    unfolding ring_queue_slots[OF ok] ring_queue_slots[OF assms(1)] c using len by simp
  with p ok show ?thesis by simp
qed

lemma take_queue:
  assumes "ring_queue h r = i # q"
  shows "ring_queue (h + 1) r = q" "re_bid (br_entries r ! unat (h AND br_mask r)) = i"
    "ring_count (h + 1) r = length q"
proof -
  have n: "ring_count h r = Suc (length q)" using assms by (metis length_Cons length_map length_upt minus_nat.diff_0 ring_queue_def)
  have "br_tail r - h = (br_tail r - (h + 1)) + 1" by simp
  moreover have "br_tail r - h \<noteq> 0" using n by (auto simp: ring_count_def)
  ultimately have "unat (br_tail r - (h + 1)) = length q"
    using n unat_minus_one[of "br_tail r - h"] by (simp add: ring_count_def algebra_simps)
  then show c: "ring_count (h + 1) r = length q" by (simp add: ring_count_def)
  let ?f = "\<lambda>j. re_bid (br_entries r ! unat ((h + of_nat j) AND br_mask r))"
  have "map ?f [0..<Suc (length q)] = i # q" using assms n by (simp add: ring_queue_def)
  then have "i # q = ?f 0 # map (?f \<circ> Suc) [0..<length q]"
    by (simp add: upt_conv_Cons map_Suc_upt[symmetric] del: upt_Suc)
  then show "ring_queue (h + 1) r = q" "re_bid (br_entries r ! unat (h AND br_mask r)) = i"
    by (simp_all add: ring_queue_def c comp_def add.assoc)
qed

section \<open>Conservation of buffers\<close>

text \<open>
  What the pool needs of the ring: a queue of ids of bounded capacity. Every id is either in the
  queue or lent, exactly once, and that stays so whatever is lent and released.
\<close>

locale lent_pool =
  fixes rok :: "'r \<Rightarrow> bool"
    and queue :: "'h \<Rightarrow> 'r \<Rightarrow> 'i list"
    and put :: "'i \<Rightarrow> 'r \<Rightarrow> 'r"
    and adv :: "'h \<Rightarrow> 'h"
    and ids :: "'i set"
  assumes ids_finite: "rok r \<Longrightarrow> finite ids"
    and put_queue: "rok r \<Longrightarrow> length (queue h r) < card ids \<Longrightarrow> i \<in> ids
      \<Longrightarrow> rok (put i r) \<and> queue h (put i r) = queue h r @ [i]"
    and adv_queue: "queue h r = i # q \<Longrightarrow> queue (adv h) r = q"
begin

definition conserved :: "'h \<Rightarrow> 'r \<Rightarrow> 'i list \<Rightarrow> bool" where
  "conserved h r lent \<longleftrightarrow> rok r \<and> distinct (queue h r @ lent) \<and> set (queue h r @ lent) = ids"

lemma lend: "conserved h r lent \<Longrightarrow> queue h r = i # q \<Longrightarrow> conserved (adv h) r (i # lent)"
  using adv_queue[of h r i q] by (auto simp: conserved_def)

lemma room:
  assumes "conserved h r lent"
  shows "length (queue h r) + length lent = card ids"
  using assms distinct_card[of "queue h r @ lent"] by (simp add: conserved_def)

lemma release:
  assumes "conserved h r lent" and "i \<in> set lent"
  shows "conserved h (put i r) (remove1 i lent)"
proof -
  have "length (queue h r) < card ids" using room[OF assms(1)] assms(2) by (cases lent) auto
  moreover have "i \<in> ids" "rok r" using assms by (auto simp: conserved_def)
  ultimately have p: "rok (put i r)" "queue h (put i r) = queue h r @ [i]" using put_queue by blast+
  moreover have "distinct lent" "i \<notin> set (queue h r)" using assms by (auto simp: conserved_def)
  ultimately show ?thesis using assms by (auto simp: conserved_def)
qed

end

lemma ids_image:
  assumes "n \<le> 2 ^ 16"
  shows "of_nat ` {..<n} = {i :: u16. unat i < n}" "inj_on (of_nat :: nat \<Rightarrow> u16) {..<n}"
proof -
  show "of_nat ` {..<n} = {i :: u16. unat i < n}"
  proof (intro equalityI subsetI)
    fix i :: u16 assume "i \<in> {i. unat i < n}"
    then show "i \<in> of_nat ` {..<n}" by (intro image_eqI[of _ _ "unat i"]) auto
  next
    fix i :: u16 assume "i \<in> of_nat ` {..<n}"
    then show "i \<in> {i. unat i < n}" using assms by (auto simp: unat_of_nat_small)
  qed
  show "inj_on (of_nat :: nat \<Rightarrow> u16) {..<n}"
  proof (rule inj_onI)
    fix x y assume a: "x \<in> {..<n}" "y \<in> {..<n}" "(of_nat x :: u16) = of_nat y"
    have "unat (of_nat x :: u16) = x" "unat (of_nat y :: u16) = y"
      using a(1,2) assms by (simp_all add: unat_of_nat_small)
    with a(3) show "x = y" by metis
  qed
qed

lemma card_ids: "n \<le> 2 ^ 16 \<Longrightarrow> card {i :: u16. unat i < n} = n"
  using ids_image[of n] by (metis card_image card_lessThan)

interpretation pool: lent_pool "ring_ok n" ring_queue "\<lambda>i r. snd (publish i r)" "\<lambda>h. h + 1"
  "{i :: u16. unat i < n}" for n
proof unfold_locales
  show "finite {i :: u16. unat i < n}" by simp
  fix r :: buffer_ring and h i :: u16
  assume ok: "ring_ok n r" and l: "length (ring_queue h r) < card {i :: u16. unat i < n}"
    and i: "i \<in> {i :: u16. unat i < n}"
  have "ring_count h r < n" using l ring_ok_size[OF ok] card_ids[of n] by (simp add: ring_queue_def)
  from publish_queue[OF ok this] i
  show "ring_ok n (snd (publish i r)) \<and> ring_queue h (snd (publish i r)) = ring_queue h r @ [i]" by force
qed (rule take_queue(1))

text \<open>A run of the pool: the kernel fills a buffer and lends it, the worker copies and releases it.\<close>

record ring_pool =
  rp_ring :: buffer_ring
  rp_head :: u16
  rp_lent :: "u16 list"

inductive pool_step :: "ring_pool \<Rightarrow> ring_pool \<Rightarrow> bool" where
  kernel_takes: "\<lbrakk>rp_head p \<noteq> br_tail (rp_ring p);
      i = re_bid (br_entries (rp_ring p) ! unat (rp_head p AND br_mask (rp_ring p)));
      length data = length (br_buffers (rp_ring p) ! unat i)\<rbrakk>
    \<Longrightarrow> pool_step p (p\<lparr>rp_ring := (rp_ring p)\<lparr>br_buffers := (br_buffers (rp_ring p))[unat i := data]\<rparr>,
          rp_head := rp_head p + 1, rp_lent := i # rp_lent p\<rparr>)"
| worker_releases: "\<lbrakk>i \<in> set (rp_lent p); copy_and_release i len (rp_ring p) = (Return res, r')\<rbrakk>
    \<Longrightarrow> pool_step p (p\<lparr>rp_ring := r', rp_lent := remove1 i (rp_lent p)\<rparr>)"

inductive_cases pool_stepE: "pool_step p p'"

definition pool_ok :: "nat \<Rightarrow> ring_pool \<Rightarrow> bool" where
  "pool_ok n p \<longleftrightarrow> pool.conserved n (rp_head p) (rp_ring p) (rp_lent p)"

lemma ring_fill [simp]:
  "ring_ok n (r\<lparr>br_buffers := (br_buffers r)[j := d]\<rparr>) = ring_ok n r"
  "ring_queue h (r\<lparr>br_buffers := b\<rparr>) = ring_queue h r"
  by (simp_all add: ring_ok_def ring_queue_def ring_count_def)

lemma conserved_fill:
  "pool.conserved n h (r\<lparr>br_buffers := (br_buffers r)[j := d]\<rparr>) lent = pool.conserved n h r lent"
  by (simp add: pool.conserved_def)

lemma ring_queue_nonempty:
  assumes "h \<noteq> br_tail r"
  shows "\<exists>q. ring_queue h r = re_bid (br_entries r ! unat (h AND br_mask r)) # q"
proof -
  have "br_tail r - h \<noteq> 0" using assms by (metis eq_iff_diff_eq_0)
  then have "0 < ring_count h r" by (simp add: ring_count_def unat_gt_0)
  then show ?thesis by (simp add: ring_queue_def upt_conv_Cons)
qed

text \<open>A lent buffer is released without a panic, with the bytes the kernel wrote.\<close>

lemma copy_and_release_lent:
  assumes "pool.conserved n h r lent" and "i \<in> set lent"
  shows "copy_and_release i len r =
     (Return (if len \<le> length (br_buffers r ! unat i) then Inr (take len (br_buffers r ! unat i))
       else Inl (Custom KInvalidData ''receive completion exceeds its selected buffer'')),
      snd (publish i r))"
proof -
  have i: "unat i < length (br_buffers r)"
    using assms by (auto simp: pool.conserved_def ring_ok_def)
  then obtain r' where "publish i r = (Return (), r')" by (simp add: publish_def Let_def)
  with i show ?thesis by (simp add: copy_and_release_def get_def)
qed

lemma pool_step_ok:
  assumes "pool_ok n p" and "pool_step p p'"
  shows "pool_ok n p'"
  using assms(2,1)
proof cases
  case (kernel_takes i data)
  obtain q where "ring_queue (rp_head p) (rp_ring p) = i # q"
    using ring_queue_nonempty[OF kernel_takes(2)] kernel_takes(3) by metis
  with assms(1) kernel_takes(1) show ?thesis
    by (simp add: pool_ok_def conserved_fill pool.lend)
next
  case (worker_releases i len res r')
  then have "r' = snd (publish i (rp_ring p))"
    using copy_and_release_lent[OF assms(1)[unfolded pool_ok_def]] by simp
  with assms(1) worker_releases(1,2) show ?thesis by (simp add: pool_ok_def pool.release)
qed

lemma publish_all_queue:
  assumes "ring_ok n r" and "ring_count h r + length is \<le> n" and "\<forall>i \<in> set is. unat i < n"
  shows "\<exists>r'. publish_all is r = (Return (), r') \<and> ring_ok n r' \<and> ring_queue h r' = ring_queue h r @ is"
  using assms
proof (induction "is" arbitrary: r)
  case (Cons i "is")
  then obtain r' where r': "publish i r = (Return (), r')" "ring_ok n r'" "ring_queue h r' = ring_queue h r @ [i]"
    using publish_queue[of n r h i] by auto
  have "ring_count h r' = length (ring_queue h r')" "ring_count h r = length (ring_queue h r)"
    by (simp_all add: ring_queue_def)
  then have "ring_count h r' + length is \<le> n" using Cons.prems(2) r'(3) by simp
  from Cons.IH[OF r'(2) this] Cons.prems(3) r' show ?case by auto
qed simp

definition ring_env_ok :: "ring_env \<Rightarrow> bool" where
  "ring_env_ok env \<longleftrightarrow> env_page_size env > 0 \<and> env_layout_ok env \<and> env_alloc_ok env \<and> env_register env = Inr ()"

definition ring_size_ok :: "u32 \<Rightarrow> bool" where
  "ring_size_ok entries \<longleftrightarrow> (\<exists>k \<le> 15. unat entries = 2 ^ k)"

lemma ring_size_ok_iff: "ring_size_ok entries \<longleftrightarrow> entries \<noteq> 0 \<and> is_power_of_two entries \<and> entries \<le> 32768"
proof
  assume "ring_size_ok entries"
  then obtain k where k: "k \<le> 15" "unat entries = 2 ^ k" by (auto simp: ring_size_ok_def)
  then have "k < LENGTH(32)" by simp
  then have "is_power_of_two entries" using k(2) unfolding is_power_of_two_iff by blast
  moreover have "unat entries \<le> 2 ^ 15" unfolding k(2) using k(1) by (intro power_increasing) auto
  moreover have "0 < unat entries" unfolding k(2) by simp
  ultimately show "entries \<noteq> 0 \<and> is_power_of_two entries \<and> entries \<le> 32768"
    by (auto simp: word_le_nat_alt)
next
  assume "entries \<noteq> 0 \<and> is_power_of_two entries \<and> entries \<le> 32768"
  then obtain k where k: "unat entries = 2 ^ k" "(2::nat) ^ k \<le> 2 ^ 15"
    by (auto simp: is_power_of_two_iff word_le_nat_alt)
  have "k \<le> 15" by (rule power_le_imp_le_exp[OF _ k(2)]) simp
  with k(1) show "ring_size_ok entries" by (auto simp: ring_size_ok_def)
qed

text \<open>Filling a fresh ring publishes every buffer once, without a panic.\<close>

lemma fill_fresh_ring:
  assumes "ring_size_ok entries"
  shows "\<exists>r. publish_all (map of_nat [0..<unat (ucast entries :: u16)])
      \<lparr>br_entries = replicate (unat (ucast entries :: u16)) e,
        br_buffers = replicate (unat (ucast entries :: u16)) b,
        br_mask = ucast entries - 1, br_tail = 0, br_buffer_len = bl\<rparr> = (Return (), r)
    \<and> ring_queue 0 r = map of_nat [0..<unat entries]
    \<and> pool_ok (unat entries) \<lparr>rp_ring = r, rp_head = 0, rp_lent = []\<rparr>"
proof -
  let ?n = "unat entries"
  let ?pool = "\<lparr>br_entries = replicate ?n e, br_buffers = replicate ?n b,
     br_mask = ucast entries - 1, br_tail = 0, br_buffer_len = bl\<rparr>"
  obtain k where k: "k \<le> 15" "?n = 2 ^ k" using assms by (auto simp: ring_size_ok_def)
  have n: "0 < ?n" "?n \<le> 2 ^ 15" unfolding k(2) using power_increasing[OF k(1), of "2::nat"] by simp_all
  then have u: "unat (ucast entries :: u16) = ?n"
    by (simp add: unsigned_ucast_eq take_bit_nat_eq_self)
  have "of_nat (unat (ucast entries :: u16)) = (ucast entries :: u16)" by simp
  then have "of_nat ?n = (ucast entries :: u16)" unfolding u .
  with n(1) have mask: "ucast entries - 1 = (of_nat (?n - 1) :: u16)" by (simp add: of_nat_diff)
  have "ring_ok ?n ?pool" unfolding ring_ok_def using k mask by auto
  moreover have "\<forall>i \<in> set (map of_nat [0..<?n]). unat (i :: u16) < ?n"
    using n by (auto simp: unat_of_nat_small)
  ultimately obtain r' where r': "publish_all (map of_nat [0..<?n]) ?pool = (Return (), r')" "ring_ok ?n r'"
    "ring_queue 0 r' = map of_nat [0..<?n]"
    using publish_all_queue[of ?n ?pool 0 "map of_nat [0..<?n]"] by (auto simp: ring_count_def ring_queue_def)
  moreover have "set (map of_nat [0..<?n]) = {i :: u16. unat i < ?n}" "distinct (map (of_nat :: nat \<Rightarrow> u16) [0..<?n])"
    using n ids_image[of ?n] by (simp_all add: atLeast0LessThan distinct_map)
  ultimately have "pool_ok ?n \<lparr>rp_ring = r', rp_head = 0, rp_lent = []\<rparr>"
    by (simp add: pool_ok_def pool.conserved_def)
  with r' show ?thesis unfolding u by blast
qed

lemma register_cases:
  shows "register env entries bsize \<noteq> Panic"
    and "(\<exists>r. register env entries bsize = Return (Inr r)) \<longleftrightarrow>
      ring_size_ok entries \<and> bsize \<noteq> 0 \<and> unat bsize < 2 ^ 32 \<and> ring_env_ok env"
    and "register env entries bsize = Return (Inr r) \<Longrightarrow>
      ring_queue 0 r = map of_nat [0..<unat entries]
      \<and> pool_ok (unat entries) \<lparr>rp_ring = r, rp_head = 0, rp_lent = []\<rparr>"
proof -
  have guard: "\<not> (entries = 0 \<or> \<not> is_power_of_two entries \<or> entries > 32768) \<longleftrightarrow> ring_size_ok entries"
    by (auto simp: ring_size_ok_iff)
  note fill = fill_fresh_ring[of entries "\<lparr>re_addr = 0, re_len = 0, re_bid = 0\<rparr>"
      "replicate (unat bsize) (char_of (0::nat))" "ucast bsize"]
  show "register env entries bsize \<noteq> Panic"
    using fill guard by (auto simp: register_def Let_def split: sum.splits)
  show "(\<exists>r. register env entries bsize = Return (Inr r)) \<longleftrightarrow>
      ring_size_ok entries \<and> bsize \<noteq> 0 \<and> unat bsize < 2 ^ 32 \<and> ring_env_ok env"
    using fill guard by (auto simp: register_def Let_def ring_env_ok_def split: sum.splits if_splits)
  show "ring_queue 0 r = map of_nat [0..<unat entries]
      \<and> pool_ok (unat entries) \<lparr>rp_ring = r, rp_head = 0, rp_lent = []\<rparr>"
    if "register env entries bsize = Return (Inr r)"
    using that fill guard by (auto simp: register_def Let_def split: sum.splits if_splits)
qed

lemmas register_pool_ok = conjunct2[OF register_cases(3)]

text \<open>
  Registration: an accepted ring size is a power of two up to 32768, and then the pool starts
  with every buffer published exactly once, in order; publishing cannot panic.
\<close>

lemma register_publishes_all:
  assumes "register env entries bsize = Return (Inr r)"
  shows "(\<exists>k \<le> 15. unat entries = 2 ^ k) \<and> ring_queue 0 r = map of_nat [0..<unat entries]
     \<and> pool_ok (unat entries) \<lparr>rp_ring = r, rp_head = 0, rp_lent = []\<rparr>"
  using register_cases(2)[of env entries bsize] register_cases(3)[OF assms] assms
  by (auto simp: ring_size_ok_def)

definition sample_ring_env :: ring_env where
  "sample_ring_env = \<lparr>env_page_size = 4096, env_layout_ok = True, env_alloc_ok = True,
     env_last_os_error = Os EINVAL, env_register = Inr ()\<rparr>"

lemma sample_register: "\<exists>r. register sample_ring_env 2 1 = Return (Inr r)"
proof -
  have "is_power_of_two (2 :: u32)" by (simp add: is_power_of_two_def)
  moreover have "[0..<2] = [0, 1::nat]" by (simp add: upt_rec)
  ultimately show ?thesis
    by (simp add: register_def sample_ring_env_def publish_def Let_def word_le_nat_alt)
qed

lemma register_publishes_all_witness:
  "\<exists>r. register sample_ring_env 2 1 = Return (Inr r) \<and> ring_queue 0 r = [0, 1]"
proof -
  obtain r where r: "register sample_ring_env 2 1 = Return (Inr r)" using sample_register by blast
  have "[0..<2] = [0, 1::nat]" by (simp add: upt_rec)
  with register_publishes_all[OF r] r show ?thesis by auto
qed

inductive pool_run :: "ring_pool \<Rightarrow> ring_pool \<Rightarrow> bool" for p0 where
  pool_init: "pool_run p0 p0"
| pool_next: "pool_run p0 p \<Longrightarrow> pool_step p p' \<Longrightarrow> pool_run p0 p'"

text \<open>
  C17. Buffers are conserved: from registration on, through any interleaving of the kernel taking
  buffers and the worker releasing them, with the 16-bit head and tail wrapping around, every buffer
  id is in exactly one place, the ring or the set of lent buffers; the ring never holds more than its
  capacity; and releasing a lent buffer does not panic and returns the bytes the kernel wrote.
\<close>

theorem pool_conserved:
  assumes "register env entries bsize = Return (Inr r)"
    and "pool_run \<lparr>rp_ring = r, rp_head = 0, rp_lent = []\<rparr> p"
  shows "distinct (ring_queue (rp_head p) (rp_ring p) @ rp_lent p)
     \<and> set (ring_queue (rp_head p) (rp_ring p) @ rp_lent p) = {i. unat i < unat entries}
     \<and> (\<forall>i len. i \<in> set (rp_lent p) \<and> len \<le> length (br_buffers (rp_ring p) ! unat i) \<longrightarrow>
          fst (copy_and_release i len (rp_ring p)) = Return (Inr (take len (br_buffers (rp_ring p) ! unat i))))"
proof -
  have "pool_ok (unat entries) p"
    using assms(2)
  proof induction
    case pool_init
    show ?case by (rule register_pool_ok[OF assms(1)])
  qed (rule pool_step_ok)
  then show ?thesis
    unfolding pool_ok_def using copy_and_release_lent by (auto simp: pool.conserved_def)
qed

theorem pool_conserved_witness:
  "\<exists>r. register sample_ring_env 2 1 = Return (Inr r) \<and> distinct (ring_queue 0 r)"
proof -
  obtain r where r: "register sample_ring_env 2 1 = Return (Inr r)" using sample_register by blast
  from pool_conserved[OF r pool_init] r show ?thesis by auto
qed

section \<open>The probe\<close>

lemma validate_required_iff:
  "validate_required c = Inr () \<longleftrightarrow> cap_accept c \<and> cap_connect c \<and> cap_recv c \<and> cap_send c
     \<and> cap_read c \<and> cap_async_cancel c"
  by (simp add: validate_required_def)

lemma validate_required_Inl: "validate_required c = Inl e \<Longrightarrow> \<not> (cap_accept c \<and> cap_connect c \<and> cap_recv c
     \<and> cap_send c \<and> cap_read c \<and> cap_async_cancel c)"
  using validate_required_iff[of c] by simp

text \<open>
  The probe of io_uring never panics, and it succeeds exactly when the ring can be built, the
  kernel supports all six operations, the configured buffer size is positive and below 4 GiB, the
  ring size is a power of two up to 32768, and the ring can be allocated and registered.
\<close>

theorem probe_iff:
  "probe build register_probe env rt \<noteq> Panic
   \<and> (probe build register_probe env rt = Return (Inr ()) \<longleftrightarrow>
        build (iu_cq_entries rt) (iu_sq_entries rt) = Inr ()
      \<and> (\<exists>supported. register_probe = Inr supported \<and> (\<forall>op. supported op))
      \<and> 0 < unat (iu_buf_size rt) \<and> unat (iu_buf_size rt) < 2 ^ 32
      \<and> ring_size_ok (iu_buf_ring_size rt) \<and> ring_env_ok env)"
proof -
  have ops: "(\<forall>op. supported op) \<longleftrightarrow> supported OpAccept \<and> supported OpConnect \<and> supported OpRecv
      \<and> supported OpSend \<and> supported OpRead \<and> supported OpAsyncCancel" for supported
    by (metis opcode.exhaust)
  have reg: "(\<exists>r. register env (iu_buf_ring_size rt) 1 = Return (Inr r)) \<longleftrightarrow>
      ring_size_ok (iu_buf_ring_size rt) \<and> ring_env_ok env"
    using register_cases(2)[of env "iu_buf_ring_size rt" 1] by simp
  have nz: "0 < unat (iu_buf_size rt) \<longleftrightarrow> iu_buf_size rt \<noteq> 0" by (simp add: unat_gt_0)
  show ?thesis
    using register_cases(1)[of env "iu_buf_ring_size rt" 1] reg[symmetric]
    unfolding nz
    by (auto simp: probe_def capabilities_probe_def validate_required_iff ops
        dest!: validate_required_Inl split: sum.splits outcome.splits)
qed

end
