(* ===== verification/Startup.thy ===== *)
theory Startup
  imports Listener Buffer_Ring
begin

text \<open>
  Starting a worker on Linux: the limits, metrics and shutdown handle shared by the runtimes
  (\<open>runtime/mod.rs\<close>), loading the TLS configurations (\<open>ssl.rs\<close>), choosing the runtime and pinning the
  process (\<open>startup.rs\<close>, \<open>epoll.rs\<close>, \<open>kqueue.rs\<close>). rustls, core_affinity and the runtimes' event loops
  are arguments. Durations are milliseconds.
\<close>

section \<open>Limits and metrics\<close>

record worker_limits =
  wl_max_connections :: usize
  wl_max_read_buffer_size :: usize
  wl_max_write_buffer_size :: usize
  wl_idle_timeout :: nat
  wl_drain_timeout :: nat

definition worker_limits_from_config :: "worker_config \<Rightarrow> worker_limits" where
  "worker_limits_from_config c = \<lparr>
     wl_max_connections = wc_max_connections c,
     wl_max_read_buffer_size = wc_max_read_buffer_size c,
     wl_max_write_buffer_size = wc_max_write_buffer_size c,
     wl_idle_timeout = unat (wc_idle_timeout_ms c),
     wl_drain_timeout = unat (wc_drain_timeout_ms c)\<rparr>"

definition worker_limits_default :: worker_limits where
  "worker_limits_default = worker_limits_from_config worker_config_default"

record proxy_limits =
  pl_connect_timeout :: nat
  pl_write_timeout :: nat
  pl_read_timeout :: nat

definition proxy_limits_from_config :: "proxy_timeout_config \<Rightarrow> proxy_limits" where
  "proxy_limits_from_config c = \<lparr>
     pl_connect_timeout = unat (pc_connect_timeout_ms c),
     pl_write_timeout = unat (pc_write_timeout_ms c),
     pl_read_timeout = unat (pc_read_timeout_ms c)\<rparr>"

definition proxy_limits_default :: proxy_limits where
  "proxy_limits_default = proxy_limits_from_config proxy_timeout_config_default"

record dns_limits =
  dl_resolver_threads :: usize
  dl_timeout :: nat

definition dns_limits_from_config :: "dns_config \<Rightarrow> dns_limits" where
  "dns_limits_from_config c = \<lparr>dl_resolver_threads = dc_resolver_threads c, dl_timeout = unat (dc_timeout_ms c)\<rparr>"

definition dns_limits_default :: dns_limits where
  "dns_limits_default = dns_limits_from_config dns_config_default"

text \<open>Relaxed atomic counters, which wrap at 64 bits.\<close>

record worker_metrics =
  wm_accepted :: u64
  wm_requests :: u64
  wm_responses :: u64
  wm_bytes_read :: u64
  wm_bytes_written :: u64
  wm_errors :: u64

definition worker_metrics_default :: worker_metrics where
  "worker_metrics_default = \<lparr>wm_accepted = 0, wm_requests = 0, wm_responses = 0, wm_bytes_read = 0,
     wm_bytes_written = 0, wm_errors = 0\<rparr>"

definition metric_accepted :: "worker_metrics \<Rightarrow> worker_metrics" where
  "metric_accepted m = m\<lparr>wm_accepted := wm_accepted m + 1\<rparr>"
definition metric_request :: "worker_metrics \<Rightarrow> worker_metrics" where
  "metric_request m = m\<lparr>wm_requests := wm_requests m + 1\<rparr>"
definition metric_response :: "worker_metrics \<Rightarrow> worker_metrics" where
  "metric_response m = m\<lparr>wm_responses := wm_responses m + 1\<rparr>"
definition metric_read_bytes :: "nat \<Rightarrow> worker_metrics \<Rightarrow> worker_metrics" where
  "metric_read_bytes n m = m\<lparr>wm_bytes_read := wm_bytes_read m + of_nat n\<rparr>"
definition metric_wrote_bytes :: "nat \<Rightarrow> worker_metrics \<Rightarrow> worker_metrics" where
  "metric_wrote_bytes n m = m\<lparr>wm_bytes_written := wm_bytes_written m + of_nat n\<rparr>"
definition metric_error :: "worker_metrics \<Rightarrow> worker_metrics" where
  "metric_error m = m\<lparr>wm_errors := wm_errors m + 1\<rparr>"

lemmas metric_defs = metric_accepted_def metric_request_def metric_response_def metric_read_bytes_def
  metric_wrote_bytes_def metric_error_def

section \<open>The shutdown handle\<close>

text \<open>
  The shared state of a handle, with the number of wake-ups of the mio waker and of writes to the
  eventfd. The calls run on different threads; their atomic steps are the actions below, and
  the mutexes make each of them indivisible.
\<close>

record shutdown_state =
  sd_requested :: bool
  sd_waker :: bool
  sd_eventfd :: bool
  sd_wakes :: nat
  sd_writes :: nat

definition shutdown_default :: shutdown_state where
  "shutdown_default = \<lparr>sd_requested = False, sd_waker = False, sd_eventfd = False, sd_wakes = 0, sd_writes = 0\<rparr>"

datatype shutdown_action = StoreRequested | WakeWaker | WriteEventfd | InstallWaker | InstallEventfd | CheckRequested

definition request_steps :: "shutdown_action list" where
  "request_steps = [StoreRequested, WakeWaker, WriteEventfd]"

definition install_waker_steps :: "shutdown_action list" where
  "install_waker_steps = [InstallWaker]"

definition install_eventfd_steps :: "shutdown_action list" where
  "install_eventfd_steps = [InstallEventfd, CheckRequested]"

fun perform_simple :: "shutdown_action \<Rightarrow> shutdown_state \<Rightarrow> shutdown_state" where
  "perform_simple StoreRequested s = s\<lparr>sd_requested := True\<rparr>"
| "perform_simple WakeWaker s = (if sd_waker s then s\<lparr>sd_wakes := sd_wakes s + 1\<rparr> else s)"
| "perform_simple WriteEventfd s = (if sd_eventfd s then s\<lparr>sd_writes := sd_writes s + 1\<rparr> else s)"
| "perform_simple InstallWaker s = s\<lparr>sd_waker := True\<rparr>"
| "perform_simple InstallEventfd s = s\<lparr>sd_eventfd := True\<rparr>"
| "perform_simple CheckRequested s = s"

text \<open>The check of \<open>install_eventfd\<close> makes a nested \<open>request\<close> when one was made before.\<close>

definition perform :: "shutdown_action \<Rightarrow> shutdown_state \<Rightarrow> shutdown_state" where
  "perform a s = (if a = CheckRequested \<and> sd_requested s then fold perform_simple request_steps s
     else perform_simple a s)"

definition run_actions :: "shutdown_action list \<Rightarrow> shutdown_state \<Rightarrow> shutdown_state" where
  "run_actions as s = fold perform as s"

section \<open>TLS configurations\<close>

datatype tls_version = TLS12 | TLS13

datatype cipher_suite =
    TLS13_AES_256_GCM_SHA384
  | TLS13_AES_128_GCM_SHA256
  | TLS13_CHACHA20_POLY1305_SHA256
  | TLS_ECDHE_ECDSA_WITH_AES_256_GCM_SHA384
  | TLS_ECDHE_ECDSA_WITH_AES_128_GCM_SHA256
  | TLS_ECDHE_ECDSA_WITH_CHACHA20_POLY1305_SHA256
  | TLS_ECDHE_RSA_WITH_AES_256_GCM_SHA384
  | TLS_ECDHE_RSA_WITH_AES_128_GCM_SHA256
  | TLS_ECDHE_RSA_WITH_CHACHA20_POLY1305_SHA256

definition supported_protocol :: "ssl_protocol \<Rightarrow> tls_version" where
  "supported_protocol p = (case p of Tlsv1_2 \<Rightarrow> TLS12 | Tlsv1_3 \<Rightarrow> TLS13)"

definition supported_cipher :: "ssl_cipher \<Rightarrow> cipher_suite" where
  "supported_cipher c = (case c of
     Tls13Aes256GcmSha384 \<Rightarrow> TLS13_AES_256_GCM_SHA384
   | Tls13Aes128GcmSha256 \<Rightarrow> TLS13_AES_128_GCM_SHA256
   | Tls13Chacha20Poly1305Sha256 \<Rightarrow> TLS13_CHACHA20_POLY1305_SHA256
   | TlsEcdheEcdsaWithAes256GcmSha384 \<Rightarrow> TLS_ECDHE_ECDSA_WITH_AES_256_GCM_SHA384
   | TlsEcdheEcdsaWithAes128GcmSha256 \<Rightarrow> TLS_ECDHE_ECDSA_WITH_AES_128_GCM_SHA256
   | TlsEcdheEcdsaWithChacha20Poly1305Sha256 \<Rightarrow> TLS_ECDHE_ECDSA_WITH_CHACHA20_POLY1305_SHA256
   | TlsEcdheRsaWithAes256GcmSha384 \<Rightarrow> TLS_ECDHE_RSA_WITH_AES_256_GCM_SHA384
   | TlsEcdheRsaWithAes128GcmSha256 \<Rightarrow> TLS_ECDHE_RSA_WITH_AES_128_GCM_SHA256
   | TlsEcdheRsaWithChacha20Poly1305Sha256 \<Rightarrow> TLS_ECDHE_RSA_WITH_CHACHA20_POLY1305_SHA256)"

text \<open>rustls and rustls_pemfile, with the text of their errors and of a path.\<close>

record ('cert, 'key, 'builder, 'sc) tls_lib =
  tls_open :: "bytes \<Rightarrow> io_error + bytes"
  tls_certs :: "bytes \<Rightarrow> bytes + 'cert list"
  tls_private_key :: "bytes \<Rightarrow> bytes + 'key option"
  tls_with_versions :: "cipher_suite list \<Rightarrow> tls_version list \<Rightarrow> bytes + 'builder"
  tls_with_cert :: "'builder \<Rightarrow> 'cert list \<Rightarrow> 'key \<Rightarrow> bytes + 'sc"
  tls_debug_path :: "bytes \<Rightarrow> bytes"
  tls_show_io :: "io_error \<Rightarrow> bytes"

record 'sc loaded_ssl_config =
  ls_server_config :: 'sc
  ls_handshake_timeout :: nat

definition ssl_config_error :: "bytes \<Rightarrow> io_error" where
  "ssl_config_error e = Custom KInvalidInput (''invalid SSL configuration: '' @ e)"

definition load_certificates :: "('cert, 'key, 'builder, 'sc) tls_lib \<Rightarrow> bytes \<Rightarrow> io_error + 'cert list" where
  "load_certificates lib path =
     (case tls_open lib path of
        Inl e \<Rightarrow> Inl (Custom (kind e)
          (''failed to open SSL certificate '' @ tls_debug_path lib path @ '': '' @ tls_show_io lib e))
      | Inr contents \<Rightarrow>
          (case tls_certs lib contents of
             Inl e \<Rightarrow> Inl (Custom KInvalidData
               (''failed to parse SSL certificate '' @ tls_debug_path lib path @ '': '' @ e))
           | Inr certificates \<Rightarrow>
               if certificates = []
               then Inl (Custom KInvalidData
                 (''SSL certificate '' @ tls_debug_path lib path @ '' contains no certificates''))
               else Inr certificates))"

definition load_private_key :: "('cert, 'key, 'builder, 'sc) tls_lib \<Rightarrow> bytes \<Rightarrow> io_error + 'key" where
  "load_private_key lib path =
     (case tls_open lib path of
        Inl e \<Rightarrow> Inl (Custom (kind e)
          (''failed to open SSL private key '' @ tls_debug_path lib path @ '': '' @ tls_show_io lib e))
      | Inr contents \<Rightarrow>
          (case tls_private_key lib contents of
             Inl e \<Rightarrow> Inl (Custom KInvalidData
               (''failed to parse SSL private key '' @ tls_debug_path lib path @ '': '' @ e))
           | Inr None \<Rightarrow> Inl (Custom KInvalidData
               (''SSL private key '' @ tls_debug_path lib path @ '' contains no private key''))
           | Inr (Some key) \<Rightarrow> Inr key))"

definition load_ssl_config ::
  "('cert, 'key, 'builder, 'sc) tls_lib \<Rightarrow> ssl_server_config \<Rightarrow> io_error + 'sc loaded_ssl_config" where
  "load_ssl_config lib c =
     (case load_certificates lib (certificate_path c) of Inl e \<Rightarrow> Inl e | Inr certificates \<Rightarrow>
     (case load_private_key lib (private_key_path c) of Inl e \<Rightarrow> Inl e | Inr key \<Rightarrow>
     (case tls_with_versions lib (map supported_cipher (ciphers c)) (map supported_protocol (protocols c)) of
        Inl e \<Rightarrow> Inl (ssl_config_error e) | Inr builder \<Rightarrow>
     (case tls_with_cert lib builder certificates key of
        Inl e \<Rightarrow> Inl (ssl_config_error e)
      | Inr sc \<Rightarrow> Inr \<lparr>ls_server_config = sc, ls_handshake_timeout = unat (handshake_timeout_ms c)\<rparr>))))"

definition load_ssl_configs ::
  "('cert, 'key, 'builder, 'sc) tls_lib \<Rightarrow> server list \<Rightarrow> io_error + 'sc loaded_ssl_config option list" where
  "load_ssl_configs lib servers = collect_results (map (\<lambda>s. case ssl s of
     None \<Rightarrow> Inr None
   | Some c \<Rightarrow> (case load_ssl_config lib c of Inl e \<Rightarrow> Inl e | Inr l \<Rightarrow> Inr (Some l))) servers)"

section \<open>Runtimes\<close>

datatype selected_runtime = REpoll usize | RKqueue usize | RIoUring io_uring_runtime

definition runtime_name :: "selected_runtime \<Rightarrow> bytes" where
  "runtime_name r = (case r of REpoll _ \<Rightarrow> ''epoll'' | RKqueue _ \<Rightarrow> ''kqueue'' | RIoUring _ \<Rightarrow> ''io_uring'')"

text \<open>\<open>probe_runtime\<close> is the probe of the io_uring runtime on this host.\<close>

definition select_auto_runtime ::
  "(io_uring_runtime \<Rightarrow> (io_error + unit) outcome) \<Rightarrow> usize \<Rightarrow> io_uring_runtime \<Rightarrow> selected_runtime outcome" where
  "select_auto_runtime probe_runtime max_events io_uring = (case probe_runtime io_uring of
     Panic \<Rightarrow> Panic
   | Return (Inr _) \<Rightarrow> Return (RIoUring io_uring)
   | Return (Inl _) \<Rightarrow> Return (REpoll max_events))"

definition select_runtime ::
  "(io_uring_runtime \<Rightarrow> (io_error + unit) outcome) \<Rightarrow> async_runtime_config \<Rightarrow> selected_runtime outcome" where
  "select_runtime probe_runtime c = (case c of
     Auto max_events sq cq ring buf \<Rightarrow> select_auto_runtime probe_runtime max_events
       \<lparr>iu_sq_entries = sq, iu_cq_entries = cq, iu_buf_ring_size = ring, iu_buf_size = buf\<rparr>
   | Epoll max_events \<Rightarrow> Return (REpoll max_events)
   | Kqueue max_events \<Rightarrow> Return (RKqueue max_events)
   | IoUring sq cq ring buf \<Rightarrow>
       Return (RIoUring \<lparr>iu_sq_entries = sq, iu_cq_entries = cq, iu_buf_ring_size = ring, iu_buf_size = buf\<rparr>))"

record ('s, 'sc) worker_context =
  ctx_listener_groups :: "'s bound_listener_group list"
  ctx_servers :: "server list"
  ctx_ssl_configs :: "'sc loaded_ssl_config option list"
  ctx_limits :: worker_limits
  ctx_proxy_limits :: proxy_limits
  ctx_dns_limits :: dns_limits
  ctx_metrics :: worker_metrics
  ctx_upstream_groups :: "(bytes, upstream_group) hashmap"

text \<open>
  What has become of an event loop: it has returned or panicked, or (\<open>None\<close>) it still runs. The loops of
  the readiness and of the io_uring runtime are arguments here. On Linux kqueue is refused.
\<close>

type_synonym run_outcome = "(io_error + unit) outcome option"

definition run_runtime ::
  "(usize \<Rightarrow> 'ctx \<Rightarrow> run_outcome) \<Rightarrow> (io_uring_runtime \<Rightarrow> 'ctx \<Rightarrow> run_outcome) \<Rightarrow>
   selected_runtime \<Rightarrow> 'ctx \<Rightarrow> run_outcome" where
  "run_runtime readiness uring r ctx = (case r of
     REpoll max_events \<Rightarrow> readiness max_events ctx
   | RKqueue _ \<Rightarrow> Some (Return (Inl (Custom KUnsupported ''kqueue is only supported on macOS and BSD'')))
   | RIoUring rt \<Rightarrow> uring rt ctx)"

definition run_epoll_with_shutdown ::
  "('cert, 'key, 'builder, 'sc) tls_lib \<Rightarrow> (usize \<Rightarrow> ('s, 'sc) worker_context \<Rightarrow> run_outcome) \<Rightarrow>
   's bound_listener_group list \<Rightarrow> server list \<Rightarrow> usize \<Rightarrow> run_outcome" where
  "run_epoll_with_shutdown lib readiness groups servers max_events =
     (case load_ssl_configs lib servers of
        Inl e \<Rightarrow> Some (Return (Inl e))
      | Inr ssl_configs \<Rightarrow> readiness max_events \<lparr>ctx_listener_groups = groups, ctx_servers = servers,
          ctx_ssl_configs = ssl_configs, ctx_limits = worker_limits_default,
          ctx_proxy_limits = proxy_limits_default, ctx_dns_limits = dns_limits_default,
          ctx_metrics = worker_metrics_default, ctx_upstream_groups = []\<rparr>)"

section \<open>Starting a worker\<close>

text \<open>\<open>core_ids\<close> and \<open>set_affinity\<close> are core_affinity's; an empty list makes the modulus panic.\<close>

definition pin_to_cpu :: "'c list option \<Rightarrow> ('c \<Rightarrow> bool) \<Rightarrow> nat \<Rightarrow> (io_error + unit) outcome" where
  "pin_to_cpu core_ids set_affinity cpu_id = (case core_ids of
     None \<Rightarrow> Return (Inl (Custom KUnsupported ''CPU affinity is unavailable''))
   | Some cores \<Rightarrow>
       if length cores = 0 then Panic
       else (case get cores (cpu_id mod length cores) of
               None \<Rightarrow> Return (Inl (Custom KInvalidInput ''no CPU cores are available''))
             | Some core \<Rightarrow>
                 if set_affinity core then Return (Inr ())
                 else Return (Inl (Custom KOther ''failed to set worker CPU affinity''))))"

text \<open>
  The signal handlers: \<open>registered\<close> is the result of registering them, with the first signal that arrives,
  if any. The result is what the spawned thread does with the shutdown handle.
\<close>

definition install_shutdown_signals :: "io_error + int option \<Rightarrow> io_error + shutdown_action list" where
  "install_shutdown_signals registered = (case registered of
     Inl e \<Rightarrow> Inl e
   | Inr signal \<Rightarrow> Inr (if signal \<noteq> None then request_steps else []))"

record ('c, 'cert, 'key, 'builder, 'sc, 's) startup_env =
  se_signals :: "io_error + int option"
  se_core_ids :: "'c list option"
  se_set_affinity :: "'c \<Rightarrow> bool"
  se_probe :: "io_uring_runtime \<Rightarrow> (io_error + unit) outcome"
  se_tls :: "('cert, 'key, 'builder, 'sc) tls_lib"
  se_sockets :: "'s socket_ops"
  se_readiness :: "usize \<Rightarrow> ('s, 'sc) worker_context \<Rightarrow> run_outcome"
  se_uring :: "io_uring_runtime \<Rightarrow> ('s, 'sc) worker_context \<Rightarrow> run_outcome"

definition worker_context_of ::
  "config \<Rightarrow> 'sc loaded_ssl_config option list \<Rightarrow> 's bound_listener_group list \<Rightarrow> ('s, 'sc) worker_context" where
  "worker_context_of c ssl_configs groups = \<lparr>ctx_listener_groups = groups, ctx_servers = http_servers c,
     ctx_ssl_configs = ssl_configs, ctx_limits = worker_limits_from_config (worker c),
     ctx_proxy_limits = proxy_limits_from_config (proxy c), ctx_dns_limits = dns_limits_from_config (dns c),
     ctx_metrics = worker_metrics_default, ctx_upstream_groups = upstreams c\<rparr>"

text \<open>The result, and what is reported of it: nothing when the worker never ran, still runs or has panicked.\<close>

definition start_worker ::
  "('c, 'cert, 'key, 'builder, 'sc, 's) startup_env \<Rightarrow> nat \<Rightarrow> config \<Rightarrow> run_outcome \<times> (bytes \<times> bytes) option" where
  "start_worker env cpu_id c =
     (case install_shutdown_signals (se_signals env) of Inl e \<Rightarrow> (Some (Return (Inl e)), None) | Inr _ \<Rightarrow>
     (case pin_to_cpu (se_core_ids env) (se_set_affinity env) cpu_id of
        Panic \<Rightarrow> (Some Panic, None) | Return (Inl e) \<Rightarrow> (Some (Return (Inl e)), None) | Return (Inr _) \<Rightarrow>
     (case select_runtime (se_probe env) (runtime c) of Panic \<Rightarrow> (Some Panic, None) | Return rt \<Rightarrow>
     (case load_ssl_configs (se_tls env) (http_servers c) of Inl e \<Rightarrow> (Some (Return (Inl e)), None) | Inr ssl_configs \<Rightarrow>
     (case bind_worker_listeners (se_sockets env) c of Inl e \<Rightarrow> (Some (Return (Inl e)), None) | Inr groups \<Rightarrow>
      (let result = run_runtime (se_readiness env) (se_uring env) rt (worker_context_of c ssl_configs groups)
       in (result, case result of
             Some (Return r) \<Rightarrow> Some (runtime_name rt, if isl r then ''error'' else ''clean'')
           | _ \<Rightarrow> None)))))))"

section \<open>Properties\<close>

text \<open>
  C32. No lost shutdown with io_uring: in every interleaving of a shutdown request with the
  installation of the eventfd, whatever happened before, the request is recorded and the eventfd is
  written after it was installed, so the worker is woken.
\<close>

theorem eventfd_shutdown_not_lost:
  assumes "as \<in> shuffles request_steps install_eventfd_steps"
  shows "sd_requested (run_actions as s) \<and> sd_writes s < sd_writes (run_actions as s)"
  using assms
  by (auto simp: request_steps_def install_eventfd_steps_def run_actions_def perform_def)

theorem eventfd_shutdown_not_lost_witness:
  "sd_writes (run_actions [StoreRequested, WakeWaker, WriteEventfd, InstallEventfd, CheckRequested]
     shutdown_default) > 0"
proof -
  have "[StoreRequested, WakeWaker, WriteEventfd, InstallEventfd, CheckRequested]
      \<in> shuffles request_steps install_eventfd_steps"
    by (simp add: request_steps_def install_eventfd_steps_def)
  from eventfd_shutdown_not_lost[OF this, of shutdown_default] show ?thesis by simp
qed

text \<open>
  TLS loading keeps positions: the loaded list has one entry per server, present exactly for
  the servers with TLS settings, with the configured handshake timeout and a non-empty certificate
  chain; so the length check of the runtimes cannot fail for a worker that was started.
\<close>

theorem load_ssl_configs_positions:
  assumes "load_ssl_configs lib servers = Inr cs"
  shows "length cs = length servers
     \<and> (\<forall>i < length servers. case ssl (servers ! i) of
          None \<Rightarrow> cs ! i = None
        | Some c \<Rightarrow> \<exists>l. cs ! i = Some l \<and> ls_handshake_timeout l = unat (handshake_timeout_ms c)
            \<and> (\<exists>certs. load_certificates lib (certificate_path c) = Inr certs \<and> certs \<noteq> []))"
proof -
  let ?f = "\<lambda>s. case ssl s of None \<Rightarrow> Inr None
    | Some c \<Rightarrow> (case load_ssl_config lib c of Inl e \<Rightarrow> Inl e | Inr l \<Rightarrow> Inr (Some l))"
  have m: "map ?f servers = map Inr cs" using assms by (simp add: load_ssl_configs_def collect_results_Inr_iff)
  then have len: "length cs = length servers" by (metis length_map)
  have i: "?f (servers ! i) = Inr (cs ! i)" if "i < length servers" for i
    using m that len by (metis nth_map)
  have "case ssl s of None \<Rightarrow> x = None | Some c \<Rightarrow> \<exists>l. x = Some l
      \<and> ls_handshake_timeout l = unat (handshake_timeout_ms c)
      \<and> (\<exists>certs. load_certificates lib (certificate_path c) = Inr certs \<and> certs \<noteq> [])"
    if "?f s = Inr x" for s x
    using that
    by (auto simp: load_ssl_config_def load_certificates_def split: option.splits sum.splits if_splits)
  with i len show ?thesis by blast
qed

definition sample_tls :: "(unit, unit, unit, unit) tls_lib" where
  "sample_tls = \<lparr>tls_open = (\<lambda>_. Inr ''pem''), tls_certs = (\<lambda>_. Inr [()]), tls_private_key = (\<lambda>_. Inr (Some ())),
     tls_with_versions = (\<lambda>_ _. Inr ()), tls_with_cert = (\<lambda>_ _ _. Inr ()), tls_debug_path = id,
     tls_show_io = (\<lambda>_. [])\<rparr>"

theorem load_ssl_configs_positions_witness:
  "\<exists>cs. load_ssl_configs sample_tls
     [\<lparr>server_name = None, locations = [], listen = SocketV4 0 443, ssl = Some \<lparr>certificate_path = ''c'',
        private_key_path = ''k'', handshake_timeout_ms = 7, protocols = [Tlsv1_3], ciphers = []\<rparr>\<rparr>] = Inr cs
   \<and> length cs = 1 \<and> (\<exists>l. cs ! 0 = Some l \<and> ls_handshake_timeout l = 7)"
proof -
  let ?c = "\<lparr>certificate_path = ''c'', private_key_path = ''k'', handshake_timeout_ms = 7,
     protocols = [Tlsv1_3], ciphers = []\<rparr>"
  let ?s = "[\<lparr>server_name = None, locations = [], listen = SocketV4 0 443, ssl = Some ?c\<rparr>]"
  obtain cs where cs: "load_ssl_configs sample_tls ?s = Inr cs"
    by (simp add: load_ssl_configs_def load_ssl_config_def load_certificates_def load_private_key_def sample_tls_def)
  from load_ssl_configs_positions[OF cs] cs show ?thesis by auto
qed

text \<open>
  Starting a worker: the worker runs only if every earlier step succeeded, and then on the
  runtime the configuration selects, with the context the runtimes rely on: one TLS entry per
  server and one bound group per listener group of the configuration, in order.
\<close>

theorem start_worker_context:
  assumes "snd (start_worker env cpu_id c) = Some (name, result_text)"
  shows "\<exists>rt ssl_configs groups result. select_runtime (se_probe env) (runtime c) = Return rt \<and> name = runtime_name rt
     \<and> length ssl_configs = length (http_servers c)
     \<and> map bl_server_indices groups = map lg_server_indices (listener_groups (http_servers c))
     \<and> map bl_address groups = map lg_address (listener_groups (http_servers c))
     \<and> map bl_default_server groups = map lg_default_server (listener_groups (http_servers c))
     \<and> run_runtime (se_readiness env) (se_uring env) rt (worker_context_of c ssl_configs groups) = Some (Return result)
     \<and> fst (start_worker env cpu_id c) = Some (Return result) \<and> (result_text = ''clean'' \<longleftrightarrow> \<not> isl result)"
proof -
  obtain rt sc groups result where *: "select_runtime (se_probe env) (runtime c) = Return rt"
    "load_ssl_configs (se_tls env) (http_servers c) = Inr sc"
    "bind_worker_listeners (se_sockets env) c = Inr groups"
    "run_runtime (se_readiness env) (se_uring env) rt (worker_context_of c sc groups) = Some (Return result)"
    "start_worker env cpu_id c = (Some (Return result), Some (runtime_name rt, if isl result then ''error'' else ''clean''))"
    using assms by (auto simp: start_worker_def Let_def split: sum.splits outcome.splits option.splits)
  have "length sc = length (http_servers c)"
    using *(2) by (metis collect_results_Inr_iff length_map load_ssl_configs_def)
  moreover have "map bl_server_indices groups = map lg_server_indices (listener_groups (http_servers c))"
    "map bl_address groups = map lg_address (listener_groups (http_servers c))"
    "map bl_default_server groups = map lg_default_server (listener_groups (http_servers c))"
    using bind_worker_listeners_Inr[OF *(3)] by (simp_all add: list_all2_conv_all_nth list_eq_iff_nth_eq)
  moreover have "name = runtime_name rt" "result_text = ''clean'' \<longleftrightarrow> \<not> isl result" using assms *(5) by auto
  ultimately show ?thesis using *(1,4,5) by (metis fst_conv)
qed

definition sample_env :: "(nat, unit, unit, unit, unit, socket_addr) startup_env" where
  "sample_env = \<lparr>se_signals = Inr (Some 15), se_core_ids = Some [0, 1], se_set_affinity = (\<lambda>_. True),
     se_probe = (\<lambda>_. Return (Inl (Os EINVAL))), se_tls = sample_tls,
     se_sockets = \<lparr>sock_new = Inr, sock_set_reuse_address = Inr, sock_set_reuse_port = Inr,
       sock_set_nonblocking = Inr, sock_bind = (\<lambda>s _. Inr s), sock_listen = (\<lambda>s _. Inr s)\<rparr>,
     se_readiness = (\<lambda>_ _. Some (Return (Inr ()))), se_uring = (\<lambda>_ _. Some (Return (Inr ())))\<rparr>"

theorem start_worker_context_witness:
  "\<exists>ssl_configs :: unit loaded_ssl_config option list. length ssl_configs = 1
     \<and> fst (start_worker sample_env 3 (config_default None)) = Some (Return (Inr ()))"
proof -
  have s: "start_worker sample_env 3 (config_default None) = (Some (Return (Inr ())), Some (''epoll'', ''clean''))"
    by (simp add: start_worker_def install_shutdown_signals_def sample_env_def pin_to_cpu_def get_def select_runtime_def select_auto_runtime_def
        config_default_def async_runtime_config_default_def load_ssl_configs_def bind_worker_listeners_def
        listener_groups_def group_server_def bind_group_def bind_worker_listener_def DEFAULT_BACKLOG_def
        run_runtime_def runtime_name_def)
  then have "snd (start_worker sample_env 3 (config_default None)) = Some (''epoll'', ''clean'')" by simp
  from start_worker_context[OF this] s show ?thesis by (auto simp: config_default_def)
qed

text \<open>
  Pinning spreads the workers over the cores cyclically, and the error for an empty list of
  cores is unreachable: the modulus panics first.
\<close>

lemma pin_to_cpu_spec:
  "pin_to_cpu (Some cores) set_affinity cpu =
     (if cores = [] then Panic
      else if set_affinity (cores ! (cpu mod length cores)) then Return (Inr ())
      else Return (Inl (Custom KOther ''failed to set worker CPU affinity'')))"
  by (simp add: pin_to_cpu_def get_def)

end
