(* ===== verification/Identity.thy ===== *)
theory Identity
  imports Prelude
begin

text \<open>
  Two interfaces that both worker runtimes rely on. A slot of the connection slab is reused, so an
  operating-system event carries the slot together with a generation: \<open>id_codec\<close> is the contract of
  the packing of an identity into the 64-bit word of an event, \<open>generation_counter\<close> the contract of
  the generation that a reused slot gets, and \<open>slot_ids\<close> puts them together: an event of an earlier
  occupant of a slot is not mistaken for one of its current occupant.
\<close>

section \<open>Codecs\<close>

locale id_codec =
  fixes valid_id :: "'id \<Rightarrow> bool"
    and enc :: "'id \<Rightarrow> u64"
    and dec_id :: "u64 \<Rightarrow> 'id option"
    and reserved :: "u64 set"
  assumes dec_enc: "valid_id i \<Longrightarrow> dec_id (enc i) = Some i"
    and dec_sound: "dec_id w = Some i \<Longrightarrow> valid_id i \<and> enc i = w"
    and dec_reserved: "w \<in> reserved \<Longrightarrow> dec_id w = None"
begin

lemma dec_iff: "dec_id w = Some i \<longleftrightarrow> valid_id i \<and> enc i = w"
  using dec_enc dec_sound by blast

lemma enc_inj: "valid_id i \<Longrightarrow> valid_id j \<Longrightarrow> enc i = enc j \<longleftrightarrow> i = j"
  using dec_enc by (metis option.inject)

lemma enc_not_reserved: "valid_id i \<Longrightarrow> enc i \<notin> reserved"
  using dec_enc dec_reserved by fastforce

end

section \<open>Generations\<close>

text \<open>\<open>index\<close> numbers the valid generations, and \<open>next_gen\<close> goes through them cyclically.\<close>

locale generation_counter =
  fixes valid_gen :: "'g \<Rightarrow> bool"
    and next_gen :: "'g \<Rightarrow> 'g"
    and index :: "'g \<Rightarrow> nat"
    and period :: nat
  assumes index_bound: "valid_gen g \<Longrightarrow> index g < period"
    and index_inj: "valid_gen g \<Longrightarrow> valid_gen h \<Longrightarrow> index g = index h \<Longrightarrow> g = h"
    and next_valid: "valid_gen g \<Longrightarrow> valid_gen (next_gen g)"
    and next_index: "valid_gen g \<Longrightarrow> index (next_gen g) = (index g + 1) mod period"
begin

lemma iterate:
  assumes "valid_gen g"
  shows "valid_gen ((next_gen ^^ k) g) \<and> index ((next_gen ^^ k) g) = (index g + k) mod period"
  using assms
  by (induction k) (auto simp: next_valid next_index index_bound mod_simps)

text \<open>A generation comes back after the whole period and not before.\<close>

lemma recurs_iff:
  assumes "valid_gen g"
  shows "(next_gen ^^ k) g = g \<longleftrightarrow> period dvd k"
proof -
  have "(next_gen ^^ k) g = g \<longleftrightarrow> (index g + k) mod period = index g"
    using iterate[OF assms, of k] index_inj[OF _ assms] by metis
  also have "\<dots> \<longleftrightarrow> (index g + k) mod period = index g mod period"
    using index_bound[OF assms] by simp
  also have "\<dots> \<longleftrightarrow> period dvd k"
    by (metis add_diff_cancel_left' le_add1 mod_eq_dvd_iff_nat)
  finally show ?thesis .
qed

end

section \<open>Identities of reused slots\<close>

locale slot_ids = id_codec valid_id enc dec_id reserved + generation_counter valid_gen next_gen index period
  for valid_id :: "'id \<Rightarrow> bool" and enc dec_id reserved
    and valid_gen :: "'g \<Rightarrow> bool" and next_gen index period +
  fixes make_id :: "'s \<Rightarrow> 'g \<Rightarrow> 'r \<Rightarrow> 'id"
  assumes make_inj: "make_id s g r = make_id s' g' r' \<longleftrightarrow> s = s' \<and> g = g' \<and> r = r'"
begin

lemma stale_distinct:
  assumes "valid_gen g" and "\<not> period dvd k"
    and "valid_id (make_id s g r)" and "valid_id (make_id s ((next_gen ^^ k) g) r')"
  shows "enc (make_id s g r) \<noteq> enc (make_id s ((next_gen ^^ k) g) r')"
proof -
  have "(next_gen ^^ k) g \<noteq> g" using recurs_iff[OF assms(1)] assms(2) by blast
  then show ?thesis using enc_inj[OF assms(3,4)] make_inj by metis
qed

end

end
