(* ===== verification/Token.thy ===== *)
theory Token
  imports Identity Rust_Io
begin

unbundle bit_operations_syntax

text \<open>
  The mio tokens of the readiness runtime, \<open>runtime/readiness/token.rs\<close>: the packing of a slab slot,
  its generation and the side of a proxied connection into one word.
\<close>

section \<open>Tokens\<close>

definition CONTROL_TOKEN :: usize where "CONTROL_TOKEN = - 1"
definition CONNECTION_TAG :: usize where "CONNECTION_TAG = push_bit 63 1"
definition UPSTREAM_TAG :: usize where "UPSTREAM_TAG = push_bit 62 1"
definition SLOT_BITS :: nat where "SLOT_BITS = 32"
definition SLOT_MASK :: usize where "SLOT_MASK = push_bit SLOT_BITS 1 - 1"
definition GENERATION_BITS :: nat where "GENERATION_BITS = 64 - SLOT_BITS - 2"
definition GENERATION_MASK :: usize where "GENERATION_MASK = push_bit GENERATION_BITS 1 - 1"

record connection_id =
  cid_slot :: usize
  cid_generation :: usize

datatype socket_role = Client | Upstream

definition token :: "connection_id \<Rightarrow> socket_role \<Rightarrow> io_error + usize" where
  "token c role =
     (if cid_slot c > SLOT_MASK \<or> cid_generation c = 0 \<or> cid_generation c > GENERATION_MASK
      then Inl (Custom KInvalidInput ''connection identifier cannot be encoded as a mio token'')
      else
        let role_tag = (case role of Client \<Rightarrow> 0 | Upstream \<Rightarrow> UPSTREAM_TAG);
            t = CONNECTION_TAG OR role_tag OR push_bit SLOT_BITS (cid_generation c) OR cid_slot c
        in if t = CONTROL_TOKEN
           then Inl (Custom KInvalidInput ''connection identifier collides with the control token'')
           else Inr t)"

definition from_token :: "usize \<Rightarrow> (connection_id \<times> socket_role) option" where
  "from_token t =
     (if t = CONTROL_TOKEN \<or> t AND CONNECTION_TAG = 0 then None
      else
        let generation = drop_bit SLOT_BITS t AND GENERATION_MASK;
            role = (if t AND UPSTREAM_TAG = 0 then Client else Upstream)
        in if generation \<noteq> 0
           then Some (\<lparr>cid_slot = t AND SLOT_MASK, cid_generation = generation\<rparr>, role)
           else None)"

definition next_generation :: "usize \<Rightarrow> usize" where
  "next_generation previous =
     (let nxt = (previous + 1) AND GENERATION_MASK in if nxt = 0 then 1 else nxt)"

section \<open>The packing\<close>

lemma SLOT_MASK_mask: "SLOT_MASK = mask 32"
  by (simp add: SLOT_MASK_def SLOT_BITS_def mask_eq_exp_minus_1 push_bit_eq_mult)

lemma GENERATION_MASK_mask: "GENERATION_MASK = mask 30"
  by (simp add: GENERATION_MASK_def GENERATION_BITS_def SLOT_BITS_def mask_eq_exp_minus_1 push_bit_eq_mult)

lemma le_mask_take_bit:
  assumes "n \<le> LENGTH('a)"
  shows "(w::'a::len word) \<le> mask n \<longleftrightarrow> take_bit n w = w"
proof -
  have "(2::nat) ^ n \<le> 2 ^ LENGTH('a)" using assms by (rule power_increasing) simp
  then have "mask n < (2::nat) ^ LENGTH('a)" using mask_nat_less_exp[of n] by linarith
  then have m: "unat (mask n :: 'a word) = 2 ^ n - 1"
    using unat_of_nat_small[of "mask n", where 'a = 'a] by (simp add: of_nat_mask_eq mask_eq_exp_minus_1)
  obtain k where k: "(2::nat) ^ n = Suc k" using not0_implies_Suc[of "2 ^ n"] by auto
  have "w \<le> mask n \<longleftrightarrow> unat w < 2 ^ n"
    unfolding word_le_nat_alt m k by (simp add: less_Suc_eq_le)
  also have "\<dots> \<longleftrightarrow> take_bit n (unat w) = unat w" by (simp add: take_bit_nat_eq_self_iff)
  also have "\<dots> \<longleftrightarrow> take_bit n w = w" by (metis unsigned_take_bit_eq unsigned_word_eqI)
  finally show ?thesis .
qed

lemma bit_exp: "k < 64 \<Longrightarrow> bit (2 ^ k :: u64) n \<longleftrightarrow> n = k"
  by (auto simp: bit_exp_iff)

lemma and_exp_eq_0: "k < 64 \<Longrightarrow> (w::u64) AND 2 ^ k = 0 \<longleftrightarrow> \<not> bit w k"
proof -
  assume k: "k < 64"
  have "w AND 2 ^ k = (if bit w k then 2 ^ k else 0)"
    by (rule bit_word_eqI) (auto simp: bit_and_iff bit_exp k)
  moreover have "bit (2 ^ k :: u64) k" using k by (simp add: bit_exp)
  then have "(2::u64) ^ k \<noteq> 0" by (metis bit_0_eq bot_apply bot_bool_def)
  ultimately show ?thesis by presburger
qed

definition pack :: "usize \<Rightarrow> usize \<Rightarrow> bool \<Rightarrow> usize" where
  "pack s g up = 2 ^ 63 OR (if up then 2 ^ 62 else 0) OR push_bit 32 g OR s"

lemma bit_pack:
  assumes "n < 64"
  shows "bit (pack s g up) n \<longleftrightarrow> n = 63 \<or> up \<and> n = 62 \<or> 32 \<le> n \<and> bit g (n - 32) \<or> bit s n"
proof -
  have t: "bit (2 ^ 63 :: usize) n \<longleftrightarrow> n = 63" "bit (2 ^ 62 :: usize) n \<longleftrightarrow> n = 62"
    by (simp_all only: bit_exp)
  have "bit (push_bit 32 g) n \<longleftrightarrow> 32 \<le> n \<and> bit g (n - 32)"
    using assms by (simp add: bit_push_bit_iff)
  then show ?thesis
    by (cases up) (simp_all only: pack_def bit_or_iff if_True if_False t bit_0_eq simp_thms, simp_all)
qed

lemma pack_fields:
  assumes "take_bit 32 s = s" and "take_bit 30 g = g"
  shows "pack s g up AND mask 32 = s" "drop_bit 32 (pack s g up) AND mask 30 = g"
    "bit (pack s g up) 63" "bit (pack s g up) 62 \<longleftrightarrow> up"
proof -
  have s: "bit s n \<Longrightarrow> n < 32" and g: "bit g n \<Longrightarrow> n < 30" for n
    using assms by (metis bit_take_bit_iff)+
  show "pack s g up AND mask 32 = s"
    by (rule bit_word_eqI) (auto simp: bit_pack bit_and_iff bit_mask_iff dest: s)
  show "drop_bit 32 (pack s g up) AND mask 30 = g"
  proof (rule bit_word_eqI)
    fix n
    show "bit (drop_bit 32 (pack s g up) AND mask 30) n = bit g n"
      using s[of "32 + n"] g[of n]
      by (cases "n < 30") (auto simp: bit_pack bit_and_iff bit_mask_iff bit_drop_bit_eq)
  qed
  show "bit (pack s g up) 63" "bit (pack s g up) 62 \<longleftrightarrow> up"
    using s[of 62] g[of 30] by (auto simp: bit_pack)
qed

lemma pack_unpack:
  assumes "bit t 63"
  shows "pack (t AND mask 32) (drop_bit 32 t AND mask 30) (bit t 62) = t"
proof (rule bit_word_eqI)
  fix n assume n: "n < LENGTH(64)"
  then have "n = 63 \<or> n = 62 \<or> 32 \<le> n \<and> n < 62 \<or> n < 32" by auto
  then show "bit (pack (t AND mask 32) (drop_bit 32 t AND mask 30) (bit t 62)) n = bit t n"
    using n assms by (auto simp: bit_pack bit_and_iff bit_mask_iff bit_drop_bit_eq)
qed

lemma token_consts:
  "CONNECTION_TAG = 2 ^ 63" "UPSTREAM_TAG = 2 ^ 62"
  by (simp_all add: CONNECTION_TAG_def UPSTREAM_TAG_def)

lemma tag_bits: "t AND CONNECTION_TAG = 0 \<longleftrightarrow> \<not> bit t 63" "t AND UPSTREAM_TAG = 0 \<longleftrightarrow> \<not> bit t 62"
  unfolding token_consts by (simp_all only: and_exp_eq_0)

section \<open>Tokens as a codec\<close>

definition valid_token_id :: "connection_id \<times> socket_role \<Rightarrow> bool" where
  "valid_token_id = (\<lambda>(c, role). (\<exists>t. token c role = Inr t))"

definition token_word :: "connection_id \<times> socket_role \<Rightarrow> usize" where
  "token_word = (\<lambda>(c, role). pack (cid_slot c) (cid_generation c) (role = Upstream))"

lemma token_Inr_iff:
  "token c role = Inr t \<longleftrightarrow>
     take_bit 32 (cid_slot c) = cid_slot c \<and> take_bit 30 (cid_generation c) = cid_generation c
   \<and> cid_generation c \<noteq> 0 \<and> t = token_word (c, role) \<and> t \<noteq> CONTROL_TOKEN"
proof -
  have p: "CONNECTION_TAG OR (case role of Client \<Rightarrow> 0 | Upstream \<Rightarrow> UPSTREAM_TAG)
      OR push_bit SLOT_BITS (cid_generation c) OR cid_slot c = token_word (c, role)"
    by (cases role) (simp_all only: token_word_def pack_def token_consts SLOT_BITS_def prod.case
        socket_role.case socket_role.distinct simp_thms if_True if_False)
  have m: "\<not> cid_slot c > SLOT_MASK \<longleftrightarrow> take_bit 32 (cid_slot c) = cid_slot c"
    "\<not> cid_generation c > GENERATION_MASK \<longleftrightarrow> take_bit 30 (cid_generation c) = cid_generation c"
    by (simp_all add: SLOT_MASK_mask GENERATION_MASK_mask not_less le_mask_take_bit)
  show ?thesis unfolding token_def p Let_def using m by auto
qed

lemma from_token_Some_iff:
  "from_token t = Some (c, role) \<longleftrightarrow> token c role = Inr t"
proof
  assume a: "token c role = Inr t"
  then have tb: "take_bit 32 (cid_slot c) = cid_slot c" "take_bit 30 (cid_generation c) = cid_generation c"
    "cid_generation c \<noteq> 0" "t \<noteq> CONTROL_TOKEN" and t: "t = pack (cid_slot c) (cid_generation c) (role = Upstream)"
    by (auto simp: token_Inr_iff token_word_def)
  note f = pack_fields[OF tb(1,2), of "role = Upstream", folded t]
  then show "from_token t = Some (c, role)"
    using tb by (cases role)
      (simp_all add: from_token_def tag_bits SLOT_BITS_def SLOT_MASK_mask GENERATION_MASK_mask)
next
  assume a: "from_token t = Some (c, role)"
  then have b: "bit t 63" "t \<noteq> CONTROL_TOKEN"
    by (simp_all add: from_token_def tag_bits split: if_splits)
  from a b have c: "c = \<lparr>cid_slot = t AND mask 32, cid_generation = drop_bit 32 t AND mask 30\<rparr>"
    "role = (if bit t 62 then Upstream else Client)" "drop_bit 32 t AND mask 30 \<noteq> 0"
    by (auto simp: from_token_def tag_bits SLOT_BITS_def SLOT_MASK_mask GENERATION_MASK_mask Let_def
        split: if_splits)
  have "take_bit 32 (t AND mask 32) = t AND mask 32" "take_bit 30 (drop_bit 32 t AND mask 30) = drop_bit 32 t AND mask 30"
    by (simp_all flip: take_bit_eq_mask)
  moreover have "token_word (c, role) = t"
    using pack_unpack[OF b(1)] c by (cases "bit t 62") (simp_all add: token_word_def)
  ultimately show "token c role = Inr t" using b c by (simp add: token_Inr_iff)
qed

section \<open>Generations and the contract\<close>

definition valid_generation :: "usize \<Rightarrow> bool" where
  "valid_generation g \<longleftrightarrow> 0 < unat g \<and> unat g < 2 ^ 30"

lemma take_bit_30_iff: "take_bit 30 (g::usize) = g \<longleftrightarrow> unat g < 2 ^ 30"
  by (metis take_bit_nat_eq_self_iff unsigned_take_bit_eq unsigned_word_eqI)

lemma unat_next_generation:
  assumes "unat g < 2 ^ 30"
  shows "unat (next_generation g) = (if unat g = 2 ^ 30 - 1 then 1 else unat g + 1)"
proof -
  have u: "unat (g + 1) = unat g + 1" using assms by (intro unat_Suc_small) simp
  have "unat ((g + 1) AND GENERATION_MASK) = (unat g + 1) mod 2 ^ 30"
    unfolding GENERATION_MASK_mask take_bit_eq_mask[symmetric] unsigned_take_bit_eq u by (rule take_bit_eq_mod)
  moreover have "(unat g + 1) mod 2 ^ 30 = (if unat g = 2 ^ 30 - 1 then 0 else unat g + 1)"
    using assms by auto
  ultimately show ?thesis
    by (auto simp: next_generation_def Let_def unat_eq_zero split: if_splits)
qed

interpretation tok: slot_ids valid_token_id token_word from_token
  "{t. t = CONTROL_TOKEN \<or> \<not> bit t 63}" valid_generation next_generation "\<lambda>g. unat g - 1" "2 ^ 30 - 1"
  "\<lambda>s g role. (\<lparr>cid_slot = s, cid_generation = g\<rparr>, role)"
proof unfold_locales
  show "from_token (token_word i) = Some i" if "valid_token_id i" for i
    using that by (cases i) (auto simp: valid_token_id_def from_token_Some_iff token_Inr_iff)
  show "valid_token_id i \<and> token_word i = w" if "from_token w = Some i" for i w
    using that by (cases i) (auto simp: valid_token_id_def from_token_Some_iff token_Inr_iff)
  show "from_token w = None" if "w \<in> {t. t = CONTROL_TOKEN \<or> \<not> bit t 63}" for w
    using that by (auto simp: from_token_def tag_bits)
  show "unat g - 1 < 2 ^ 30 - 1" if "valid_generation g" for g
    using that by (auto simp: valid_generation_def)
  show "g = h" if "valid_generation g" "valid_generation h" "unat g - 1 = unat h - 1" for g h
    using that by (auto simp: valid_generation_def intro!: word_unat_eq_iff[THEN iffD2])
  show "valid_generation (next_generation g)" if "valid_generation g" for g
    using that by (auto simp: valid_generation_def unat_next_generation)
  show "unat (next_generation g) - 1 = (unat g - 1 + 1) mod (2 ^ 30 - 1)" if "valid_generation g" for g
    using that by (auto simp: valid_generation_def unat_next_generation)
qed auto

text \<open>
  Tokens and connection identities correspond one to one: a token decodes to an identity and a
  role exactly when that identity and role encode to this token, and neither the control token nor
  a listener's token (a word without the connection bit) decodes at all.
\<close>

theorem token_roundtrip:
  "(from_token t = Some (c, role) \<longleftrightarrow> token c role = Inr t)
   \<and> from_token CONTROL_TOKEN = None \<and> from_token (t AND mask 63) = None"
  using from_token_Some_iff[of t c role] tok.dec_reserved[of CONTROL_TOKEN]
    tok.dec_reserved[of "t AND mask 63"]
  by (simp add: bit_and_iff bit_mask_iff)

text \<open>
  C26. No confusion after reuse: the token of an earlier occupant of a slot differs from the token of
  the occupant \<open>k\<close> reuses later, in either role, unless \<open>k\<close> is a multiple of \<open>2 ^ 30 - 1\<close>.
\<close>

theorem stale_token_distinct:
  assumes "token \<lparr>cid_slot = s, cid_generation = g\<rparr> r = Inr t"
    and "token \<lparr>cid_slot = s, cid_generation = (next_generation ^^ k) g\<rparr> r' = Inr t'"
    and "\<not> (2 ^ 30 - 1) dvd k"
  shows "t \<noteq> t'"
proof -
  have "take_bit 30 g = g" "g \<noteq> 0" using assms(1) by (auto simp: token_Inr_iff)
  then have "valid_generation g" by (simp add: valid_generation_def take_bit_30_iff unat_gt_0)
  from tok.stale_distinct[OF this assms(3), of s r r'] assms(1,2) show ?thesis
    by (auto simp: valid_token_id_def token_Inr_iff)
qed

theorem stale_token_distinct_witness:
  "\<exists>t t'. token \<lparr>cid_slot = 5, cid_generation = 1\<rparr> Client = Inr t
     \<and> token \<lparr>cid_slot = 5, cid_generation = 2\<rparr> Upstream = Inr t' \<and> t \<noteq> t'"
proof -
  have t: "token \<lparr>cid_slot = 5, cid_generation = 1\<rparr> Client = Inr 0x8000000100000005"
    "token \<lparr>cid_slot = 5, cid_generation = 2\<rparr> Upstream = Inr 0xC000000200000005"
    by (simp_all add: token_def SLOT_MASK_def SLOT_BITS_def GENERATION_MASK_def GENERATION_BITS_def
        CONNECTION_TAG_def UPSTREAM_TAG_def CONTROL_TOKEN_def)
  have "(next_generation ^^ 1) 1 = 2"
    by (simp add: next_generation_def GENERATION_MASK_def GENERATION_BITS_def SLOT_BITS_def)
  with t(2) have "token \<lparr>cid_slot = 5, cid_generation = (next_generation ^^ 1) 1\<rparr> Upstream
      = Inr 0xC000000200000005" by simp
  from stale_token_distinct[OF t(1) this] t show ?thesis by auto
qed

end
