(* ===== verification/Operation.thy ===== *)
theory Operation
  imports Identity
begin

unbundle bit_operations_syntax

text \<open>
  The \<open>user_data\<close> words of the io_uring runtime, \<open>runtime/io_uring/operation.rs\<close>: the packing of the
  kind of an operation, the generation and the slot, the reserved words, and the generation counter
  of \<open>runtime/io_uring/connection.rs\<close>.
\<close>

section \<open>Operations\<close>

datatype operation_kind = Accept | Read | Write | ProxyConnect | ProxyWrite | ProxyRead

definition kind_code :: "operation_kind \<Rightarrow> u64" where
  "kind_code k = (case k of
     Accept \<Rightarrow> 1 | Read \<Rightarrow> 2 | Write \<Rightarrow> 3 | ProxyConnect \<Rightarrow> 4 | ProxyWrite \<Rightarrow> 5 | ProxyRead \<Rightarrow> 6)"

record operation_id =
  op_slot :: u32
  op_generation :: u16
  op_kind :: operation_kind

definition CONTROL_USER_DATA :: u64 where "CONTROL_USER_DATA = 0"
definition CANCEL_USER_DATA :: u64 where "CANCEL_USER_DATA = - 1"
definition DNS_USER_DATA :: u64 where "DNS_USER_DATA = - 1 - 1"
definition TIMER_USER_DATA :: u64 where "TIMER_USER_DATA = - 1 - 2"
definition PROXY_CANCEL_USER_DATA :: u64 where "PROXY_CANCEL_USER_DATA = - 1 - 3"

definition encode :: "operation_id \<Rightarrow> u64" where
  "encode i = push_bit 48 (kind_code (op_kind i)) OR push_bit 32 (ucast (op_generation i)) OR ucast (op_slot i)"

definition decode_kind :: "u16 \<Rightarrow> operation_kind option" where
  "decode_kind k =
     (if k = 1 then Some Accept
      else if k = 2 then Some Read
      else if k = 3 then Some Write
      else if k = 4 then Some ProxyConnect
      else if k = 5 then Some ProxyWrite
      else if k = 6 then Some ProxyRead
      else None)"

definition decode :: "u64 \<Rightarrow> operation_id option" where
  "decode value = (case decode_kind (ucast (drop_bit 48 value)) of
     None \<Rightarrow> None
   | Some kind \<Rightarrow>
       let generation = ucast (drop_bit 32 value AND 0xffff) :: u16
       in if generation = 0 then None
          else Some \<lparr>op_slot = ucast value, op_generation = generation, op_kind = kind\<rparr>)"

definition operation :: "operation_kind \<Rightarrow> u32 \<Rightarrow> u16 \<Rightarrow> operation_id" where
  "operation k slot generation = \<lparr>op_slot = slot, op_generation = generation, op_kind = k\<rparr>"

abbreviation "op_accept \<equiv> operation Accept"
abbreviation "op_read \<equiv> operation Read"
abbreviation "op_write \<equiv> operation Write"
abbreviation "op_proxy_connect \<equiv> operation ProxyConnect"
abbreviation "op_proxy_write \<equiv> operation ProxyWrite"
abbreviation "op_proxy_read \<equiv> operation ProxyRead"

definition next_op_generation :: "u16 \<Rightarrow> u16" where
  "next_op_generation previous = (let nxt = previous + 1 in if nxt = 0 then 1 else nxt)"

section \<open>The packing\<close>

definition op_pack :: "u16 \<Rightarrow> u16 \<Rightarrow> u32 \<Rightarrow> u64" where
  "op_pack k g s = push_bit 48 (ucast k) OR push_bit 32 (ucast g) OR ucast s"

lemma bit_op_pack:
  assumes "n < 64"
  shows "bit (op_pack k g s) n \<longleftrightarrow> 48 \<le> n \<and> bit k (n - 48) \<or> 32 \<le> n \<and> n < 48 \<and> bit g (n - 32) \<or> n < 32 \<and> bit s n"
proof -
  have "bit g m \<Longrightarrow> m < 16" "bit s m \<Longrightarrow> m < 32" for m using bit_imp_le_length by fastforce+
  from this(1)[of "n - 32"] this(2)[of n] assms show ?thesis
    by (auto simp: op_pack_def bit_or_iff bit_push_bit_iff bit_ucast_iff)
qed

lemma op_pack_fields:
  "ucast (drop_bit 48 (op_pack k g s)) = k" "ucast (drop_bit 32 (op_pack k g s) AND 0xffff) = g"
  "ucast (op_pack k g s) = s"
proof -
  have m: "(0xffff :: u64) = mask 16" by (simp add: mask_eq_exp_minus_1)
  show "ucast (drop_bit 48 (op_pack k g s)) = k"
    by (rule bit_word_eqI) (simp add: bit_ucast_iff bit_drop_bit_eq bit_op_pack)
  show "ucast (drop_bit 32 (op_pack k g s) AND 0xffff) = g"
    unfolding m by (rule bit_word_eqI)
      (simp add: bit_ucast_iff bit_drop_bit_eq bit_op_pack bit_and_iff bit_mask_iff)
  show "ucast (op_pack k g s) = s"
    by (rule bit_word_eqI) (simp add: bit_ucast_iff bit_op_pack)
qed

lemma op_pack_unpack:
  "op_pack (ucast (drop_bit 48 w)) (ucast (drop_bit 32 w AND 0xffff)) (ucast w) = w"
proof (rule bit_word_eqI)
  fix n assume n: "n < LENGTH(64)"
  have m: "(0xffff :: u64) = mask 16" by (simp add: mask_eq_exp_minus_1)
  have "48 \<le> n \<or> 32 \<le> n \<and> n < 48 \<or> n < 32" by auto
  then show "bit (op_pack (ucast (drop_bit 48 w)) (ucast (drop_bit 32 w AND 0xffff)) (ucast w)) n = bit w n"
    using n unfolding m
    by (auto simp: bit_op_pack bit_ucast_iff bit_drop_bit_eq bit_and_iff bit_mask_iff)
qed

lemma decode_kind_iff: "decode_kind k = Some x \<longleftrightarrow> k = ucast (kind_code x)"
  by (cases x) (auto simp: decode_kind_def kind_code_def)

definition valid_operation :: "operation_id \<Rightarrow> bool" where
  "valid_operation i \<longleftrightarrow> op_generation i \<noteq> 0"

lemma encode_pack: "encode i = op_pack (ucast (kind_code (op_kind i))) (op_generation i) (op_slot i)"
  by (cases "op_kind i") (simp_all add: encode_def op_pack_def kind_code_def)

lemma decode_Some_iff: "decode w = Some i \<longleftrightarrow> valid_operation i \<and> encode i = w"
proof
  assume "valid_operation i \<and> encode i = w"
  then show "decode w = Some i"
    by (auto simp: decode_def encode_pack op_pack_fields valid_operation_def decode_kind_iff[THEN iffD2, OF refl])
next
  assume d: "decode w = Some i"
  then obtain k where k: "decode_kind (ucast (drop_bit 48 w)) = Some k"
    and i: "i = \<lparr>op_slot = ucast w, op_generation = ucast (drop_bit 32 w AND 0xffff), op_kind = k\<rparr>"
    and g: "ucast (drop_bit 32 w AND 0xffff) \<noteq> (0 :: u16)"
    by (auto simp: decode_def Let_def split: option.splits if_splits)
  from k have "ucast (kind_code k) = (ucast (drop_bit 48 w) :: u16)" by (simp add: decode_kind_iff)
  then show "valid_operation i \<and> encode i = w"
    using i g op_pack_unpack[of w] by (simp add: encode_pack valid_operation_def)
qed

section \<open>Generations and the contract\<close>

definition reserved_user_data :: "u64 set" where
  "reserved_user_data = {CONTROL_USER_DATA, CANCEL_USER_DATA, DNS_USER_DATA, TIMER_USER_DATA,
     PROXY_CANCEL_USER_DATA}"

lemma decode_reserved: "w \<in> reserved_user_data \<Longrightarrow> decode w = None"
  by (auto simp: reserved_user_data_def decode_def decode_kind_def CONTROL_USER_DATA_def
      CANCEL_USER_DATA_def DNS_USER_DATA_def TIMER_USER_DATA_def PROXY_CANCEL_USER_DATA_def
      mask_eq_exp_minus_1)

lemma unat_next_op_generation:
  "unat (next_op_generation g) = (if unat g = 2 ^ 16 - 1 then 1 else unat g + 1)"
proof -
  have b: "unat g < 2 ^ 16" using unat_bound[of g] by simp
  show ?thesis
  proof (cases "unat g = 2 ^ 16 - 1")
    case True
    then have "g = - 1" by (simp add: word_unat_eq_iff unsigned_minus_1_eq_mask mask_eq_exp_minus_1)
    with True show ?thesis by (simp add: next_op_generation_def)
  next
    case False
    then have "unat (g + 1) = unat g + 1" using b by (intro unat_Suc_small) simp
    moreover from this have "g + 1 \<noteq> 0" by (metis add_is_0 one_neq_zero unat_0)
    ultimately show ?thesis using False by (simp add: next_op_generation_def Let_def)
  qed
qed

interpretation uop: slot_ids valid_operation encode decode reserved_user_data
  "\<lambda>g. g \<noteq> 0" next_op_generation "\<lambda>g. unat g - 1" "2 ^ 16 - 1" "\<lambda>s g k. operation k s g"
proof unfold_locales
  show "decode (encode i) = Some i" if "valid_operation i" for i
    using that by (simp add: decode_Some_iff)
  show "valid_operation i \<and> encode i = w" if "decode w = Some i" for i w
    using that by (simp add: decode_Some_iff)
  show "decode w = None" if "w \<in> reserved_user_data" for w
    using that by (rule decode_reserved)
  show "unat g - 1 < 2 ^ 16 - 1" if "g \<noteq> 0" for g :: u16
    using that unat_bound[of g] by (simp add: unat_gt_0)
  show "g = h" if "g \<noteq> 0" "h \<noteq> 0" "unat g - 1 = unat h - 1" for g h :: u16
    using that unat_gt_0[of g] unat_gt_0[of h] by (intro word_unat_eq_iff[THEN iffD2]) linarith
  show "next_op_generation g \<noteq> 0" if "g \<noteq> 0" for g
    by (simp add: next_op_generation_def Let_def)
  show "unat (next_op_generation g) - 1 = (unat g - 1 + 1) mod (2 ^ 16 - 1)" if "g \<noteq> 0" for g
    using that unat_gt_0[of g] unat_bound[of g] by (auto simp: unat_next_op_generation)
qed (auto simp: operation_def)

text \<open>
  C25. Completion words and operations correspond one to one: a word decodes to an operation exactly
  when the operation has a non-zero generation and encodes to this word; none of the five reserved
  words (control, cancel, DNS, timer, proxy cancel) decodes.
\<close>

theorem operation_roundtrip:
  "(decode w = Some i \<longleftrightarrow> op_generation i \<noteq> 0 \<and> encode i = w)
   \<and> (\<forall>r. r \<in> reserved_user_data \<longrightarrow> decode r = None \<and> (op_generation i \<noteq> 0 \<longrightarrow> encode i \<noteq> r))"
  using uop.dec_iff[of w i] uop.dec_reserved uop.enc_not_reserved[of i]
  by (auto simp: valid_operation_def)

theorem operation_roundtrip_witness:
  "decode (encode (op_proxy_read 7 3)) = Some (op_proxy_read 7 3)
   \<and> encode (op_proxy_read 7 3) \<noteq> CANCEL_USER_DATA"
  using operation_roundtrip[of "encode (op_proxy_read 7 3)" "op_proxy_read 7 3"]
  by (auto simp: operation_def reserved_user_data_def)

text \<open>
  No confusion after reuse: completions of an earlier occupant of a slot differ, for any two
  kinds of operation, from those of the occupant \<open>k\<close> reuses later, unless \<open>k\<close> is a multiple of
  65535.
\<close>

theorem stale_operation_distinct:
  assumes "g \<noteq> 0" and "\<not> (2 ^ 16 - 1) dvd k"
  shows "encode (operation kd s g) \<noteq> encode (operation kd' s ((next_op_generation ^^ k) g))"
proof (rule uop.stale_distinct[OF assms])
  show "valid_operation (operation kd s g)" using assms(1) by (simp add: valid_operation_def operation_def)
  show "valid_operation (operation kd' s ((next_op_generation ^^ k) g))"
    using uop.iterate[OF assms(1), of k] by (simp add: valid_operation_def operation_def)
qed

theorem stale_operation_distinct_witness:
  "encode (op_read 7 65535) \<noteq> encode (op_read 7 ((next_op_generation ^^ 2) 65535))"
  by (rule stale_operation_distinct) simp_all

end
