(* ===== verification/Master.thy ===== *)
theory Master
  imports Config Rust_Io
begin

text \<open>
  The master process, \<open>run/master/src/main.rs\<close>: loading the configuration, forking the workers, and
  the supervision loop with its exponential restart backoff. One iteration of the loop is a function
  of the state and of what the operating system answers in this iteration (signals, \<open>waitpid\<close>,
  \<open>fork\<close>, the clock); a run is a sequence of iterations. Instants and durations are milliseconds.
\<close>

section \<open>Data\<close>

definition RESTART_BASE_DELAY :: nat where "RESTART_BASE_DELAY = 100"
definition RESTART_MAX_DELAY :: nat where "RESTART_MAX_DELAY = 10000"
definition RESTART_STABLE_WINDOW :: nat where "RESTART_STABLE_WINDOW = 30000"

type_synonym pid = int
type_synonym errno = int

definition ESRCH :: errno where "ESRCH = 3"

record worker_slot =
  ws_cpu_id :: nat
  ws_pid :: "pid option"
  ws_failures :: u32
  ws_started_at :: nat
  ws_restart_at :: "nat option"

datatype wait_status = Exited pid int | Signaled pid | StillAlive | OtherStatus pid

definition status_pid :: "wait_status \<Rightarrow> pid option" where
  "status_pid s = (case s of Exited p _ \<Rightarrow> Some p | Signaled p \<Rightarrow> Some p | _ \<Rightarrow> None)"

definition status_failed :: "wait_status \<Rightarrow> bool" where
  "status_failed s \<longleftrightarrow> \<not> (case s of Exited _ code \<Rightarrow> code = 0 | _ \<Rightarrow> False)"

definition restart_delay :: "u32 \<Rightarrow> nat" where
  "restart_delay failures =
     (let exponent = min (saturating_sub failures 1) 16
      in min (RESTART_BASE_DELAY * unat (push_bit (unat exponent) (1 :: u32))) RESTART_MAX_DELAY)"

section \<open>Start\<close>

text \<open>
  The configuration file is read when it exists; otherwise the default configuration is written
  to it. \<open>to_toml\<close> and \<open>write\<close> are the results of the serialiser and of \<open>fs::write\<close>.
\<close>

definition load_config ::
  "bool \<Rightarrow> 'e + config \<Rightarrow> usize option \<Rightarrow> (config \<Rightarrow> 'e + bytes) \<Rightarrow> (bytes \<Rightarrow> 'e + unit) \<Rightarrow> 'e + config" where
  "load_config path_exists read parallelism to_toml write =
     (if path_exists then read
      else let default_config = config_default parallelism in
        (case to_toml default_config of Inl e \<Rightarrow> Inl e | Inr toml_string \<Rightarrow>
        (case write toml_string of Inl e \<Rightarrow> Inl e | Inr _ \<Rightarrow> Inr default_config)))"

datatype fork_result = Parent pid | Child

datatype 'a spawned = SpawnError errno | SpawnedPid pid | ChildExit 'a

text \<open>The exit code of a forked worker, from the result of \<open>start_worker\<close>.\<close>

definition run_child_worker :: "('e + unit) \<Rightarrow> int" where
  "run_child_worker result = (case result of Inl _ \<Rightarrow> 1 | Inr _ \<Rightarrow> 0)"

definition spawn_worker :: "errno + fork_result \<Rightarrow> ('e + unit) \<Rightarrow> int spawned" where
  "spawn_worker fork worker_result = (case fork of
     Inl e \<Rightarrow> SpawnError e
   | Inr (Parent child) \<Rightarrow> SpawnedPid child
   | Inr Child \<Rightarrow> ChildExit (run_child_worker worker_result))"

text \<open>
  What the parent sees of a fork is an error or a process id; \<open>fork_of cpu\<close> and \<open>clock cpu\<close> are the
  answers for each worker of the initial loop.
\<close>

fun spawn_all :: "(nat \<Rightarrow> errno + pid) \<Rightarrow> (nat \<Rightarrow> nat) \<Rightarrow> nat list \<Rightarrow> errno + worker_slot list" where
  "spawn_all fork_of clock [] = Inr []"
| "spawn_all fork_of clock (cpu # cpus) = (case fork_of cpu of
     Inl e \<Rightarrow> Inl e
   | Inr pid \<Rightarrow> (case spawn_all fork_of clock cpus of
       Inl e \<Rightarrow> Inl e
     | Inr ws \<Rightarrow> Inr (\<lparr>ws_cpu_id = cpu, ws_pid = Some pid, ws_failures = 0, ws_started_at = clock cpu,
         ws_restart_at = None\<rparr> # ws)))"

section \<open>The supervision loop\<close>

record master =
  ms_workers :: "worker_slot list"
  ms_stopping :: bool

record iteration =
  it_shutdown :: bool
  it_kill :: "pid \<Rightarrow> errno option"
  it_wait :: "errno + wait_status"
  it_elapsed_clock :: nat
  it_restart_clock :: nat
  it_check_clock :: "nat \<Rightarrow> nat"
  it_fork :: "nat \<Rightarrow> errno + pid"
  it_start_clock :: "nat \<Rightarrow> nat"

datatype effect = Kill pid | Spawn nat pid | Sleep nat

datatype step_result = Next master | Finish "errno + unit"

fun kill_loop :: "(pid \<Rightarrow> errno option) \<Rightarrow> pid list \<Rightarrow> (errno + unit) \<times> effect list" where
  "kill_loop kill [] = (Inr (), [])"
| "kill_loop kill (p # ps) = (case kill p of
     None \<Rightarrow> (let (r, es) = kill_loop kill ps in (r, Kill p # es))
   | Some e \<Rightarrow> if e \<noteq> ESRCH then (Inl e, []) else kill_loop kill ps)"

definition on_exit :: "iteration \<Rightarrow> bool \<Rightarrow> wait_status \<Rightarrow> worker_slot \<Rightarrow> worker_slot" where
  "on_exit it stopping status w =
     (let w1 = w\<lparr>ws_pid := None\<rparr> in
      if \<not> stopping \<and> status_failed status then
        let failures0 = (if it_elapsed_clock it - ws_started_at w \<ge> RESTART_STABLE_WINDOW then 0 else ws_failures w);
            failures = saturating_add failures0 1
        in w1\<lparr>ws_failures := failures, ws_restart_at := Some (it_restart_clock it + restart_delay failures)\<rparr>
      else w1)"

definition restart_due :: "iteration \<Rightarrow> worker_slot \<Rightarrow> bool" where
  "restart_due it w \<longleftrightarrow> ws_pid w = None
     \<and> (case ws_restart_at w of Some t \<Rightarrow> it_check_clock it (ws_cpu_id w) \<ge> t | None \<Rightarrow> False)"

fun restart_loop :: "iteration \<Rightarrow> worker_slot list \<Rightarrow> (errno + worker_slot list) \<times> effect list" where
  "restart_loop it [] = (Inr [], [])"
| "restart_loop it (w # ws) =
     (if restart_due it w then
        (case it_fork it (ws_cpu_id w) of
           Inl e \<Rightarrow> (Inl e, [])
         | Inr pid \<Rightarrow>
             (let w' = w\<lparr>ws_pid := Some pid, ws_started_at := it_start_clock it (ws_cpu_id w),
                   ws_restart_at := None\<rparr>;
                  (r, es) = restart_loop it ws
              in (map_sum id ((#) w') r, Spawn (ws_cpu_id w) pid # es)))
      else (let (r, es) = restart_loop it ws in (map_sum id ((#) w) r, es)))"

text \<open>What follows the match on \<open>waitpid\<close> in the loop body.\<close>

definition after_wait :: "iteration \<Rightarrow> master \<Rightarrow> step_result \<times> effect list" where
  "after_wait it m =
     (if ms_stopping m \<and> (\<forall>w \<in> set (ms_workers m). ws_pid w = None) then (Finish (Inr ()), [])
      else if \<not> ms_stopping m then
        (case restart_loop it (ms_workers m) of
           (Inl e, es) \<Rightarrow> (Finish (Inl e), es)
         | (Inr ws, es) \<Rightarrow>
             if \<forall>w \<in> set ws. ws_pid w = None \<and> ws_restart_at w = None then (Finish (Inr ()), es)
             else (Next (m\<lparr>ms_workers := ws\<rparr>), es))
      else (Next m, []))"

definition live_pids :: "worker_slot list \<Rightarrow> pid list" where
  "live_pids ws = List.map_filter ws_pid ws"

definition wait_and_restart :: "iteration \<Rightarrow> master \<Rightarrow> step_result \<times> effect list" where
  "wait_and_restart it m = (case it_wait it of
     Inr StillAlive \<Rightarrow> (let (r, es) = after_wait it m in (r, Sleep 50 # es))
   | Inr status \<Rightarrow>
       (case status_pid status of
          None \<Rightarrow> (Next m, [])
        | Some pid \<Rightarrow>
            (case position (\<lambda>w. ws_pid w = Some pid) (ms_workers m) of
               None \<Rightarrow> (Next m, [])
             | Some k \<Rightarrow> after_wait it (m\<lparr>ms_workers := (ms_workers m)[k := on_exit it (ms_stopping m) status (ms_workers m ! k)]\<rparr>)))
   | Inl e \<Rightarrow> if e = ECHILD then after_wait it m else (Finish (Inl e), []))"

definition supervise_step :: "iteration \<Rightarrow> master \<Rightarrow> step_result \<times> effect list" where
  "supervise_step it m =
     (if it_shutdown it \<and> \<not> ms_stopping m then
        (case kill_loop (it_kill it) (live_pids (ms_workers m)) of
           (Inl e, es) \<Rightarrow> (Finish (Inl e), es)
         | (Inr _, es) \<Rightarrow> (let (r, es') = wait_and_restart it (m\<lparr>ms_stopping := True\<rparr>) in (r, es @ es')))
      else wait_and_restart it m)"

fun supervise_workers :: "iteration list \<Rightarrow> master \<Rightarrow> step_result \<times> effect list" where
  "supervise_workers [] m = (Next m, [])"
| "supervise_workers (it # its) m = (case supervise_step it m of
     (Finish r, es) \<Rightarrow> (Finish r, es)
   | (Next m', es) \<Rightarrow> (let (r, es') = supervise_workers its m' in (r, es @ es')))"

section \<open>Backoff\<close>

lemma unat_exponent: "unat (min (saturating_sub f 1) (16 :: u32)) = min (unat f - 1) 16"
  by (simp add: min_def word_le_nat_alt unat_saturating_sub)

lemma restart_delay_eq: "restart_delay f = min (100 * 2 ^ min (unat f - 1) 16) 10000"
proof -
  let ?e = "min (unat f - 1) 16"
  have "(2::nat) ^ ?e < 2 ^ LENGTH(32)" by (rule power_strict_increasing) auto
  then have "unat (push_bit ?e (1 :: u32)) = 2 ^ ?e"
    using unsigned_push_bit_eq[of ?e "1 :: u32", where 'a = nat]
    by (simp only: unsigned_1 push_bit_eq_mult[of ?e "1 :: nat"] mult_1 take_bit_nat_eq_self)
  then show ?thesis
    by (simp only: restart_delay_def Let_def unat_exponent RESTART_BASE_DELAY_def RESTART_MAX_DELAY_def)
qed

text \<open>
  Backoff: the delay before a restart doubles with every consecutive failure, from 100 ms for
  the first, never decreases with the number of failures, and stays within 100 ms and 10 s for
  every 32-bit counter, so the shift cannot overflow.
\<close>

theorem restart_delay_spec:
  "restart_delay f = (if unat f \<le> 7 then 100 * 2 ^ (unat f - 1) else 10000)
   \<and> 100 \<le> restart_delay f \<and> restart_delay f \<le> 10000
   \<and> (\<forall>g. unat f \<le> unat g \<longrightarrow> restart_delay f \<le> restart_delay g)"
proof (intro conjI allI impI)
  show "restart_delay f = (if unat f \<le> 7 then 100 * 2 ^ (unat f - 1) else 10000)"
  proof (cases "unat f \<le> 7")
    case True
    then have "(2::nat) ^ (unat f - 1) \<le> 2 ^ 6" by (intro power_increasing) auto
    with True show ?thesis by (simp add: restart_delay_eq min_def)
  next
    case False
    then have "(2::nat) ^ 7 \<le> 2 ^ min (unat f - 1) 16" by (intro power_increasing) auto
    with False show ?thesis by (simp add: restart_delay_eq min_def)
  qed
  show "100 \<le> restart_delay f" by (simp add: restart_delay_eq)
  show "restart_delay f \<le> 10000" by (simp add: restart_delay_eq)
  fix g :: u32 assume "unat f \<le> unat g"
  then have "(2::nat) ^ min (unat f - 1) 16 \<le> 2 ^ min (unat g - 1) 16"
    by (intro power_increasing) (auto simp: min_def)
  then show "restart_delay f \<le> restart_delay g" unfolding restart_delay_eq by (intro min.mono) auto
qed

theorem restart_delay_spec_witness: "restart_delay 3 = 400 \<and> restart_delay 3 \<le> restart_delay 100"
  using restart_delay_spec[of 3] by (auto dest: spec[of _ "100 :: u32"])

section \<open>The invariant of the supervisor\<close>

definition slot_ok :: "worker_slot \<Rightarrow> bool" where
  "slot_ok w \<longleftrightarrow> (ws_pid w = None \<or> ws_restart_at w = None) \<and> (ws_restart_at w = None \<or> ws_failures w \<noteq> 0)"

definition master_ok :: "nat \<Rightarrow> master \<Rightarrow> bool" where
  "master_ok n m \<longleftrightarrow> map ws_cpu_id (ms_workers m) = [0..<n] \<and> distinct (live_pids (ms_workers m))
     \<and> (\<forall>w \<in> set (ms_workers m). slot_ok w)"

text \<open>
  The kernel gives a new child a process id that no child has which is not yet waited for, and
  different ids to different children.
\<close>

definition forks_fresh :: "iteration \<Rightarrow> master \<Rightarrow> bool" where
  "forks_fresh it m \<longleftrightarrow>
     (\<forall>c p. it_fork it c = Inr p \<longrightarrow>
        (p \<in> set (live_pids (ms_workers m)) \<longrightarrow> (\<exists>s. it_wait it = Inr s \<and> status_pid s = Some p))
      \<and> (\<forall>c'. it_fork it c' = Inr p \<longrightarrow> c' = c))"

lemma live_pids_simps [simp]:
  "live_pids [] = []"
  "live_pids (w # ws) = (case ws_pid w of None \<Rightarrow> live_pids ws | Some p \<Rightarrow> p # live_pids ws)"
  by (simp_all add: live_pids_def List.map_filter_def split: option.splits)

lemma set_live_pids: "p \<in> set (live_pids ws) \<longleftrightarrow> (\<exists>w \<in> set ws. ws_pid w = Some p)"
  by (induction ws) (auto split: option.splits)

lemma live_pids_kill:
  assumes "k < length ws" and "ws_pid (ws ! k) = Some p" and "ws_pid w = None" and "distinct (live_pids ws)"
  shows "distinct (live_pids (ws[k := w])) \<and> set (live_pids (ws[k := w])) = set (live_pids ws) - {p}
       \<and> length (live_pids (ws[k := w])) < length (live_pids ws)"
  using assms
proof (induction ws arbitrary: k)
  case (Cons v ws)
  show ?case
  proof (cases k)
    case 0
    with Cons.prems show ?thesis by auto
  next
    case (Suc j)
    have "p \<in> set (live_pids ws)" using Cons.prems Suc by (auto simp: set_live_pids intro!: bexI[of _ "ws ! j"])
    with Cons.IH[of j] Cons.prems Suc show ?thesis by (cases "ws_pid v") auto
  qed
qed simp

lemma on_exit_fields [simp]:
  "ws_pid (on_exit it st status w) = None" "ws_cpu_id (on_exit it st status w) = ws_cpu_id w"
  by (simp_all add: on_exit_def Let_def)

lemma saturating_add_1_nz: "saturating_add f (1 :: u32) \<noteq> 0"
proof (cases "unat f + 1 < 2 ^ 32")
  case True
  then have "unat (f + 1) = unat f + 1" by (intro unat_Suc_small) simp
  then have "f + 1 \<noteq> 0" by (metis add_is_0 one_neq_zero unat_0)
  then show ?thesis by (simp add: saturating_add_def checked_add_def)
next
  case False
  then show ?thesis by (simp add: saturating_add_def checked_add_def)
qed

lemma slot_ok_on_exit: "slot_ok w \<Longrightarrow> slot_ok (on_exit it st status w)"
  by (auto simp: slot_ok_def on_exit_def Let_def saturating_add_1_nz)

lemma restart_loop_ok:
  assumes "restart_loop it ws = (Inr ws', es)" and "distinct (map ws_cpu_id ws)"
    and "distinct (live_pids ws)" and "\<forall>w \<in> set ws. slot_ok w"
    and "\<forall>c p. it_fork it c = Inr p \<longrightarrow> p \<notin> set (live_pids ws) \<and> (\<forall>c'. it_fork it c' = Inr p \<longrightarrow> c' = c)"
  shows "map ws_cpu_id ws' = map ws_cpu_id ws \<and> (\<forall>w \<in> set ws'. slot_ok w) \<and> distinct (live_pids ws')
     \<and> (\<forall>p \<in> set (live_pids ws'). p \<in> set (live_pids ws) \<or> (\<exists>c \<in> ws_cpu_id ` set ws. it_fork it c = Inr p))"
  using assms
proof (induction ws arbitrary: ws' es)
  case (Cons w ws)
  have fresh: "\<forall>c p. it_fork it c = Inr p \<longrightarrow> p \<notin> set (live_pids ws) \<and> (\<forall>c'. it_fork it c' = Inr p \<longrightarrow> c' = c)"
    using Cons.prems(5) by (auto split: option.splits)
  obtain r es' where rl: "restart_loop it ws = (r, es')" by (cases "restart_loop it ws")
  with Cons.prems(1) obtain vs where r: "r = Inr vs" by (cases r) (auto split: if_splits sum.splits)
  have d: "distinct (live_pids ws)" using Cons.prems(3) by (auto split: option.splits)
  note ih = Cons.IH[OF rl[unfolded r] _ d _ fresh]
  have ih': "map ws_cpu_id vs = map ws_cpu_id ws" "\<forall>w \<in> set vs. slot_ok w" "distinct (live_pids vs)"
    "\<forall>p \<in> set (live_pids vs). p \<in> set (live_pids ws) \<or> (\<exists>c \<in> ws_cpu_id ` set ws. it_fork it c = Inr p)"
    using ih Cons.prems(2,4) by auto
  show ?case
  proof (cases "restart_due it w")
    case True
    with Cons.prems(1) rl r obtain q where q: "it_fork it (ws_cpu_id w) = Inr q"
      and ws': "ws' = w\<lparr>ws_pid := Some q, ws_started_at := it_start_clock it (ws_cpu_id w), ws_restart_at := None\<rparr> # vs"
      by (auto split: sum.splits)
    have "ws_pid w = None" using True by (simp add: restart_due_def)
    moreover have "q \<notin> set (live_pids vs)"
    proof
      assume "q \<in> set (live_pids vs)"
      with ih'(4) fresh q obtain c where "c \<in> ws_cpu_id ` set ws" "it_fork it c = Inr q" by blast
      moreover from this(2) fresh q have "c = ws_cpu_id w" by blast
      ultimately show False using Cons.prems(2) by simp
    qed
    ultimately show ?thesis using ih' q ws' by (auto simp: slot_ok_def)
  next
    case False
    with Cons.prems(1) rl r have ws': "ws' = w # vs" by auto
    have "p \<notin> set (live_pids vs)" if "ws_pid w = Some p" for p
    proof
      assume "p \<in> set (live_pids vs)"
      moreover have "p \<notin> set (live_pids ws)" using Cons.prems(3) that by simp
      ultimately obtain c where "it_fork it c = Inr p" using ih'(4) by blast
      with Cons.prems(5) have "p \<notin> set (live_pids (w # ws))" by blast
      with that show False by simp
    qed
    then show ?thesis using ih' ws' Cons.prems(4) by (auto split: option.splits)
  qed
qed simp

lemma after_wait_Next:
  assumes "after_wait it m = (Next m', es)" and "master_ok n m"
    and "\<forall>c p. it_fork it c = Inr p \<longrightarrow> p \<notin> set (live_pids (ms_workers m)) \<and> (\<forall>c'. it_fork it c' = Inr p \<longrightarrow> c' = c)"
  shows "master_ok n m' \<and> ms_stopping m' = ms_stopping m"
proof (cases "ms_stopping m")
  case True
  with assms show ?thesis by (auto simp: after_wait_def split: if_splits)
next
  case False
  with assms(1) obtain ws where rl: "restart_loop it (ms_workers m) = (Inr ws, es)"
    and m': "m' = m\<lparr>ms_workers := ws\<rparr>"
    by (auto simp: after_wait_def split: prod.splits sum.splits if_splits)
  have "distinct (map ws_cpu_id (ms_workers m))" "distinct (live_pids (ms_workers m))"
    "\<forall>w \<in> set (ms_workers m). slot_ok w"
    using assms(2) by (simp_all add: master_ok_def)
  from restart_loop_ok[OF rl this assms(3)] assms(2) m' show ?thesis by (simp add: master_ok_def)
qed

lemma exit_ok:
  assumes "master_ok n m" and "position (\<lambda>w. ws_pid w = Some p) (ms_workers m) = Some k"
  shows "master_ok n (m\<lparr>ms_workers := (ms_workers m)[k := on_exit it st status (ms_workers m ! k)]\<rparr>)
     \<and> set (live_pids ((ms_workers m)[k := on_exit it st status (ms_workers m ! k)]))
         = set (live_pids (ms_workers m)) - {p}
     \<and> length (live_pids ((ms_workers m)[k := on_exit it st status (ms_workers m ! k)]))
         < length (live_pids (ms_workers m))"
proof -
  let ?ws = "ms_workers m" and ?w = "on_exit it st status (ms_workers m ! k)"
  have k: "k < length ?ws" "ws_pid (?ws ! k) = Some p" using assms(2) by (auto simp: position_Some_iff)
  have d: "distinct (live_pids ?ws)" using assms(1) by (simp add: master_ok_def)
  note live = live_pids_kill[OF k on_exit_fields(1)[of it st status "?ws ! k"] d]
  have "map ws_cpu_id (?ws[k := ?w]) = map ws_cpu_id ?ws"
    using k by (simp add: map_update list_update_same_conv)
  moreover have "slot_ok ?w" using assms(1) k by (simp add: master_ok_def slot_ok_on_exit)
  then have "\<forall>w \<in> set (?ws[k := ?w]). slot_ok w"
    using assms(1) set_update_subset_insert[of ?ws k ?w] by (auto simp: master_ok_def)
  ultimately show ?thesis using assms(1) live by (simp add: master_ok_def)
qed

lemma wait_and_restart_Next:
  assumes "wait_and_restart it m = (Next m', es)" and "master_ok n m" and "forks_fresh it m"
  shows "master_ok n m' \<and> ms_stopping m' = ms_stopping m"
proof -
  have fresh: "\<forall>c p. it_fork it c = Inr p \<longrightarrow> p \<notin> L \<and> (\<forall>c'. it_fork it c' = Inr p \<longrightarrow> c' = c)"
    if "\<And>p. p \<in> L \<Longrightarrow> p \<in> set (live_pids (ms_workers m)) \<and> (\<forall>s. it_wait it = Inr s \<longrightarrow> status_pid s \<noteq> Some p)" for L
    using assms(3) that unfolding forks_fresh_def by blast
  have quiet: ?thesis if "after_wait it m = (Next m', es')" "\<forall>s. it_wait it = Inr s \<longrightarrow> status_pid s = None" for es'
    using after_wait_Next[OF that(1) assms(2) fresh] that(2) by simp
  consider "m' = m"
    | es' where "after_wait it m = (Next m', es')" "\<forall>s. it_wait it = Inr s \<longrightarrow> status_pid s = None"
    | status p k where "it_wait it = Inr status" "status_pid status = Some p"
        "position (\<lambda>w. ws_pid w = Some p) (ms_workers m) = Some k"
        "after_wait it (m\<lparr>ms_workers := (ms_workers m)[k := on_exit it (ms_stopping m) status (ms_workers m ! k)]\<rparr>)
           = (Next m', es)"
    using assms(1)
    by (auto simp: wait_and_restart_def status_pid_def split: sum.splits wait_status.splits option.splits
        if_splits prod.splits)
  then show ?thesis
  proof cases
    case 1
    with assms(2) show ?thesis by simp
  next
    case 2
    then show ?thesis by (rule quiet)
  next
    case 3
    note ex = exit_ok[OF assms(2) 3(3), of it "ms_stopping m" status]
    show ?thesis
      using after_wait_Next[OF 3(4) conjunct1[OF ex] fresh] ex 3(1,2) by simp
  qed
qed

lemma supervise_step_Next:
  assumes "supervise_step it m = (Next m', es)" and "master_ok n m" and "forks_fresh it m"
  shows "master_ok n m' \<and> (ms_stopping m \<or> it_shutdown it \<longleftrightarrow> ms_stopping m')"
proof (cases "it_shutdown it \<and> \<not> ms_stopping m")
  case True
  let ?m = "m\<lparr>ms_stopping := True\<rparr>"
  from True assms(1) obtain es' where "wait_and_restart it ?m = (Next m', es')"
    by (auto simp: supervise_step_def split: prod.splits sum.splits)
  moreover have "master_ok n ?m" "forks_fresh it ?m"
    using assms(2,3) by (simp_all add: master_ok_def forks_fresh_def)
  ultimately show ?thesis using wait_and_restart_Next[of it ?m m' es' n] True by simp
next
  case False
  with assms wait_and_restart_Next[of it m m' es n] show ?thesis
    by (auto simp: supervise_step_def)
qed

lemma slot_ok_fresh: "ws_restart_at w = None \<Longrightarrow> slot_ok w"
  by (simp add: slot_ok_def)

lemma spawn_all_Inr:
  assumes "spawn_all fork_of clock cpus = Inr ws"
  shows "map ws_cpu_id ws = cpus \<and> map (\<lambda>w. fork_of (ws_cpu_id w)) ws = map Inr (live_pids ws)
     \<and> (\<forall>w \<in> set ws. slot_ok w)"
  using assms
  by (induction cpus arbitrary: ws) (auto simp: slot_ok_fresh split: sum.splits)

inductive supervised :: "nat \<Rightarrow> master \<Rightarrow> bool" for n where
  start: "\<lbrakk>spawn_all fork_of clock [0..<n] = Inr ws; distinct (live_pids ws)\<rbrakk>
    \<Longrightarrow> supervised n \<lparr>ms_workers = ws, ms_stopping = False\<rparr>"
| iterate: "\<lbrakk>supervised n m; forks_fresh it m; supervise_step it m = (Next m', es)\<rbrakk> \<Longrightarrow> supervised n m'"

inductive_cases supervised_cases: "supervised n m"

text \<open>
  C18. In every state the supervisor reaches, worker \<open>i\<close> still serves CPU \<open>i\<close>, no two slots hold the
  same process id (so an exit status is attributed to the right slot), a slot with a live process
  has no restart pending, and a pending restart always follows at least one counted failure.
\<close>

theorem supervised_invariant:
  assumes "supervised n m"
  shows "map ws_cpu_id (ms_workers m) = [0..<n] \<and> distinct (live_pids (ms_workers m))
     \<and> (\<forall>w \<in> set (ms_workers m). (ws_pid w = None \<or> ws_restart_at w = None)
          \<and> (ws_restart_at w = None \<or> ws_failures w \<noteq> 0))"
proof -
  have "master_ok n m"
    using assms
  proof induction
    case (start fork_of clock ws)
    with spawn_all_Inr[OF start(1)] show ?case by (simp add: master_ok_def)
  qed (use supervise_step_Next in blast)
  then show ?thesis by (simp add: master_ok_def slot_ok_def)
qed

definition sample_master :: master where
  "sample_master = \<lparr>ms_workers =
     [\<lparr>ws_cpu_id = 0, ws_pid = Some 40, ws_failures = 0, ws_started_at = 5, ws_restart_at = None\<rparr>,
      \<lparr>ws_cpu_id = 1, ws_pid = Some 41, ws_failures = 0, ws_started_at = 5, ws_restart_at = None\<rparr>],
     ms_stopping = False\<rparr>"

definition sample_iteration :: "errno + wait_status \<Rightarrow> iteration" where
  "sample_iteration r = \<lparr>it_shutdown = False, it_kill = (\<lambda>_. None), it_wait = r, it_elapsed_clock = 60,
     it_restart_clock = 60, it_check_clock = (\<lambda>_. 60), it_fork = (\<lambda>_. Inl 12), it_start_clock = (\<lambda>_. 60)\<rparr>"

lemma sample_master_supervised: "supervised 2 sample_master"
proof -
  have u: "[0..<2] = [0, 1::nat]" by (simp add: upt_rec)
  have "spawn_all (\<lambda>c. Inr (40 + int c)) (\<lambda>_. 5) [0..<2] = Inr (ms_workers sample_master)"
    by (simp add: u sample_master_def)
  moreover have "distinct (live_pids (ms_workers sample_master))" by (simp add: sample_master_def)
  ultimately have "supervised 2 \<lparr>ms_workers = ms_workers sample_master, ms_stopping = False\<rparr>" by (rule start)
  then show ?thesis by (simp add: sample_master_def)
qed

theorem supervised_invariant_witness:
  "map ws_cpu_id (ms_workers sample_master) = [0..<2] \<and> distinct (live_pids (ms_workers sample_master))"
  using supervised_invariant[OF sample_master_supervised] by blast

section \<open>Failures and shutdown\<close>

lemma position_live:
  assumes "distinct (live_pids ws)" and "k < length ws" and "ws_pid (ws ! k) = Some p"
  shows "position (\<lambda>w. ws_pid w = Some p) ws = Some k"
  using assms
proof (induction ws arbitrary: k)
  case (Cons w ws)
  show ?case
  proof (cases k)
    case 0
    with Cons.prems show ?thesis by simp
  next
    case (Suc j)
    then have "p \<in> set (live_pids ws)" using Cons.prems by (auto simp: set_live_pids intro!: bexI[of _ "ws ! j"])
    with Cons.prems Suc Cons.IH[of j] show ?thesis by (auto split: option.splits)
  qed
qed simp

lemma restart_loop_keeps:
  assumes "restart_loop it ws = (Inr ws', es)"
  shows "length ws' = length ws \<and> (\<forall>j < length ws. \<not> restart_due it (ws ! j) \<longrightarrow> ws' ! j = ws ! j)"
  using assms
proof (induction ws arbitrary: ws' es)
  case (Cons w ws)
  obtain r es' where rl: "restart_loop it ws = (r, es')" by (cases "restart_loop it ws")
  with Cons.prems obtain vs where vs: "r = Inr vs" by (cases r) (auto split: if_splits sum.splits)
  note ih = Cons.IH[OF rl[unfolded vs]]
  from Cons.prems rl vs obtain w' where "ws' = w' # vs" "\<not> restart_due it w \<longrightarrow> w' = w"
    by (auto split: if_splits sum.splits)
  with ih show ?case by (auto simp: nth_Cons split: nat.splits)
qed simp

lemma restart_delay_bounds: "100 \<le> restart_delay f" "restart_delay f \<le> 10000"
  by (simp_all add: restart_delay_eq)

lemma on_exit_failed:
  assumes "status_failed status"
  obtains t where "ws_restart_at (on_exit it False status w) = Some t"
    "it_restart_clock it + 100 \<le> t" "t \<le> it_restart_clock it + 10000"
  using that assms restart_delay_bounds by (simp add: on_exit_def Let_def)

text \<open>
  A failed worker is restarted: when a live worker of a supervisor that is not stopping exits
  with a failure, its slot gets a restart time between 100 ms and 10 s after the exit was seen, and
  this iteration does not end the supervisor successfully.
\<close>

theorem failure_is_rescheduled:
  assumes "master_ok n m" and "\<not> ms_stopping m" and "\<not> it_shutdown it"
    and "it_wait it = Inr status" and "status_pid status = Some p" and "status_failed status"
    and "k < length (ms_workers m)" and "ws_pid (ms_workers m ! k) = Some p"
    and "it_check_clock it (ws_cpu_id (ms_workers m ! k)) < it_restart_clock it + 100"
  shows "case fst (supervise_step it m) of
      Next m' \<Rightarrow> \<exists>t. ws_restart_at (ms_workers m' ! k) = Some t
        \<and> it_restart_clock it + 100 \<le> t \<and> t \<le> it_restart_clock it + 10000
    | Finish r \<Rightarrow> isl r"
proof -
  let ?ws = "ms_workers m"
  let ?w = "on_exit it False status (?ws ! k)"
  let ?m = "m\<lparr>ms_workers := ?ws[k := ?w]\<rparr>"
  obtain t where t: "ws_restart_at ?w = Some t" "it_restart_clock it + 100 \<le> t" "t \<le> it_restart_clock it + 10000"
    by (rule on_exit_failed[OF assms(6)])
  have "position (\<lambda>w. ws_pid w = Some p) ?ws = Some k"
    using assms(1,7,8) by (intro position_live) (simp_all add: master_ok_def)
  then have step: "supervise_step it m = after_wait it ?m"
    using assms(2-5) by (auto simp: supervise_step_def wait_and_restart_def status_pid_def split: wait_status.splits)
  have due: "\<not> restart_due it ?w" using t assms(9) by (simp add: restart_due_def)
  show ?thesis
  proof (cases "restart_loop it (?ws[k := ?w])")
    case (Pair r es)
    show ?thesis
    proof (cases r)
      case (Inl e)
      with Pair assms(2) step show ?thesis by (simp add: after_wait_def)
    next
      case (Inr ws')
      note keep = restart_loop_keeps[OF Pair[unfolded Inr]]
      have k: "k < length ws'" "ws' ! k = ?w"
        using keep assms(7) due by (simp, metis length_list_update nth_list_update_eq)
      then have "\<not> (\<forall>w \<in> set ws'. ws_pid w = None \<and> ws_restart_at w = None)"
        using t(1) nth_mem[OF k(1)] by force
      then have "fst (after_wait it ?m) = Next (m\<lparr>ms_workers := ws'\<rparr>)"
        using Pair Inr assms(2) by (auto simp: after_wait_def)
      with t k step show ?thesis by simp
    qed
  qed
qed

theorem failure_is_rescheduled_witness:
  "case fst (supervise_step (sample_iteration (Inr (Signaled 41))) sample_master) of
      Next m' \<Rightarrow> \<exists>t. ws_restart_at (ms_workers m' ! 1) = Some t \<and> 160 \<le> t \<and> t \<le> 10060
    | Finish r \<Rightarrow> isl r"
  using failure_is_rescheduled[of 2 sample_master "sample_iteration (Inr (Signaled 41))" "Signaled 41" 41 1]
  by (simp add: sample_master_def sample_iteration_def master_ok_def slot_ok_def status_pid_def
      status_failed_def upt_rec split: step_result.splits)

definition reported :: "iteration \<Rightarrow> pid set" where
  "reported it = (case it_wait it of Inr s \<Rightarrow> set_option (status_pid s) | Inl _ \<Rightarrow> {})"

lemma no_live: "(\<forall>w \<in> set ws. ws_pid w = None) \<longleftrightarrow> live_pids ws = []"
  by (induction ws) (auto split: option.splits)

text \<open>
  One iteration of a stopping supervisor: either it ends, successfully unless \<open>waitpid\<close> failed, or
  exactly the reported process is gone and some process is still alive; nothing is spawned.
\<close>

lemma stopping_step:
  assumes "ms_stopping m" and "master_ok n m" and "live_pids (ms_workers m) \<noteq> []"
  shows "(\<exists>m' es. supervise_step it m = (Next m', es) \<and> ms_stopping m' \<and> master_ok n m'
        \<and> live_pids (ms_workers m') \<noteq> [] \<and> (\<forall>c p. Spawn c p \<notin> set es)
        \<and> set (live_pids (ms_workers m')) = set (live_pids (ms_workers m)) - reported it)
    \<or> (\<exists>es. supervise_step it m = (Finish (Inr ()), es) \<and> (\<forall>c p. Spawn c p \<notin> set es))
    \<or> (\<exists>e. it_wait it = Inl e \<and> e \<noteq> ECHILD)"
proof -
  have step: "supervise_step it m = wait_and_restart it m" using assms(1) by (simp add: supervise_step_def)
  have after: "after_wait it m' = (if live_pids (ms_workers m') = [] then Finish (Inr ()) else Next m', [])"
    if "ms_stopping m'" for m' using that by (simp add: after_wait_def no_live)
  have exited: ?thesis if s: "it_wait it = Inr s" "status_pid s = Some p" "s \<noteq> StillAlive" for s p
  proof -
    from s have war: "wait_and_restart it m = (case position (\<lambda>w. ws_pid w = Some p) (ms_workers m) of
        None \<Rightarrow> (Next m, [])
      | Some k \<Rightarrow> after_wait it (m\<lparr>ms_workers := (ms_workers m)[k := on_exit it (ms_stopping m) s (ms_workers m ! k)]\<rparr>))"
      by (auto simp: wait_and_restart_def split: wait_status.splits)
    have rep: "reported it = {p}" using s by (simp add: reported_def)
    show ?thesis
    proof (cases "position (\<lambda>w. ws_pid w = Some p) (ms_workers m)")
      case None
      then have "p \<notin> set (live_pids (ms_workers m))" by (auto simp: position_None_iff set_live_pids)
      with None war step rep assms show ?thesis by simp
    next
      case (Some k)
      let ?m = "m\<lparr>ms_workers := (ms_workers m)[k := on_exit it (ms_stopping m) s (ms_workers m ! k)]\<rparr>"
      from exit_ok[OF assms(2) Some, of it "ms_stopping m" s]
      have "master_ok n ?m" "set (live_pids (ms_workers ?m)) = set (live_pids (ms_workers m)) - {p}" by simp_all
      moreover have "wait_and_restart it m = after_wait it ?m" using war Some by simp
      ultimately show ?thesis using after[of ?m] assms(1) step rep by auto
    qed
  qed
  note quiet = after[OF assms(1)]
  show ?thesis
  proof (cases "it_wait it")
    case (Inl e)
    with assms quiet step show ?thesis by (auto simp: wait_and_restart_def reported_def)
  next
    case (Inr s)
    show ?thesis
    proof (cases s)
      case StillAlive
      with Inr assms quiet step show ?thesis
        by (auto simp: wait_and_restart_def reported_def status_pid_def)
    next
      case (OtherStatus q)
      with Inr assms step show ?thesis
        by (auto simp: wait_and_restart_def reported_def status_pid_def)
    qed (use Inr exited in \<open>auto simp: status_pid_def\<close>)
  qed
qed

text \<open>
  C19. Shutdown terminates: a stopping supervisor whose live workers all get reported as exited, with
  no error of \<open>waitpid\<close> other than the absence of children, returns successfully, and no worker is
  spawned on the way.
\<close>

theorem shutdown_terminates:
  assumes "master_ok n m" and "ms_stopping m" and "live_pids (ms_workers m) \<noteq> []"
    and "\<forall>it \<in> set its. \<forall>e. it_wait it = Inl e \<longrightarrow> e = ECHILD"
    and "\<forall>p \<in> set (live_pids (ms_workers m)). \<exists>it \<in> set its. p \<in> reported it"
  shows "\<exists>es. supervise_workers its m = (Finish (Inr ()), es) \<and> (\<forall>c p. Spawn c p \<notin> set es)"
  using assms
proof (induction its arbitrary: m)
  case Nil
  then show ?case by (cases "live_pids (ms_workers m)") auto
next
  case (Cons it its)
  from stopping_step[OF Cons.prems(2,1,3), of it] Cons.prems(4)
  consider (more_work) m' es where "supervise_step it m = (Next m', es)" "ms_stopping m'" "master_ok n m'"
      "live_pids (ms_workers m') \<noteq> []" "\<forall>c p. Spawn c p \<notin> set es"
      "set (live_pids (ms_workers m')) = set (live_pids (ms_workers m)) - reported it"
    | (finished) es where "supervise_step it m = (Finish (Inr ()), es)" "\<forall>c p. Spawn c p \<notin> set es"
    by auto
  then show ?case
  proof cases
    case more_work
    have "\<forall>p \<in> set (live_pids (ms_workers m')). \<exists>it \<in> set its. p \<in> reported it"
      using Cons.prems(5) more_work(6) by auto
    from Cons.IH[OF more_work(3,2,4) _ this] Cons.prems(4) obtain es'
      where "supervise_workers its m' = (Finish (Inr ()), es')" "\<forall>c p. Spawn c p \<notin> set es'" by auto
    with more_work(1,5) show ?thesis by auto
  qed auto
qed

theorem shutdown_terminates_witness:
  "\<exists>es. supervise_workers [sample_iteration (Inr StillAlive), sample_iteration (Inr (Exited 41 0)),
       sample_iteration (Inr (Signaled 40))] (sample_master\<lparr>ms_stopping := True\<rparr>) = (Finish (Inr ()), es)
     \<and> (\<forall>c p. Spawn c p \<notin> set es)"
  by (rule shutdown_terminates[of 2])
     (simp_all add: sample_master_def sample_iteration_def master_ok_def slot_ok_def status_pid_def
       reported_def upt_rec)

text \<open>
  The loop spins while only a restart is pending: once every child is gone, \<open>waitpid\<close> answers
  \<open>ECHILD\<close>, and an iteration before the restart time changes nothing and does not sleep either.
\<close>

theorem pending_restart_spins:
  assumes "\<not> ms_stopping m" and "\<not> it_shutdown it" and "it_wait it = Inl ECHILD"
    and "\<forall>w \<in> set (ms_workers m). \<not> restart_due it w"
    and "w \<in> set (ms_workers m)" and "ws_restart_at w \<noteq> None"
  shows "supervise_step it m = (Next m, [])"
proof -
  have rl: "restart_loop it ws = (Inr ws, [])" if "\<forall>w \<in> set ws. \<not> restart_due it w" for ws
    using that by (induction ws) auto
  have "after_wait it m = (Next m, [])"
    using assms(1,5,6) rl[OF assms(4)] by (auto simp: after_wait_def)
  with assms(1-3) show ?thesis by (simp add: supervise_step_def wait_and_restart_def)
qed

theorem pending_restart_spins_witness:
  "\<exists>m. supervise_step (sample_iteration (Inl ECHILD)) m = (Next m, [])"
proof -
  let ?w = "\<lparr>ws_cpu_id = 0, ws_pid = None, ws_failures = 1, ws_started_at = 5, ws_restart_at = Some 150\<rparr>"
  let ?m = "\<lparr>ms_workers = [?w], ms_stopping = False\<rparr>"
  have "supervise_step (sample_iteration (Inl ECHILD)) ?m = (Next ?m, [])"
    by (rule pending_restart_spins[where w = ?w]) (simp_all add: sample_iteration_def restart_due_def)
  then show ?thesis by blast
qed

end
