(* ===== verification/Dns_Resolver.thy ===== *)
theory Dns_Resolver
  imports Rust_Io Config Token "HOL-Library.Multiset"
begin

text \<open>
  The resolver of a worker: the two channels and the pool of threads that resolve upstream names. The
  code is in \<open>runtime/readiness/resolver.rs\<close>; \<open>runtime/io_uring/resolver.rs\<close> is the same but for the names of
  the threads, the type of the identity it carries (here a parameter) and the eventfd that is written
  where the other wakes the poller.
\<close>

section \<open>The resolver\<close>

record 'i resolve_task =
  tk_connection_id :: 'i
  tk_address :: bytes

record 'i resolve_result =
  rr_connection_id :: 'i
  rr_addresses :: "io_error + socket_addr list"

text \<open>
  A resolver thread waits for a task (holding the mutex of the receiver or waiting for it), looks
  its address up, or has sent its answer and is about to wake the poller. A task is received by any
  waiting thread. The threads run until the resolver is dropped.
\<close>

datatype 'i resolver_thread = Waiting | LookingUp "'i resolve_task" | Answered

record 'i dns_resolver =
  dr_tasks :: "'i resolve_task list"
  dr_threads :: "'i resolver_thread list"
  dr_results :: "'i resolve_result list"
  dr_wakes :: nat

text \<open>\<open>spawn\<close> is the result of \<open>thread::Builder::spawn\<close> for each index.\<close>

definition dns_resolver_new :: "(nat \<Rightarrow> io_error + unit) \<Rightarrow> nat \<Rightarrow> io_error + 'i dns_resolver" where
  "dns_resolver_new spawn thread_count = (case try_for_each spawn [0..<thread_count] of
     Inl e \<Rightarrow> Inl e
   | Inr _ \<Rightarrow> Inr \<lparr>dr_tasks = [], dr_threads = replicate thread_count Waiting, dr_results = [],
       dr_wakes = 0\<rparr>)"

text \<open>The receiver lives as long as some thread holds it.\<close>

definition resolve :: "'i \<Rightarrow> bytes \<Rightarrow> 'i dns_resolver \<Rightarrow> (io_error + unit) \<times> 'i dns_resolver" where
  "resolve connection_id address r =
     (if dr_threads r = [] then (Inl (Custom KBrokenPipe ''DNS resolver stopped''), r)
      else (Inr (), r\<lparr>dr_tasks := dr_tasks r @
        [\<lparr>tk_connection_id = connection_id, tk_address = address\<rparr>]\<rparr>))"

definition drain :: "'i dns_resolver \<Rightarrow> 'i resolve_result list \<times> 'i dns_resolver" where
  "drain r = (dr_results r, r\<lparr>dr_results := []\<rparr>)"

text \<open>One step of a thread; \<open>addresses\<close> is what \<open>to_socket_addrs\<close> answers. A disabled step does nothing.\<close>

datatype thread_action = Receive nat | Answer nat "io_error + socket_addr list" | Wake nat

fun thread_step :: "thread_action \<Rightarrow> 'i dns_resolver \<Rightarrow> 'i dns_resolver" where
  "thread_step (Receive i) r = (case (get (dr_threads r) i, dr_tasks r) of
     (Some Waiting, task # tasks) \<Rightarrow>
       r\<lparr>dr_tasks := tasks, dr_threads := (dr_threads r)[i := LookingUp task]\<rparr>
   | _ \<Rightarrow> r)"
| "thread_step (Answer i addresses) r = (case get (dr_threads r) i of
     Some (LookingUp task) \<Rightarrow> r\<lparr>dr_threads := (dr_threads r)[i := Answered],
       dr_results := dr_results r @
         [\<lparr>rr_connection_id = tk_connection_id task, rr_addresses = addresses\<rparr>]\<rparr>
   | _ \<Rightarrow> r)"
| "thread_step (Wake i) r = (case get (dr_threads r) i of
     Some Answered \<Rightarrow> r\<lparr>dr_threads := (dr_threads r)[i := Waiting], dr_wakes := dr_wakes r + 1\<rparr>
   | _ \<Rightarrow> r)"

definition run_threads :: "thread_action list \<Rightarrow> 'i dns_resolver \<Rightarrow> 'i dns_resolver" where
  "run_threads actions r = fold thread_step actions r"

section \<open>Every lookup is answered once\<close>

text \<open>The connections a resolver still owes an answer, or has an answer for.\<close>

fun thread_ids :: "'i resolver_thread \<Rightarrow> 'i list" where
  "thread_ids (LookingUp task) = [tk_connection_id task]"
| "thread_ids _ = []"

definition outstanding :: "'i dns_resolver \<Rightarrow> 'i multiset" where
  "outstanding r = mset (map tk_connection_id (dr_tasks r))
     + mset (concat (map thread_ids (dr_threads r))) + mset (map rr_connection_id (dr_results r))"

lemma mset_concat_update:
  assumes "i < length xs"
  shows "mset (concat (map f (xs[i := x]))) + mset (f (xs ! i)) = mset (concat (map f xs)) + mset (f x)"
proof -
  have "xs = take i xs @ xs ! i # drop (Suc i) xs" using assms by (rule id_take_nth_drop)
  then have "concat (map f xs) = concat (map f (take i xs @ xs ! i # drop (Suc i) xs))" by simp
  with assms show ?thesis by (simp add: upd_conv_take_nth_drop)
qed

lemma outstanding_thread_step [simp]: "outstanding (thread_step a r) = outstanding r"
proof -
  note upd = mset_concat_update[of _ "dr_threads r" thread_ids]
  show ?thesis
  proof (cases a)
    case (Receive i)
    then show ?thesis using upd[of i "LookingUp (hd (dr_tasks r))"]
      by (auto simp: outstanding_def split: option.splits list.splits resolver_thread.splits)
  next
    case (Answer i addresses)
    then show ?thesis using upd[of i Answered]
      by (auto simp: outstanding_def split: option.splits resolver_thread.splits)
  next
    case (Wake i)
    then show ?thesis using upd[of i Waiting]
      by (auto simp: outstanding_def split: option.splits resolver_thread.splits)
  qed
qed

lemma outstanding_run_threads [simp]: "outstanding (run_threads as r) = outstanding r"
  unfolding run_threads_def by (induction as arbitrary: r) simp_all

lemma length_thread_step [simp]: "length (dr_threads (thread_step a r)) = length (dr_threads r)"
  by (cases a) (auto split: option.splits list.splits resolver_thread.splits)

lemma length_run_threads [simp]: "length (dr_threads (run_threads as r)) = length (dr_threads r)"
  unfolding run_threads_def by (induction as arbitrary: r) simp_all

lemma run_threads_append: "run_threads (as @ bs) r = run_threads bs (run_threads as r)"
  by (simp add: run_threads_def)

text \<open>One thread serves the whole queue: \<open>serve\<close> lets thread 0 finish its work and take each task.\<close>

definition serve_one :: "(io_error + socket_addr list) \<Rightarrow> thread_action list" where
  "serve_one addresses = [Answer 0 addresses, Wake 0, Receive 0, Answer 0 addresses, Wake 0]"

lemma serve_one_tasks:
  assumes "dr_threads r \<noteq> []"
  shows "dr_tasks (run_threads (serve_one a) r) = tl (dr_tasks r)
       \<and> dr_threads (run_threads (serve_one a) r) = (dr_threads r)[0 := Waiting]"
proof -
  obtain t ts where "dr_threads r = t # ts" using assms by (cases "dr_threads r") auto
  then show ?thesis
    by (cases t; cases "dr_tasks r") (simp_all add: run_threads_def serve_one_def get_def)
qed

lemma serve_all_tasks:
  assumes "dr_threads r \<noteq> []" and "length (dr_tasks r) \<le> n"
  shows "dr_tasks (run_threads (concat (replicate n (serve_one a))) r) = []"
  using assms
proof (induction n arbitrary: r)
  case 0
  then show ?case by (simp add: run_threads_def)
next
  case (Suc n)
  from serve_one_tasks[OF Suc.prems(1)]
  have "dr_threads (run_threads (serve_one a) r) \<noteq> []"
    "length (dr_tasks (run_threads (serve_one a) r)) \<le> n"
    using Suc.prems by auto
  from Suc.IH[OF this] show ?case by (simp add: run_threads_append)
qed

definition finish_lookups :: "nat \<Rightarrow> (io_error + socket_addr list) \<Rightarrow> thread_action list" where
  "finish_lookups n a = map (\<lambda>i. Answer i a) [0..<n]"

lemma finish_lookups_threads:
  assumes "i < n" and "n \<le> length (dr_threads r)"
  shows "thread_ids (dr_threads (run_threads (finish_lookups n a) r) ! i) = []"
  using assms
proof (induction n)
  case 0
  then show ?case by simp
next
  case (Suc n)
  let ?r = "run_threads (finish_lookups n a) r"
  have eq: "run_threads (finish_lookups (Suc n) a) r = thread_step (Answer n a) ?r"
    by (simp add: finish_lookups_def run_threads_def)
  show ?case
  proof (cases "i = n")
    case True
    then show ?thesis using Suc.prems unfolding eq
      by (cases "dr_threads ?r ! n") (auto simp: get_def)
  next
    case False
    then have "thread_ids (dr_threads ?r ! i) = []" using Suc by simp
    then show ?thesis using False unfolding eq by (auto split: option.splits resolver_thread.splits)
  qed
qed

lemma tasks_finish_lookups [simp]:
  "dr_tasks (run_threads (map (\<lambda>i. Answer i a) is) r) = dr_tasks r"
  by (induction "is" arbitrary: r) (auto simp: run_threads_def split: option.splits resolver_thread.splits)

text \<open>
  C23. The resolver answers every lookup exactly once, with the identity of the connection that
  asked: whatever its threads do, the answers drained and those still owed are together the
  lookups requested, and with at least one thread there is always a schedule after which a drain
  returns all of them.
\<close>

theorem resolver_answers_once:
  assumes "dr_threads r \<noteq> []"
  shows "let (result, r') = resolve connection_id address r;
             (answers, r'') = drain (run_threads actions r')
         in result = Inr ()
          \<and> mset (map rr_connection_id answers) + outstanding r'' = add_mset connection_id (outstanding r)
          \<and> (\<exists>more_actions. mset (map rr_connection_id (fst (drain (run_threads more_actions r'')))) = outstanding r'')"
proof -
  define r' where "r' = snd (resolve connection_id address r)"
  define r'' where "r'' = snd (drain (run_threads actions r'))"
  have out': "outstanding r' = add_mset connection_id (outstanding r)"
    using assms by (simp add: r'_def resolve_def outstanding_def)
  have "mset (map rr_connection_id (fst (drain (run_threads actions r')))) + outstanding r''
      = outstanding (run_threads actions r')"
    by (simp add: r''_def drain_def outstanding_def)
  with out' have conserve: "mset (map rr_connection_id (fst (drain (run_threads actions r'))))
      + outstanding r'' = add_mset connection_id (outstanding r)" by simp
  have "length (dr_threads r'') = length (dr_threads r)"
    by (simp add: r''_def drain_def r'_def resolve_def)
  with assms have threads: "dr_threads r'' \<noteq> []" by auto
  let ?more = "concat (replicate (length (dr_tasks r'')) (serve_one (Inr [])))
    @ finish_lookups (length (dr_threads r'')) (Inr [])"
  define q where "q = run_threads ?more r''"
  have "dr_tasks q = []"
    using serve_all_tasks[OF threads order_refl, of "Inr []"]
    by (simp add: q_def run_threads_append finish_lookups_def)
  moreover have "\<forall>i < length (dr_threads q). thread_ids (dr_threads q ! i) = []"
    unfolding q_def run_threads_append by (auto intro!: finish_lookups_threads)
  then have "concat (map thread_ids (dr_threads q)) = []"
    by (auto simp: in_set_conv_nth)
  ultimately have "mset (map rr_connection_id (dr_results q)) = outstanding q"
    by (simp add: outstanding_def)
  also have "\<dots> = outstanding r''" by (simp add: q_def)
  finally have "mset (map rr_connection_id (fst (drain (run_threads ?more r'')))) = outstanding r''"
    by (simp add: drain_def q_def)
  then have ex: "\<exists>m. mset (map rr_connection_id (fst (drain (run_threads m r'')))) = outstanding r''" ..
  have "fst (resolve connection_id address r) = Inr ()" using assms by (simp add: resolve_def)
  with conserve ex show ?thesis
    unfolding r''_def r'_def Let_def case_prod_unfold by blast
qed

theorem resolver_answers_once_witness:
  "\<exists>more_actions. mset (map rr_connection_id (fst (drain (run_threads more_actions
       (snd (drain (run_threads [Receive 1] (snd (resolve \<lparr>cid_slot = 3, cid_generation = 1\<rparr> ''a:80''
          \<lparr>dr_tasks = [], dr_threads = [Waiting, Waiting], dr_results = [], dr_wakes = 0\<rparr>)))))))))
     = {#\<lparr>cid_slot = 3, cid_generation = 1\<rparr>#}"
proof -
  let ?r = "\<lparr>dr_tasks = [], dr_threads = [Waiting, Waiting], dr_results = [], dr_wakes = 0\<rparr>"
  let ?id = "\<lparr>cid_slot = 3, cid_generation = 1\<rparr>"
  let ?q = "snd (drain (run_threads [Receive 1] (snd (resolve ?id ''a:80'' ?r))))"
  have "outstanding ?q = {#?id#}"
    by (simp add: resolve_def drain_def run_threads_def outstanding_def get_def)
  with resolver_answers_once[of ?r ?id "''a:80''" "[Receive 1]"] show ?thesis
    by (auto simp: case_prod_unfold Let_def)
qed

end
