(* ===== verification/Readiness_Connection.thy ===== *)
theory Readiness_Connection
  imports Dns_Resolver Startup Static_Files Upstream_Proxy
begin

text \<open>
  The per-connection state of the readiness runtime: \<open>runtime/readiness/connection.rs\<close> (the client
  connection and its protocol phase) and \<open>proxy.rs\<close> (the upstream half of a proxied request).

  The operations that call \<open>Instant::now\<close> take its value. A rustls session is an opaque value of type \<open>'t\<close>.
\<close>

section \<open>Proxy state\<close>

datatype proxy_phase = Connecting | WritingRequest | ReadingResponse

definition phase_timeout :: "proxy_phase \<Rightarrow> proxy_limits \<Rightarrow> nat" where
  "phase_timeout p limits = (case p of
     Connecting \<Rightarrow> pl_connect_timeout limits
   | WritingRequest \<Rightarrow> pl_write_timeout limits
   | ReadingResponse \<Rightarrow> pl_read_timeout limits)"

definition timeout_message :: "proxy_phase \<Rightarrow> bytes" where
  "timeout_message p = (case p of
     Connecting \<Rightarrow> ''upstream connect timed out''
   | WritingRequest \<Rightarrow> ''upstream request write timed out''
   | ReadingResponse \<Rightarrow> ''upstream response timed out'')"

record proxy_state =
  px_upstream :: socket
  px_request_buffer :: bytes
  px_request_offset :: nat
  px_upstream_eof :: bool
  px_response_started :: bool
  px_phase :: proxy_phase
  px_phase_progress_at :: instant

definition proxy_state_new :: "instant \<Rightarrow> socket \<Rightarrow> bytes \<Rightarrow> proxy_state" where
  "proxy_state_new now upstream request_buffer = \<lparr>px_upstream = upstream,
     px_request_buffer = request_buffer, px_request_offset = 0, px_upstream_eof = False,
     px_response_started = False, px_phase = Connecting, px_phase_progress_at = now\<rparr>"

definition transition :: "instant \<Rightarrow> proxy_phase \<Rightarrow> proxy_state \<Rightarrow> proxy_state" where
  "transition now p x = x\<lparr>px_phase := p, px_phase_progress_at := now\<rparr>"

definition record_progress :: "instant \<Rightarrow> proxy_state \<Rightarrow> proxy_state" where
  "record_progress now x = x\<lparr>px_phase_progress_at := now\<rparr>"

text \<open>The phases in the order a proxied request goes through them.\<close>

definition phase_rank :: "proxy_phase \<Rightarrow> nat" where
  "phase_rank p = (case p of Connecting \<Rightarrow> 0 | WritingRequest \<Rightarrow> 1 | ReadingResponse \<Rightarrow> 2)"

instantiation proxy_phase :: linorder
begin

definition less_eq_proxy_phase :: "proxy_phase \<Rightarrow> proxy_phase \<Rightarrow> bool" where
  "p \<le> q \<longleftrightarrow> phase_rank p \<le> phase_rank q"

definition less_proxy_phase :: "proxy_phase \<Rightarrow> proxy_phase \<Rightarrow> bool" where
  "p < q \<longleftrightarrow> phase_rank p < phase_rank q"

instance
  by standard (auto simp: less_eq_proxy_phase_def less_proxy_phase_def phase_rank_def
      split: proxy_phase.splits)

end

section \<open>Connections\<close>

record 't ssl_session =
  sl_connection :: 't
  sl_started_at :: instant
  sl_handshake_timeout :: nat

record resolving_state =
  rs_request_buffer :: bytes
  rs_started_at :: instant

record pending_request =
  pr_head :: request_head
  pr_body_start :: usize
  pr_body_end :: usize

datatype connection_phase =
    Reading "pending_request option"
  | WritingResponse
  | Resolving resolving_state
  | Proxying proxy_state

record 't connection =
  cn_socket :: socket
  cn_read_buffer :: bytes
  cn_write_buffer :: bytes
  cn_write_offset :: nat
  cn_listener_group :: nat
  cn_last_progress :: instant
  cn_generation :: usize
  cn_static_stream :: "static_stream option"
  cn_ssl :: "'t ssl_session option"
  cn_ssl_closing :: bool
  cn_phase :: connection_phase

text \<open>
  \<open>new_session\<close> is \<open>rustls::ServerConnection::new\<close> with the text of its error; \<open>now\<close> and \<open>now'\<close> are the
  two readings of the clock.
\<close>

definition connection_new ::
  "('sc \<Rightarrow> bytes + 't) \<Rightarrow> instant \<Rightarrow> instant \<Rightarrow> socket \<Rightarrow> nat \<Rightarrow> usize \<Rightarrow> 'sc loaded_ssl_config option
   \<Rightarrow> io_error + 't connection" where
  "connection_new new_session now now' socket listener_group generation ssl_config =
     (case (case ssl_config of
              None \<Rightarrow> Inr None
            | Some config \<Rightarrow>
                (case new_session (ls_server_config config) of
                   Inl e \<Rightarrow> Inl (Custom KInvalidInput (''failed to create SSL session: '' @ e))
                 | Inr session \<Rightarrow> Inr (Some \<lparr>sl_connection = session, sl_started_at = now,
                     sl_handshake_timeout = ls_handshake_timeout config\<rparr>))) of
        Inl e \<Rightarrow> Inl e
      | Inr session \<Rightarrow> Inr \<lparr>cn_socket = socket, cn_read_buffer = [], cn_write_buffer = [],
          cn_write_offset = 0, cn_listener_group = listener_group, cn_last_progress = now',
          cn_generation = generation, cn_static_stream = None, cn_ssl = session,
          cn_ssl_closing = False, cn_phase = Reading None\<rparr>)"

definition ssl_wants_write :: "('t \<Rightarrow> bool) \<Rightarrow> 't connection \<Rightarrow> bool" where
  "ssl_wants_write wants_write c = (case cn_ssl c of
     None \<Rightarrow> False | Some session \<Rightarrow> wants_write (sl_connection session))"

definition ssl_handshake_expired :: "('t \<Rightarrow> bool) \<Rightarrow> instant \<Rightarrow> 't connection \<Rightarrow> bool" where
  "ssl_handshake_expired is_handshaking now c = (case cn_ssl c of
     None \<Rightarrow> False
   | Some session \<Rightarrow> is_handshaking (sl_connection session)
       \<and> duration_since now (sl_started_at session) \<ge> sl_handshake_timeout session)"

definition is_proxying :: "'t connection \<Rightarrow> bool" where
  "is_proxying c = (case cn_phase c of Proxying _ \<Rightarrow> True | _ \<Rightarrow> False)"

definition is_resolving :: "'t connection \<Rightarrow> bool" where
  "is_resolving c = (case cn_phase c of Resolving _ \<Rightarrow> True | _ \<Rightarrow> False)"

definition is_handling_request :: "'t connection \<Rightarrow> bool" where
  "is_handling_request c = (case cn_phase c of Resolving _ \<Rightarrow> True | Proxying _ \<Rightarrow> True | _ \<Rightarrow> False)"

definition is_writing_response :: "'t connection \<Rightarrow> bool" where
  "is_writing_response c = (case cn_phase c of WritingResponse \<Rightarrow> True | _ \<Rightarrow> False)"

definition pending_request_of :: "'t connection \<Rightarrow> pending_request option" where
  "pending_request_of c = (case cn_phase c of Reading p \<Rightarrow> p | _ \<Rightarrow> None)"

definition set_pending_request :: "pending_request \<Rightarrow> 't connection \<Rightarrow> 't connection" where
  "set_pending_request request c = (case cn_phase c of
     Reading _ \<Rightarrow> c\<lparr>cn_phase := Reading (Some request)\<rparr> | _ \<Rightarrow> c)"

definition take_pending_request :: "'t connection \<Rightarrow> pending_request option \<times> 't connection" where
  "take_pending_request c = (case cn_phase c of
     Reading p \<Rightarrow> (p, c\<lparr>cn_phase := Reading None\<rparr>) | _ \<Rightarrow> (None, c))"

definition begin_response :: "'t connection \<Rightarrow> 't connection" where
  "begin_response c = c\<lparr>cn_phase := WritingResponse\<rparr>"

definition begin_resolving :: "instant \<Rightarrow> bytes \<Rightarrow> 't connection \<Rightarrow> 't connection" where
  "begin_resolving now request_buffer c =
     c\<lparr>cn_phase := Resolving \<lparr>rs_request_buffer = request_buffer, rs_started_at = now\<rparr>\<rparr>"

definition resolution :: "'t connection \<Rightarrow> resolving_state option" where
  "resolution c = (case cn_phase c of Resolving r \<Rightarrow> Some r | _ \<Rightarrow> None)"

definition take_resolution :: "'t connection \<Rightarrow> resolving_state option \<times> 't connection" where
  "take_resolution c = (case cn_phase c of
     Resolving r \<Rightarrow> (Some r, c\<lparr>cn_phase := WritingResponse\<rparr>) | _ \<Rightarrow> (None, c))"

definition begin_proxy :: "proxy_state \<Rightarrow> 't connection \<Rightarrow> 't connection" where
  "begin_proxy x c = c\<lparr>cn_phase := Proxying x\<rparr>"

definition proxy_of :: "'t connection \<Rightarrow> proxy_state option" where
  "proxy_of c = (case cn_phase c of Proxying x \<Rightarrow> Some x | _ \<Rightarrow> None)"

definition detach_proxy :: "'t connection \<Rightarrow> proxy_state option \<times> 't connection" where
  "detach_proxy c = (case cn_phase c of
     Proxying x \<Rightarrow> (Some x, c\<lparr>cn_phase := WritingResponse\<rparr>) | _ \<Rightarrow> (None, c))"

text \<open>Writing through \<open>proxy_mut\<close>.\<close>

definition update_proxy :: "(proxy_state \<Rightarrow> proxy_state) \<Rightarrow> 't connection \<Rightarrow> 't connection" where
  "update_proxy f c = (case cn_phase c of Proxying x \<Rightarrow> c\<lparr>cn_phase := Proxying (f x)\<rparr> | _ \<Rightarrow> c)"

lemmas phase_query_defs = is_proxying_def is_resolving_def is_handling_request_def
  is_writing_response_def pending_request_of_def resolution_def proxy_of_def

lemmas phase_update_defs = set_pending_request_def take_pending_request_def begin_response_def
  begin_resolving_def take_resolution_def begin_proxy_def detach_proxy_def update_proxy_def

end
