(* ===== verification/Slab.thy ===== *)
theory Slab
  imports Prelude
begin

text \<open>
  The table of connections both workers keep in a \<open>Slab\<close>, by its documented behaviour: the list of
  its entries by key, vacant ones being \<open>None\<close>. Which vacant key the next entry gets is up to the slab
  and an argument of the workers.
\<close>

section \<open>Operations\<close>

text \<open>\<open>get\<close>, \<open>iter\<close> in the order of the keys, \<open>len\<close>, and insertion at a vacant key.\<close>

definition slab_get :: "'a option list \<Rightarrow> nat \<Rightarrow> 'a option" where
  "slab_get xs i = (case get xs i of Some (Some x) \<Rightarrow> Some x | _ \<Rightarrow> None)"

fun slab_iter_from :: "nat \<Rightarrow> 'a option list \<Rightarrow> (nat \<times> 'a) list" where
  "slab_iter_from i [] = []"
| "slab_iter_from i (None # xs) = slab_iter_from (Suc i) xs"
| "slab_iter_from i (Some x # xs) = (i, x) # slab_iter_from (Suc i) xs"

definition slab_iter :: "'a option list \<Rightarrow> (nat \<times> 'a) list" where
  "slab_iter xs = slab_iter_from 0 xs"

definition slab_len :: "'a option list \<Rightarrow> nat" where
  "slab_len xs = length (slab_iter xs)"

definition slab_insert :: "nat \<Rightarrow> 'a \<Rightarrow> 'a option list \<Rightarrow> 'a option list" where
  "slab_insert key x xs = (if key < length xs then xs[key := Some x] else xs @ [Some x])"

section \<open>Laws\<close>

lemma slab_get_Nil [simp]: "slab_get [] i = None"
  by (simp add: slab_get_def get_def)

lemma slab_get_Some_iff: "slab_get xs i = Some x \<longleftrightarrow> i < length xs \<and> xs ! i = Some x"
  by (auto simp: slab_get_def get_def split: option.splits if_splits)

lemma slab_get_Cons [simp]:
  "slab_get (y # xs) i = (case i of 0 \<Rightarrow> y | Suc j \<Rightarrow> slab_get xs j)"
  by (auto simp: slab_get_def get_def split: nat.splits option.splits)

lemma slab_get_put:
  "slab_get (xs[i := Some x]) j = (if j = i \<and> i < length xs then Some x else slab_get xs j)"
  by (auto simp: slab_get_def get_def)

lemma slab_get_clear: "slab_get (xs[i := None]) j = (if j = i then None else slab_get xs j)"
  by (auto simp: slab_get_def get_def)

lemma slab_get_append: "slab_get (xs @ ys) i = (if i < length xs then slab_get xs i else slab_get ys (i - length xs))"
  by (auto simp: slab_get_def get_def nth_append)

lemma slab_get_insert:
  "k \<le> length xs \<Longrightarrow> slab_get (slab_insert k x xs) j = (if j = k then Some x else slab_get xs j)"
  by (auto simp: slab_insert_def slab_get_def get_def nth_append)

lemma slab_iter_from_set: "set (slab_iter_from n xs) = {(n + i, x) |i x. slab_get xs i = Some x}"
proof (induction n xs rule: slab_iter_from.induct)
  case (1 i)
  then show ?case by simp
next
  case (2 i xs)
  have "(\<exists>k. P k (case k of 0 \<Rightarrow> None | Suc j \<Rightarrow> slab_get xs j)) \<longleftrightarrow> P 0 None \<or> (\<exists>j. P (Suc j) (slab_get xs j))" for P
    by (metis nat.exhaust old.nat.simps(4,5))
  with 2 show ?case by (fastforce simp: set_eq_iff split: nat.splits)
next
  case (3 i x xs)
  show ?case
  proof (rule set_eqI)
    fix p
    show "p \<in> set (slab_iter_from i (Some x # xs))
        \<longleftrightarrow> p \<in> {(i + j, y) |j y. slab_get (Some x # xs) j = Some y}"
      using 3 by (cases p) (auto simp: gr0_conv_Suc split: nat.splits)
  qed
qed

lemma slab_iter_set [simp]: "(i, x) \<in> set (slab_iter xs) \<longleftrightarrow> slab_get xs i = Some x"
  using slab_iter_from_set[of 0 xs] by (auto simp: slab_iter_def)

lemma slab_len_filter: "slab_len xs = length (filter (\<lambda>e. e \<noteq> None) xs)"
proof -
  have "length (slab_iter_from n xs) = length (filter (\<lambda>e. e \<noteq> None) xs)" for n
    by (induction n xs rule: slab_iter_from.induct) auto
  then show ?thesis by (simp add: slab_len_def slab_iter_def)
qed

lemma slab_len_split:
  "i < length xs \<Longrightarrow> slab_len xs = slab_len (take i xs) + (if xs ! i = None then 0 else 1) + slab_len (drop (Suc i) xs)"
  by (subst (1) id_take_nth_drop[of i xs]) (simp_all add: slab_len_filter)

lemma slab_len_put: "slab_get xs i = Some y \<Longrightarrow> slab_len (xs[i := Some x]) = slab_len xs"
  by (auto simp: slab_get_Some_iff slab_len_split[of i])

lemma slab_len_clear_less: "slab_get xs i = Some y \<Longrightarrow> slab_len (xs[i := None]) + 1 = slab_len xs"
  by (auto simp: slab_get_Some_iff slab_len_split[of i])

lemma slab_len_clear: "slab_len (xs[i := None]) \<le> slab_len xs"
proof (cases "i < length xs")
  case True
  then show ?thesis by (simp add: slab_len_split[of i])
next
  case False
  then have "xs[i := None] = xs" by (intro list_update_beyond) simp
  then show ?thesis by simp
qed

lemma slab_len_insert:
  assumes "k \<le> length xs" and "slab_get xs k = None"
  shows "slab_len (slab_insert k x xs) = slab_len xs + 1"
proof (cases "k < length xs")
  case True
  with assms have "xs ! k = None" by (auto simp: slab_get_def get_def split: option.splits)
  with True show ?thesis by (simp add: slab_insert_def slab_len_split[of k])
next
  case False
  then show ?thesis by (simp add: slab_insert_def slab_len_filter)
qed

lemma slab_len_0_iff: "slab_len xs = 0 \<longleftrightarrow> (\<forall>i. slab_get xs i = None)"
  by (simp add: slab_len_def) (metis emptyE equals0I list.set(1) not_None_eq old.prod.exhaust set_empty slab_iter_set)

end
