(* ===== verification/Worker_Common.thy ===== *)
theory Worker_Common
  imports Router Load_Balancer Slab
begin

text \<open>
  What both runtimes rely on: the configuration a worker was started with, under which selecting an
  upstream never panics, and the vector of slot generations, which is extended on demand.
\<close>

section \<open>The configuration of a worker\<close>

text \<open>The configuration the worker was started with: validated, with positive weights.\<close>

definition config_known :: "server list \<Rightarrow> upstream_balancer \<Rightarrow> bool" where
  "config_known servers b \<longleftrightarrow> (\<exists>c. config_ok c \<and> config_weights_positive c
     \<and> http_servers c = servers \<and> upstreams c = balancer_groups b)"

lemma config_known_of:
  "config_ok c \<Longrightarrow> config_weights_positive c \<Longrightarrow> config_known (http_servers c) (with_groups (upstreams c))"
  by (auto simp: config_known_def with_groups_def)

lemma select_groups: "balancer_groups (snd (select a b)) = balancer_groups b"
  by (auto simp: select_def Let_def split: action.splits option.splits sum.splits outcome.splits prod.splits)

lemma select_no_panic:
  assumes "config_known servers b" and "s \<in> set servers" and "route s target = Some (Proxy u g es p)"
  shows "fst (select (Proxy u g es p) b) \<noteq> Panic"
proof -
  obtain c where c: "config_ok c" "config_weights_positive c" "http_servers c = servers" "upstreams c = balancer_groups b"
    using assms(1) by (auto simp: config_known_def)
  obtain l where l: "l \<in> set (locations s)" "loc_action l = Proxy u g es p"
    using route_in_locations[OF assms(3)] by blast
  from select_configured[OF c(1,2) _ l c(4)[symmetric]] assms(2) c(3) l(2) show ?thesis by fastforce
qed

section \<open>Generations\<close>

definition resized :: "'a::zero list \<Rightarrow> nat \<Rightarrow> 'a list" where
  "resized gs slot = (if length gs \<le> slot then gs @ replicate (slot + 1 - length gs) 0 else gs)"

lemma resized_facts:
  "slot < length (resized gs slot)" "i < length gs \<Longrightarrow> resized gs slot ! i = gs ! i"
  "set (resized gs slot) \<subseteq> insert 0 (set gs)"  "length gs \<le> length (resized gs slot)"
  by (auto simp: resized_def nth_append)

end
