(* ===== verification/Readiness_Worker.thy ===== *)
theory Readiness_Worker
  imports Readiness_Connection Worker_Common
begin

text \<open>
  The event loop of the readiness runtime, \<open>runtime/readiness/worker.rs\<close>, as operations on the state
  of a worker. Every method of \<open>ReadinessWorker\<close> is one definition of the same name; \<open>self\<close> is the
  state, \<open>?\<close> is \<open>bindq\<close>, and indexing a vacant slot, a slice out of bounds and a failed \<open>unwrap\<close> are
  panics.

  What lies outside the program is a record \<open>sys\<close> of functions on a world of type \<open>'w\<close>: the kernel
  (sockets, poller, clock), rustls (sessions of type \<open>'t\<close>), the order in which a \<open>HashSet\<close> is drained,
  the key the slab hands out, and how far the resolver and file threads have run. Messages on the standard streams and the closing
  of dropped descriptors are not represented.
\<close>

section \<open>The outside of a worker\<close>

record interest =
  in_readable :: bool
  in_writable :: bool

definition READABLE :: interest where "READABLE = \<lparr>in_readable = True, in_writable = False\<rparr>"
definition WRITABLE :: interest where "WRITABLE = \<lparr>in_readable = False, in_writable = True\<rparr>"
definition READABLE_WRITABLE :: interest where
  "READABLE_WRITABLE = \<lparr>in_readable = True, in_writable = True\<rparr>"

record ready_event =
  ev_token :: usize
  ev_readable :: bool
  ev_writable :: bool
  ev_error :: bool
  ev_read_closed :: bool
  ev_write_closed :: bool

text \<open>
  A read returns the bytes it put into the buffer, a write their number. \<open>k_bound\<close> bounds the accepted
  connections and interrupted calls that are still to come: it serves as the fuel of the two loops
  of the code that have no bound of their own.
\<close>

record ('w, 'sc, 't) sys =
  k_poll_new :: "'w \<Rightarrow> (io_error + unit) \<times> 'w"
  k_waker_new :: "'w \<Rightarrow> (io_error + unit) \<times> 'w"
  k_install_waker :: "'w \<Rightarrow> 'w"
  k_spawn :: "nat \<Rightarrow> io_error + unit"
  k_now :: "'w \<Rightarrow> instant \<times> 'w"
  k_is_requested :: "'w \<Rightarrow> bool \<times> 'w"
  k_poll :: "nat \<Rightarrow> nat \<Rightarrow> 'w \<Rightarrow> (io_error + ready_event list) \<times> 'w"
  k_accept :: "socket \<Rightarrow> 'w \<Rightarrow> (io_error + socket) \<times> 'w"
  k_connect :: "socket_addr \<Rightarrow> 'w \<Rightarrow> (io_error + socket) \<times> 'w"
  k_register :: "socket \<Rightarrow> usize \<Rightarrow> interest \<Rightarrow> 'w \<Rightarrow> (io_error + unit) \<times> 'w"
  k_reregister :: "socket \<Rightarrow> usize \<Rightarrow> interest \<Rightarrow> 'w \<Rightarrow> (io_error + unit) \<times> 'w"
  k_deregister :: "socket \<Rightarrow> 'w \<Rightarrow> (io_error + unit) \<times> 'w"
  k_read :: "socket \<Rightarrow> nat \<Rightarrow> 'w \<Rightarrow> (io_error + bytes) \<times> 'w"
  k_write :: "socket \<Rightarrow> bytes \<Rightarrow> 'w \<Rightarrow> (io_error + nat) \<times> 'w"
  k_take_error :: "socket \<Rightarrow> 'w \<Rightarrow> (io_error + io_error option) \<times> 'w"
  k_bound :: "'w \<Rightarrow> nat"
  k_vacant_key :: "bool list \<Rightarrow> 'w \<Rightarrow> nat \<times> 'w"
  k_drain_order :: "connection_id set \<Rightarrow> 'w \<Rightarrow> connection_id list \<times> 'w"
  k_threads :: "'w \<Rightarrow> thread_action list \<times> 'w"
  k_producer :: "static_stream \<Rightarrow> 'w \<Rightarrow> static_stream \<times> 'w"
  k_fs :: "'w \<Rightarrow> fs \<times> 'w"
  k_mime :: "bytes \<Rightarrow> mime"
  t_new :: "'sc \<Rightarrow> bytes + 't"
  t_wants_write :: "'t \<Rightarrow> bool"
  t_is_handshaking :: "'t \<Rightarrow> bool"
  t_read_tls :: "'t \<Rightarrow> socket \<Rightarrow> 'w \<Rightarrow> ((io_error + nat) \<times> 't) \<times> 'w"
  t_process_new_packets :: "'t \<Rightarrow> (bytes + unit) \<times> 't"
  t_reader_read :: "'t \<Rightarrow> nat \<Rightarrow> (io_error + bytes) \<times> 't"
  t_writer_write :: "'t \<Rightarrow> bytes \<Rightarrow> (io_error + nat) \<times> 't"
  t_write_tls :: "'t \<Rightarrow> socket \<Rightarrow> 'w \<Rightarrow> ((io_error + nat) \<times> 't) \<times> 'w"
  t_send_close_notify :: "'t \<Rightarrow> 't"

section \<open>The state of a worker\<close>

definition MAX_READS_PER_EVENT :: nat where "MAX_READS_PER_EVENT = 16"
definition MAX_WRITES_PER_EVENT :: nat where "MAX_WRITES_PER_EVENT = 16"
definition READ_BUFFER_SIZE :: nat where "READ_BUFFER_SIZE = 8 * 1024"

record 'sc registered_listener =
  rl_socket :: socket
  rl_default_server :: nat
  rl_server_indices :: "nat list"
  rl_ssl :: "'sc loaded_ssl_config option"

record ('w, 'sc, 't) readiness_worker =
  rw_listeners :: "'sc registered_listener list"
  rw_connections :: "'t connection option list"
  rw_generations :: "usize list"
  rw_pending_writes :: "connection_id set"
  rw_pending_upstream_writes :: "connection_id set"
  rw_pending_upstream_reads :: "connection_id set"
  rw_servers :: "server list"
  rw_limits :: worker_limits
  rw_proxy_limits :: proxy_limits
  rw_dns_limits :: dns_limits
  rw_resolver :: "connection_id dns_resolver"
  rw_metrics :: worker_metrics
  rw_balancer :: upstream_balancer
  rw_draining :: bool
  rw_drain_started_at :: "instant option"
  rw_world :: 'w

type_synonym ('w, 'sc, 't, 'a) wop = "(io_error, ('w, 'sc, 't) readiness_worker, 'a) op"

text \<open>Calls of the outside, and accesses \<open>self.connections[slot]\<close>, which panic on a vacant slot.\<close>

definition syscall :: "('w \<Rightarrow> 'a \<times> 'w) \<Rightarrow> ('w, 'sc, 't, 'a) wop" where
  "syscall f s = (let (r, w) = f (rw_world s) in (Return (Inr r), s\<lparr>rw_world := w\<rparr>))"

definition slot_of :: "connection_id \<Rightarrow> nat" where
  "slot_of c = unat (cid_slot c)"

definition index_conn :: "connection_id \<Rightarrow> ('w, 'sc, 't, 't connection) wop" where
  "index_conn i s = (case slab_get (rw_connections s) (slot_of i) of
     Some c \<Rightarrow> (Return (Inr c), s) | None \<Rightarrow> (Panic, s))"

definition update_conn :: "connection_id \<Rightarrow> ('t connection \<Rightarrow> 't connection) \<Rightarrow> ('w, 'sc, 't, unit) wop" where
  "update_conn i g s = (case slab_get (rw_connections s) (slot_of i) of
     Some c \<Rightarrow> (Return (Inr ()), s\<lparr>rw_connections := (rw_connections s)[slot_of i := Some (g c)]\<rparr>)
   | None \<Rightarrow> (Panic, s))"

definition metric :: "(worker_metrics \<Rightarrow> worker_metrics) \<Rightarrow> ('w, 'sc, 't, unit) wop" where
  "metric g = modify (\<lambda>s. s\<lparr>rw_metrics := g (rw_metrics s)\<rparr>)"

definition current :: "('w, 'sc, 't) readiness_worker \<Rightarrow> connection_id \<Rightarrow> 't connection option" where
  "current s i = (case slab_get (rw_connections s) (slot_of i) of
     Some c \<Rightarrow> if cn_generation c = cid_generation i then Some c else None
   | None \<Rightarrow> None)"

definition is_current :: "('w, 'sc, 't) readiness_worker \<Rightarrow> connection_id \<Rightarrow> bool" where
  "is_current s i = (case slab_get (rw_connections s) (slot_of i) of
     Some c \<Rightarrow> cn_generation c = cid_generation i | None \<Rightarrow> False)"

text \<open>\<open>if !self.is_current(id) { return Ok(()) }\<close> and \<open>self.is_current(id) && p(self.connections[slot])\<close>.\<close>

definition if_current :: "connection_id \<Rightarrow> ('w, 'sc, 't, unit) wop \<Rightarrow> ('w, 'sc, 't, unit) wop" where
  "if_current i m = bindq (gets (\<lambda>s. is_current s i)) (\<lambda>cur. if cur then m else ok ())"

definition current_with ::
  "('w, 'sc, 't) readiness_worker \<Rightarrow> connection_id \<Rightarrow> ('t connection \<Rightarrow> bool) \<Rightarrow> bool" where
  "current_with s i p = (case current s i of Some c \<Rightarrow> p c | None \<Rightarrow> False)"

definition connection_ids ::
  "(nat \<Rightarrow> 't connection \<Rightarrow> bool) \<Rightarrow> ('w, 'sc, 't) readiness_worker \<Rightarrow> connection_id list" where
  "connection_ids p s = map (\<lambda>(slot, c). \<lparr>cid_slot = of_nat slot, cid_generation = cn_generation c\<rparr>)
     (filter (\<lambda>(slot, c). p slot c) (slab_iter (rw_connections s)))"

section \<open>Removing connections and queueing responses\<close>

definition log_socket_error :: "('w, 'sc, 't) sys \<Rightarrow> connection_id \<Rightarrow> bool \<Rightarrow> ('w, 'sc, 't, unit) wop" where
  "log_socket_error sys i error_event =
     bindq (gets (\<lambda>s. is_current s i)) (\<lambda>cur.
       if \<not> error_event \<or> \<not> cur then ok ()
       else bindq (metric metric_error) (\<lambda>_.
         bindq (index_conn i) (\<lambda>c.
         bindq (syscall (k_take_error sys (cn_socket c))) (\<lambda>_. ok ()))))"

definition remove_connection :: "('w, 'sc, 't) sys \<Rightarrow> connection_id \<Rightarrow> ('w, 'sc, 't, unit) wop" where
  "remove_connection sys i = if_current i (
     bindq (modify (\<lambda>s. s\<lparr>rw_pending_writes := rw_pending_writes s - {i},
       rw_pending_upstream_reads := rw_pending_upstream_reads s - {i},
       rw_pending_upstream_writes := rw_pending_upstream_writes s - {i}\<rparr>)) (\<lambda>_.
     bindq (index_conn i) (\<lambda>c.
     bindq (modify (\<lambda>s. s\<lparr>rw_connections := (rw_connections s)[slot_of i := None]\<rparr>)) (\<lambda>_.
       let (detached, c') = detach_proxy c in
       bindq (case detached of
           Some x \<Rightarrow> if px_upstream_eof x then ok ()
             else bindq (syscall (k_deregister sys (px_upstream x))) (\<lambda>_. ok ())
         | None \<Rightarrow> ok ()) (\<lambda>_.
       bindq (syscall (k_deregister sys (cn_socket c'))) (\<lambda>_. ok ()))))))"

definition reregister_client ::
  "('w, 'sc, 't) sys \<Rightarrow> connection_id \<Rightarrow> interest \<Rightarrow> ('w, 'sc, 't, unit) wop" where
  "reregister_client sys i interests =
     bindq (index_conn i) (\<lambda>c.
     bindq (of_result (token i Client)) (\<lambda>t.
     bindq (syscall (k_reregister sys (cn_socket c) t interests)) (\<lambda>r.
       case r of Inl _ \<Rightarrow> remove_connection sys i | Inr _ \<Rightarrow> ok ())))"

text \<open>The registration of \<open>queue_response\<close> is the code of \<open>reregister_client\<close> with another message.\<close>

definition queue_response :: "('w, 'sc, 't) sys \<Rightarrow> connection_id \<Rightarrow> bytes \<Rightarrow> ('w, 'sc, 't, unit) wop" where
  "queue_response sys i response0 = if_current i (
     bindq (gets rw_limits) (\<lambda>limits.
       let response = (if length response0 > unat (wl_max_write_buffer_size limits)
             then response_bytes 500 ''response is too large'' else response0) in
     bindq (update_conn i (\<lambda>c. (begin_response c)\<lparr>cn_write_buffer := response, cn_write_offset := 0\<rparr>)) (\<lambda>_.
     reregister_client sys i WRITABLE)))"

definition queue_static_response ::
  "('w, 'sc, 't) sys \<Rightarrow> connection_id \<Rightarrow> static_stream_response \<Rightarrow> ('w, 'sc, 't, unit) wop" where
  "queue_static_response sys i response = if_current i (
     bindq (update_conn i (\<lambda>c. c\<lparr>cn_static_stream := ssr_stream response\<rparr>)) (\<lambda>_.
     queue_response sys i (ssr_head response)))"

definition close_client :: "('w, 'sc, 't) sys \<Rightarrow> connection_id \<Rightarrow> ('w, 'sc, 't, unit) wop" where
  "close_client sys i = if_current i (
     bindq (index_conn i) (\<lambda>c.
       case cn_ssl c of
         Some session \<Rightarrow>
           if \<not> cn_ssl_closing c
           then bindq (update_conn i (\<lambda>c. c\<lparr>cn_ssl := Some (session\<lparr>sl_connection :=
                  t_send_close_notify sys (sl_connection session)\<rparr>), cn_ssl_closing := True\<rparr>)) (\<lambda>_.
                reregister_client sys i WRITABLE)
           else remove_connection sys i
       | None \<Rightarrow> remove_connection sys i))"

text \<open>The registry call of \<open>advance_static_stream\<close>, whose error is passed on with \<open>?\<close>.\<close>

definition reregister_or_fail ::
  "('w, 'sc, 't) sys \<Rightarrow> connection_id \<Rightarrow> interest \<Rightarrow> ('w, 'sc, 't, unit) wop" where
  "reregister_or_fail sys i interests =
     bindq (index_conn i) (\<lambda>c.
     bindq (of_result (token i Client)) (\<lambda>t.
     bindq (syscall (k_reregister sys (cn_socket c) t interests)) of_result))"

definition advance_static_stream :: "('w, 'sc, 't) sys \<Rightarrow> connection_id \<Rightarrow> ('w, 'sc, 't, unit) wop" where
  "advance_static_stream sys i = if_current i (
     bindq (index_conn i) (\<lambda>c.
       case cn_static_stream c of
         None \<Rightarrow> panic
       | Some stream \<Rightarrow>
           bindq (syscall (k_producer sys stream)) (\<lambda>stream.
             let (chunk, stream') = try_next stream in
             bindq (update_conn i (\<lambda>c. c\<lparr>cn_static_stream := Some stream'\<rparr>)) (\<lambda>_.
               case chunk of
                 Inr (Data bs) \<Rightarrow>
                   bindq (update_conn i (\<lambda>c. c\<lparr>cn_write_buffer := bs, cn_write_offset := 0\<rparr>)) (\<lambda>_.
                   reregister_or_fail sys i WRITABLE)
               | Inr Pending \<Rightarrow> reregister_or_fail sys i READABLE
               | Inr Finished \<Rightarrow> bindq (metric metric_response) (\<lambda>_. remove_connection sys i)
               | Inl _ \<Rightarrow> bindq (metric metric_error) (\<lambda>_. remove_connection sys i)))))"

definition pump_static_streams :: "('w, 'sc, 't) sys \<Rightarrow> ('w, 'sc, 't, unit) wop" where
  "pump_static_streams sys =
     bindq (gets (connection_ids (\<lambda>slot c. cn_static_stream c \<noteq> None
        \<and> cn_write_offset c = length (cn_write_buffer c)))) (for_each (advance_static_stream sys))"

section \<open>The upstream side\<close>

definition fail_proxy ::
  "('w, 'sc, 't) sys \<Rightarrow> connection_id \<Rightarrow> u16 \<Rightarrow> bytes \<Rightarrow> ('w, 'sc, 't, unit) wop" where
  "fail_proxy sys i status message = if_current i (
     bindq (index_conn i) (\<lambda>c.
       let can_send_error = (case proxy_of c of Some x \<Rightarrow> \<not> px_response_started x | None \<Rightarrow> False)
             \<and> cn_write_buffer c = [];
           (detached, c') = detach_proxy c in
       bindq (update_conn i (\<lambda>_. c')) (\<lambda>_.
       bindq (case detached of
           Some x \<Rightarrow> bindq (syscall (k_take_error sys (px_upstream x))) (\<lambda>_.
             bindq (syscall (k_deregister sys (px_upstream x))) (\<lambda>_. ok ()))
         | None \<Rightarrow> ok ()) (\<lambda>_.
       bindq (modify (\<lambda>s. s\<lparr>rw_pending_upstream_reads := rw_pending_upstream_reads s - {i},
         rw_pending_upstream_writes := rw_pending_upstream_writes s - {i}\<rparr>)) (\<lambda>_.
         if can_send_error then queue_response sys i (response_bytes status message)
         else remove_connection sys i)))))"

definition mark_upstream_eof :: "('w, 'sc, 't) sys \<Rightarrow> connection_id \<Rightarrow> ('w, 'sc, 't, unit) wop" where
  "mark_upstream_eof sys i = if_current i (
     bindq (index_conn i) (\<lambda>c.
     bindq (case proxy_of c of
         Some x \<Rightarrow> bindq (update_conn i (update_proxy (\<lambda>x. x\<lparr>px_upstream_eof := True\<rparr>))) (\<lambda>_.
           bindq (syscall (k_deregister sys (px_upstream x))) (\<lambda>_. ok ()))
       | None \<Rightarrow> ok ()) (\<lambda>_.
     bindq (index_conn i) (\<lambda>c.
       if cn_write_buffer c = [] then remove_connection sys i else ok ()))))"

text \<open>Reading again while the call is interrupted.\<close>

fun read_uninterrupted ::
  "('w, 'sc, 't) sys \<Rightarrow> nat \<Rightarrow> socket \<Rightarrow> nat \<Rightarrow> ('w, 'sc, 't, io_error + bytes) wop" where
  "read_uninterrupted sys 0 fd n = panic"
| "read_uninterrupted sys (Suc fuel) fd n =
     bindq (syscall (k_read sys fd n)) (\<lambda>r. case r of
       Inl e \<Rightarrow> if kind e = KInterrupted then read_uninterrupted sys fuel fd n else ok r
     | Inr _ \<Rightarrow> ok r)"

text \<open>The match on the result of the read.\<close>

definition after_upstream_read ::
  "('w, 'sc, 't) sys \<Rightarrow> connection_id \<Rightarrow> io_error + bytes \<Rightarrow> ('w, 'sc, 't, unit) wop" where
  "after_upstream_read sys i r = (case r of
       Inr [] \<Rightarrow> mark_upstream_eof sys i
     | Inr bs \<Rightarrow>
         bindq (metric (metric_read_bytes (length bs))) (\<lambda>_.
         bindq (syscall (k_now sys)) (\<lambda>now.
         bindq (update_conn i (update_proxy (\<lambda>x. record_progress now (x\<lparr>px_response_started := True\<rparr>)))) (\<lambda>_.
         bindq (syscall (k_now sys)) (\<lambda>now.
         bindq (update_conn i (\<lambda>c. c\<lparr>cn_write_buffer := cn_write_buffer c @ bs, cn_write_offset := 0,
           cn_last_progress := now\<rparr>)) (\<lambda>_.
         reregister_client sys i WRITABLE)))))
     | Inl e \<Rightarrow>
         if kind e = KWouldBlock then ok ()
         else fail_proxy sys i 502 ''upstream response failed'')"

definition read_upstream_response :: "('w, 'sc, 't) sys \<Rightarrow> connection_id \<Rightarrow> ('w, 'sc, 't, unit) wop" where
  "read_upstream_response sys i =
     bindq (gets (\<lambda>s. \<not> is_current s i
       \<or> current_with s i (\<lambda>c. \<not> is_proxying c)
       \<or> current_with s i (\<lambda>c. cn_write_buffer c \<noteq> [])
       \<or> current_with s i (\<lambda>c. case proxy_of c of Some x \<Rightarrow> px_phase x \<noteq> ReadingResponse | None \<Rightarrow> False)))
     (\<lambda>skip. if skip then ok () else
     bindq (gets rw_limits) (\<lambda>limits.
     bindq (index_conn i) (\<lambda>c. case proxy_of c of None \<Rightarrow> panic | Some x \<Rightarrow>
     bindq (gets (\<lambda>s. k_bound sys (rw_world s))) (\<lambda>bound.
     bindq (read_uninterrupted sys (Suc bound) (px_upstream x)
         (min READ_BUFFER_SIZE (unat (wl_max_write_buffer_size limits))))
     (after_upstream_read sys i)))))"

text \<open>
  The loop that sends the request upstream: it returns from the method when the socket blocks, and
  otherwise leaves with the values of \<open>failed\<close>, \<open>finished\<close> and \<open>made_progress\<close>.
\<close>

datatype upstream_write = UpstreamBlocked | UpstreamStopped "io_error option" bool bool

fun upstream_write_loop ::
  "('w, 'sc, 't) sys \<Rightarrow> connection_id \<Rightarrow> nat \<Rightarrow> bool \<Rightarrow> ('w, 'sc, 't, upstream_write) wop" where
  "upstream_write_loop sys i 0 progress = ok (UpstreamStopped None False progress)"
| "upstream_write_loop sys i (Suc n) progress =
     bindq (index_conn i) (\<lambda>c. case proxy_of c of None \<Rightarrow> panic | Some x \<Rightarrow>
       if px_request_offset x = length (px_request_buffer x) then ok (UpstreamStopped None True progress)
       else if px_request_offset x > length (px_request_buffer x) then panic
       else bindq (syscall (k_write sys (px_upstream x) (drop (px_request_offset x) (px_request_buffer x)))) (\<lambda>r.
         case r of
           Inr written \<Rightarrow>
             if written = 0
             then ok (UpstreamStopped (Some (Custom KWriteZero ''upstream write returned zero'')) False progress)
             else bindq (syscall (k_now sys)) (\<lambda>now.
               bindq (update_conn i (update_proxy (\<lambda>x. record_progress now
                 (x\<lparr>px_request_offset := px_request_offset x + written\<rparr>)))) (\<lambda>_.
               upstream_write_loop sys i n True))
         | Inl e \<Rightarrow>
             if kind e = KWouldBlock then ok UpstreamBlocked
             else if kind e = KInterrupted then upstream_write_loop sys i n progress
             else ok (UpstreamStopped (Some e) False progress)))"

text \<open>The end of a non-blocking connect: \<open>take_error()?\<close>, then the transition.\<close>

definition finish_connect ::
  "('w, 'sc, 't) sys \<Rightarrow> connection_id \<Rightarrow> ('w, 'sc, 't, io_error option) wop" where
  "finish_connect sys i =
     bindq (index_conn i) (\<lambda>c. case proxy_of c of None \<Rightarrow> panic | Some x \<Rightarrow>
       if px_phase x = Connecting
       then bindq (syscall (k_take_error sys (px_upstream x))) (\<lambda>r.
            bindq (of_result r) (\<lambda>e. case e of
              Some error \<Rightarrow> ok (Some error)
            | None \<Rightarrow> bindq (syscall (k_now sys)) (\<lambda>now.
                bindq (update_conn i (update_proxy (transition now WritingRequest))) (\<lambda>_. ok None))))
       else ok None)"

text \<open>The transition to reading the response.\<close>

definition await_response :: "('w, 'sc, 't) sys \<Rightarrow> connection_id \<Rightarrow> ('w, 'sc, 't, unit) wop" where
  "await_response sys i =
     bindq (index_conn i) (\<lambda>c. case proxy_of c of None \<Rightarrow> panic | Some x \<Rightarrow>
     bindq (syscall (k_now sys)) (\<lambda>now.
     bindq (update_conn i (update_proxy (transition now ReadingResponse))) (\<lambda>_.
     bindq (of_result (token i Upstream)) (\<lambda>t.
     bindq (syscall (k_reregister sys (px_upstream x) t READABLE)) (\<lambda>r. case r of
       Inl _ \<Rightarrow> fail_proxy sys i 502 ''upstream connection failed''
     | Inr _ \<Rightarrow> ok ())))))"

text \<open>What follows the loop: \<open>finished |= request_offset == request_buffer.len()\<close> and the three ends.\<close>

definition after_upstream_write ::
  "('w, 'sc, 't) sys \<Rightarrow> connection_id \<Rightarrow> io_error option \<Rightarrow> bool \<Rightarrow> bool \<Rightarrow> ('w, 'sc, 't, unit) wop" where
  "after_upstream_write sys i failed finished progress =
     bindq (if progress then if_current i (bindq (syscall (k_now sys)) (\<lambda>now.
         update_conn i (\<lambda>c. c\<lparr>cn_last_progress := now\<rparr>))) else ok ()) (\<lambda>_.
       case failed of
         Some _ \<Rightarrow> fail_proxy sys i 502 ''upstream connection failed''
       | None \<Rightarrow>
           if finished then await_response sys i
           else modify (\<lambda>s. s\<lparr>rw_pending_upstream_writes := insert i (rw_pending_upstream_writes s)\<rparr>))"

definition send_upstream ::
  "('w, 'sc, 't) sys \<Rightarrow> connection_id \<Rightarrow> io_error option \<Rightarrow> ('w, 'sc, 't, unit) wop" where
  "send_upstream sys i failed =
     bindq (index_conn i) (\<lambda>c. case proxy_of c of None \<Rightarrow> panic | Some x \<Rightarrow>
       if failed = None \<and> px_phase x = WritingRequest
       then bindq (upstream_write_loop sys i MAX_WRITES_PER_EVENT False) (\<lambda>w. case w of
              UpstreamBlocked \<Rightarrow> ok ()
            | UpstreamStopped failed finished progress \<Rightarrow>
                bindq (index_conn i) (\<lambda>c. case proxy_of c of None \<Rightarrow> panic | Some x \<Rightarrow>
                after_upstream_write sys i failed
                  (finished \<or> px_request_offset x = length (px_request_buffer x)) progress))
       else after_upstream_write sys i failed False False)"

definition write_upstream_request :: "('w, 'sc, 't) sys \<Rightarrow> connection_id \<Rightarrow> ('w, 'sc, 't, unit) wop" where
  "write_upstream_request sys i =
     bindq (gets (\<lambda>s. current_with s i is_proxying)) (\<lambda>live. if \<not> live then ok () else
     bindq (index_conn i) (\<lambda>c.
       if (case proxy_of c of Some x \<Rightarrow> px_phase x = ReadingResponse | None \<Rightarrow> False) then ok () else
     bindq (finish_connect sys i) (send_upstream sys i)))"

section \<open>Resolution\<close>

definition start_proxy ::
  "('w, 'sc, 't) sys \<Rightarrow> connection_id \<Rightarrow> bytes \<Rightarrow> request_head \<Rightarrow> bytes \<Rightarrow> ('w, 'sc, 't, unit) wop" where
  "start_proxy sys i upstream_url request body =
     (case parse upstream_url of
        Inl e \<Rightarrow> err (Custom KInvalidInput (upstream_error_fmt e))
      | Inr upstream \<Rightarrow>
          let request_buffer = request_bytes upstream request body in
          bindq (gets rw_limits) (\<lambda>limits.
            if length request_buffer > unat (wl_max_read_buffer_size limits)
            then err (Custom KInvalidData ''upstream request exceeds the configured read-buffer limit'')
            else
              bindq (syscall (k_now sys)) (\<lambda>now.
              bindq (update_conn i (begin_resolving now request_buffer)) (\<lambda>_.
              bindq (gets (\<lambda>s. resolve i (connect_address upstream) (rw_resolver s))) (\<lambda>(r, resolver).
              bindq (modify (\<lambda>s. s\<lparr>rw_resolver := resolver\<rparr>)) (\<lambda>_. of_result r))))))"

definition fail_resolution ::
  "('w, 'sc, 't) sys \<Rightarrow> connection_id \<Rightarrow> u16 \<Rightarrow> bytes \<Rightarrow> ('w, 'sc, 't, unit) wop" where
  "fail_resolution sys i status message =
     bindq (gets (\<lambda>s. current_with s i is_resolving)) (\<lambda>live. if \<not> live then ok ()
       else queue_response sys i (response_bytes status message))"

text \<open>Connecting to the first address; the token is computed before the registration.\<close>

definition connect_upstream ::
  "('w, 'sc, 't) sys \<Rightarrow> connection_id \<Rightarrow> socket_addr \<Rightarrow> bytes \<Rightarrow> ('w, 'sc, 't, unit) wop" where
  "connect_upstream sys i address request_buffer =
     bindq (syscall (k_connect sys address)) (\<lambda>r. case r of
       Inl _ \<Rightarrow> queue_response sys i (response_bytes 502 ''upstream connection failed'')
     | Inr socket \<Rightarrow>
         bindq (of_result (token i Upstream)) (\<lambda>t.
         bindq (syscall (k_register sys socket t READABLE_WRITABLE)) (\<lambda>r. case r of
           Inl _ \<Rightarrow> queue_response sys i (response_bytes 502 ''upstream connection failed'')
         | Inr _ \<Rightarrow>
             bindq (syscall (k_now sys)) (\<lambda>now.
             update_conn i (begin_proxy (proxy_state_new now socket request_buffer))))))"

definition finish_resolution :: "('w, 'sc, 't) sys \<Rightarrow> connection_id resolve_result \<Rightarrow> ('w, 'sc, 't, unit) wop" where
  "finish_resolution sys result =
     (let i = rr_connection_id result in
      bindq (gets (\<lambda>s. current_with s i is_resolving)) (\<lambda>live. if \<not> live then ok () else
      (case rr_addresses result of
         Inl _ \<Rightarrow> fail_resolution sys i 502 ''upstream DNS resolution failed''
       | Inr [] \<Rightarrow> fail_resolution sys i 502 ''upstream has no address''
       | Inr (address # _) \<Rightarrow>
           bindq (index_conn i) (\<lambda>c. case take_resolution c of
             (None, _) \<Rightarrow> ok ()
           | (Some resolving, c') \<Rightarrow>
               bindq (update_conn i (\<lambda>_. c')) (\<lambda>_.
               connect_upstream sys i address (rs_request_buffer resolving))))))"

definition process_dns_results :: "('w, 'sc, 't) sys \<Rightarrow> ('w, 'sc, 't, unit) wop" where
  "process_dns_results sys =
     bindq (syscall (k_threads sys)) (\<lambda>actions.
     bindq (gets (\<lambda>s. drain (run_threads actions (rw_resolver s)))) (\<lambda>(results, resolver).
     bindq (modify (\<lambda>s. s\<lparr>rw_resolver := resolver\<rparr>)) (\<lambda>_.
     for_each (finish_resolution sys) results)))"

section \<open>Writing to the client\<close>

definition set_session :: "connection_id \<Rightarrow> 't \<Rightarrow> ('w, 'sc, 't, unit) wop" where
  "set_session i t = update_conn i (\<lambda>c. c\<lparr>cn_ssl := map_option (\<lambda>session. session\<lparr>sl_connection := t\<rparr>) (cn_ssl c)\<rparr>)"

definition done_writing :: "('w, 'sc, 't) sys \<Rightarrow> 't connection \<Rightarrow> bool" where
  "done_writing sys c \<longleftrightarrow> cn_write_offset c = length (cn_write_buffer c)
     \<and> \<not> ssl_wants_write (t_wants_write sys) c"

text \<open>One write: of application bytes into the session or the socket, or of TLS records.\<close>

definition write_some ::
  "('w, 'sc, 't) sys \<Rightarrow> connection_id \<Rightarrow> 't connection \<Rightarrow> bool \<Rightarrow> ('w, 'sc, 't, io_error + nat) wop" where
  "write_some sys i c writing_application =
     (let rest = drop (cn_write_offset c) (cn_write_buffer c);
          out_of_bounds = cn_write_offset c > length (cn_write_buffer c) in
      case cn_ssl c of
        Some session \<Rightarrow>
          if writing_application
          then (let (r, t) = t_writer_write sys (sl_connection session) rest
                in bindq (set_session i t) (\<lambda>_. ok r))
          else bindq (syscall (t_write_tls sys (sl_connection session) (cn_socket c))) (\<lambda>(r, t).
               bindq (set_session i t) (\<lambda>_. ok r))
      | None \<Rightarrow> if out_of_bounds then panic else syscall (k_write sys (cn_socket c) rest))"

text \<open>The loop leaves the method when the socket blocks, and otherwise with the value of \<open>write_failed\<close>.\<close>

datatype client_write = ClientBlocked | ClientStopped bool

fun write_loop :: "('w, 'sc, 't) sys \<Rightarrow> connection_id \<Rightarrow> nat \<Rightarrow> ('w, 'sc, 't, client_write) wop" where
  "write_loop sys i 0 = ok (ClientStopped False)"
| "write_loop sys i (Suc n) =
     bindq (index_conn i) (\<lambda>c.
       if cn_write_offset c = length (cn_write_buffer c)
          \<and> (cn_ssl c = None \<or> \<not> ssl_wants_write (t_wants_write sys) c)
       then ok (ClientStopped False)
       else
         let writing_application = cn_write_offset c < length (cn_write_buffer c) in
         bindq (write_some sys i c writing_application) (\<lambda>r. case r of
           Inr written \<Rightarrow>
             if written = 0 then ok (ClientStopped True)
             else bindq (metric (metric_wrote_bytes written)) (\<lambda>_.
               bindq (update_conn i (\<lambda>c. if writing_application
                 then c\<lparr>cn_write_offset := cn_write_offset c + written\<rparr> else c)) (\<lambda>_.
               bindq (syscall (k_now sys)) (\<lambda>now.
               bindq (update_conn i (\<lambda>c. c\<lparr>cn_last_progress := now\<rparr>)) (\<lambda>_.
               bindq (index_conn i) (\<lambda>c.
                 if done_writing sys c then ok (ClientStopped False) else write_loop sys i n)))))
         | Inl e \<Rightarrow>
             if kind e = KWouldBlock then ok ClientBlocked
             else if kind e = KInterrupted then write_loop sys i n
             else ok (ClientStopped True)))"

text \<open>The end of a response: the next chunk of a file, more of the upstream's response, or the close.\<close>

definition response_written :: "('w, 'sc, 't) sys \<Rightarrow> connection_id \<Rightarrow> ('w, 'sc, 't, unit) wop" where
  "response_written sys i =
     bindq (index_conn i) (\<lambda>c.
       if cn_static_stream c \<noteq> None then advance_static_stream sys i
       else
         bindq (metric metric_response) (\<lambda>_.
         bindq (gets rw_draining) (\<lambda>draining.
           case map_option px_upstream_eof (proxy_of c) of
             None \<Rightarrow> close_client sys i
           | Some eof \<Rightarrow>
               if draining \<or> eof then close_client sys i
               else
                 bindq (update_conn i (\<lambda>c. c\<lparr>cn_write_buffer := [], cn_write_offset := 0\<rparr>)) (\<lambda>_.
                 bindq (reregister_client sys i READABLE) (\<lambda>_.
                 modify (\<lambda>s. s\<lparr>rw_pending_upstream_reads := insert i (rw_pending_upstream_reads s)\<rparr>))))))"

definition after_write :: "('w, 'sc, 't) sys \<Rightarrow> connection_id \<Rightarrow> bool \<Rightarrow> ('w, 'sc, 't, unit) wop" where
  "after_write sys i write_failed =
     bindq (gets id) (\<lambda>s.
       let write_finished = current_with s i (done_writing sys) in
       if write_failed then remove_connection sys i
       else if write_finished \<and> current_with s i (\<lambda>c. is_writing_response c \<or> is_proxying c)
       then response_written sys i
       else if write_finished \<and> is_current s i then reregister_client sys i READABLE
       else if current_with s i is_writing_response
       then modify (\<lambda>s. s\<lparr>rw_pending_writes := insert i (rw_pending_writes s)\<rparr>)
       else ok ())"

definition write_ready :: "('w, 'sc, 't) sys \<Rightarrow> connection_id \<Rightarrow> ('w, 'sc, 't, unit) wop" where
  "write_ready sys i = if_current i (
     bindq (index_conn i) (\<lambda>c.
       if cn_write_offset c = length (cn_write_buffer c) \<and> cn_ssl c \<noteq> None
          \<and> \<not> ssl_wants_write (t_wants_write sys) c
       then reregister_client sys i READABLE
       else bindq (write_loop sys i MAX_WRITES_PER_EVENT) (\<lambda>w. case w of
           ClientBlocked \<Rightarrow> ok ()
         | ClientStopped write_failed \<Rightarrow> after_write sys i write_failed)))"

section \<open>Reading from the client\<close>

text \<open>One read, through the session when there is one.\<close>

definition read_some :: "('w, 'sc, 't) sys \<Rightarrow> connection_id \<Rightarrow> ('w, 'sc, 't, io_error + bytes) wop" where
  "read_some sys i =
     bindq (index_conn i) (\<lambda>c. case cn_ssl c of
       None \<Rightarrow> syscall (k_read sys (cn_socket c) READ_BUFFER_SIZE)
     | Some session \<Rightarrow>
         bindq (syscall (t_read_tls sys (sl_connection session) (cn_socket c))) (\<lambda>(r, t).
           case r of
             Inl e \<Rightarrow> bindq (set_session i t) (\<lambda>_. ok (Inl e))
           | Inr n \<Rightarrow>
               if n = 0 then bindq (set_session i t) (\<lambda>_. ok (Inr []))
               else (case t_process_new_packets sys t of
                 (Inl e, t) \<Rightarrow> bindq (set_session i t) (\<lambda>_.
                   ok (Inl (Custom KInvalidData (''SSL handshake failed: '' @ e))))
               | (Inr _, t) \<Rightarrow>
                   let (r, t) = t_reader_read sys t READ_BUFFER_SIZE
                   in bindq (set_session i t) (\<lambda>_. ok r))))"

text \<open>
  How the read loop ends: nothing more to do, the peer is gone, the request is refused, or it is
  complete (its head, its body and the listener group). Each \<open>break\<close> of the code sets the variables of
  exactly one of these.
\<close>

datatype read_end =
    Drained
  | PeerClosed
  | Refused u16 bytes
  | Received request_head bytes nat

text \<open>Recognising the head of the request; a result refuses the request.\<close>

definition accept_head :: "connection_id \<Rightarrow> ('w, 'sc, 't, read_end option) wop" where
  "accept_head i =
     bindq (gets rw_limits) (\<lambda>limits.
     bindq (index_conn i) (\<lambda>c.
       if pending_request_of c \<noteq> None then ok None
       else (case parse_request_head (cn_read_buffer c) of
         Inl _ \<Rightarrow> ok (Some (Refused 400 ''invalid HTTP request''))
       | Inr Incomplete \<Rightarrow> ok None
       | Inr (Complete request_head consumed) \<Rightarrow>
           (case body_length request_head of
              Inl UnsupportedTransferEncoding \<Rightarrow>
                ok (Some (Refused 501 ''transfer encoding is not supported''))
            | Inl _ \<Rightarrow> ok (Some (Refused 400 ''invalid content length''))
            | Inr body_len \<Rightarrow>
                (case checked_add (of_nat consumed) body_len of
                   None \<Rightarrow> ok (Some (Refused 413 ''request is too large''))
                 | Some body_end \<Rightarrow>
                     if body_end > wl_max_read_buffer_size limits
                     then ok (Some (Refused 413 ''request is too large''))
                     else bindq (update_conn i (set_pending_request \<lparr>pr_head = request_head,
                            pr_body_start = of_nat consumed, pr_body_end = body_end\<rparr>)) (\<lambda>_. ok None))))))"

text \<open>Handing the request over once its body is complete; the slice panics when out of bounds.\<close>

definition take_complete_request :: "connection_id \<Rightarrow> ('w, 'sc, 't, read_end option) wop" where
  "take_complete_request i =
     bindq (index_conn i) (\<lambda>c. case pending_request_of c of
       None \<Rightarrow> ok None
     | Some pending \<Rightarrow>
         if length (cn_read_buffer c) < unat (pr_body_end pending) then ok None
         else if unat (pr_body_start pending) > unat (pr_body_end pending) then panic
         else
           bindq (update_conn i (\<lambda>c. snd (take_pending_request c))) (\<lambda>_.
           bindq (metric metric_request) (\<lambda>_.
           ok (Some (Received (pr_head pending)
             (drop (unat (pr_body_start pending)) (take (unat (pr_body_end pending)) (cn_read_buffer c)))
             (cn_listener_group c))))))"

definition receive_bytes ::
  "('w, 'sc, 't) sys \<Rightarrow> connection_id \<Rightarrow> bytes \<Rightarrow> ('w, 'sc, 't, read_end option) wop" where
  "receive_bytes sys i bs =
     bindq (metric (metric_read_bytes (length bs))) (\<lambda>_.
     bindq (gets rw_limits) (\<lambda>limits.
     bindq (index_conn i) (\<lambda>c.
       if length (cn_read_buffer c) + length bs > unat (wl_max_read_buffer_size limits)
       then ok (Some (Refused 413 ''request is too large''))
       else
         bindq (syscall (k_now sys)) (\<lambda>now.
         bindq (update_conn i (\<lambda>c. c\<lparr>cn_read_buffer := cn_read_buffer c @ bs, cn_last_progress := now\<rparr>)) (\<lambda>_.
         bindq (accept_head i) (\<lambda>refused. case refused of
           Some e \<Rightarrow> ok (Some e)
         | None \<Rightarrow> take_complete_request i))))))"

fun read_loop :: "('w, 'sc, 't) sys \<Rightarrow> connection_id \<Rightarrow> nat \<Rightarrow> ('w, 'sc, 't, read_end) wop" where
  "read_loop sys i 0 = ok Drained"
| "read_loop sys i (Suc n) =
     bindq (read_some sys i) (\<lambda>r. case r of
       Inr [] \<Rightarrow> bindq (index_conn i) (\<lambda>c. ok (if cn_ssl c \<noteq> None then Drained else PeerClosed))
     | Inr bs \<Rightarrow> bindq (receive_bytes sys i bs) (\<lambda>e. case e of
         Some e \<Rightarrow> ok e | None \<Rightarrow> read_loop sys i n)
     | Inl e \<Rightarrow>
         if kind e = KWouldBlock then ok Drained
         else if kind e = KInterrupted then read_loop sys i n
         else ok PeerClosed)"

text \<open>While a request is resolved or proxied the client's bytes are read and dropped.\<close>

fun discard_loop :: "('w, 'sc, 't) sys \<Rightarrow> connection_id \<Rightarrow> nat \<Rightarrow> ('w, 'sc, 't, bool) wop" where
  "discard_loop sys i 0 = ok False"
| "discard_loop sys i (Suc n) =
     bindq (index_conn i) (\<lambda>c.
     bindq (syscall (k_read sys (cn_socket c) READ_BUFFER_SIZE)) (\<lambda>r. case r of
       Inr bs \<Rightarrow>
         if bs = [] then ok True
         else bindq (syscall (k_now sys)) (\<lambda>now.
           bindq (update_conn i (\<lambda>c. c\<lparr>cn_last_progress := now\<rparr>)) (\<lambda>_. discard_loop sys i n))
     | Inl e \<Rightarrow>
         if kind e = KWouldBlock then ok False
         else if kind e = KInterrupted then discard_loop sys i n
         else ok True))"

definition client_during_proxy_ready ::
  "('w, 'sc, 't) sys \<Rightarrow> connection_id \<Rightarrow> ('w, 'sc, 't, unit) wop" where
  "client_during_proxy_ready sys i =
     bindq (index_conn i) (\<lambda>_.
     bindq (discard_loop sys i MAX_READS_PER_EVENT) (\<lambda>close.
       if close then remove_connection sys i else ok ()))"

definition response_for :: "('w, 'sc, 't) readiness_worker \<Rightarrow> nat \<Rightarrow> bytes \<Rightarrow> bytes" where
  "response_for s server_index target = (case get (rw_servers s) server_index of
     None \<Rightarrow> response_bytes 500 ''server configuration is unavailable''
   | Some server \<Rightarrow>
       (case route server target of
          Some (Response status body) \<Rightarrow> response_bytes status body
        | Some (Static _) \<Rightarrow> response_bytes 500 ''static stream was not prepared''
        | Some (Proxy _ _ _ _) \<Rightarrow> response_bytes 501 ''configured action is not implemented''
        | None \<Rightarrow> response_bytes 404 ''not found''))"

definition select_upstream :: "action \<Rightarrow> ('w, 'sc, 't, balance_error + bytes) wop" where
  "select_upstream a s = (case select a (rw_balancer s) of
     (Return r, b) \<Rightarrow> (Return (Inr r), s\<lparr>rw_balancer := b\<rparr>)
   | (Panic, b) \<Rightarrow> (Panic, s\<lparr>rw_balancer := b\<rparr>))"

text \<open>The action of a complete request; a result \<open>False\<close> is the early \<open>return Ok(())\<close>.\<close>

definition perform_action ::
  "('w, 'sc, 't) sys \<Rightarrow> connection_id \<Rightarrow> request_head \<Rightarrow> bytes \<Rightarrow> nat \<Rightarrow> ('w, 'sc, 't, bool) wop" where
  "perform_action sys i request body server_index =
     bindq (gets id) (\<lambda>s. case get (rw_servers s) server_index of
       None \<Rightarrow> bindq (queue_response sys i (response_bytes 500 ''server configuration is unavailable''))
         (\<lambda>_. ok False)
     | Some server \<Rightarrow>
         (case route server (req_target request) of
            Some (Proxy u g es p) \<Rightarrow>
              bindq (select_upstream (Proxy u g es p)) (\<lambda>r. case r of
                Inl _ \<Rightarrow> bindq (queue_response sys i (response_bytes 502 ''upstream configuration failed''))
                  (\<lambda>_. ok False)
              | Inr upstream \<Rightarrow>
                  bindq (attempt (start_proxy sys i upstream request body)) (\<lambda>r. case r of
                    Inl _ \<Rightarrow> bindq (queue_response sys i (response_bytes 502 ''upstream connection failed''))
                      (\<lambda>_. ok True)
                  | Inr _ \<Rightarrow> ok True))
          | Some (Static directory) \<Rightarrow>
              bindq (syscall (k_fs sys)) (\<lambda>fs.
                case static_stream_response fs (k_mime sys) directory request of
                  Inr response \<Rightarrow> bindq (queue_static_response sys i response) (\<lambda>_. ok True)
                | Inl e \<Rightarrow> bindq (queue_response sys i (static_error_response e)) (\<lambda>_. ok True))
          | _ \<Rightarrow> bindq (queue_response sys i (response_for s server_index (req_target request))) (\<lambda>_. ok True)))"

definition handle_request ::
  "('w, 'sc, 't) sys \<Rightarrow> connection_id \<Rightarrow> request_head \<Rightarrow> bytes \<Rightarrow> nat \<Rightarrow> ('w, 'sc, 't, bool) wop" where
  "handle_request sys i request body listener_group =
     bindq (gets id) (\<lambda>s. case get (rw_listeners s) listener_group of
       None \<Rightarrow> err (Custom KInvalidData ''listener group is unavailable'')
     | Some listener \<Rightarrow> perform_action sys i request body
         (select_server (rl_server_indices listener) (rl_default_server listener) request (rw_servers s)))"

text \<open>What follows the read loop.\<close>

definition after_read :: "('w, 'sc, 't) sys \<Rightarrow> connection_id \<Rightarrow> read_end \<Rightarrow> ('w, 'sc, 't, unit) wop" where
  "after_read sys i e =
     bindq (case e of
         Refused status message \<Rightarrow> bindq (queue_response sys i (response_bytes status message)) (\<lambda>_. ok True)
       | Received request body listener_group \<Rightarrow> handle_request sys i request body listener_group
       | _ \<Rightarrow> ok True) (\<lambda>continue.
       if \<not> continue then ok () else
     bindq (if e = PeerClosed then remove_connection sys i else ok ()) (\<lambda>_.
     bindq (gets (\<lambda>s. current_with s i (ssl_wants_write (t_wants_write sys)))) (\<lambda>flush.
       if flush then reregister_client sys i READABLE_WRITABLE else ok ())))"

definition connection_ready :: "('w, 'sc, 't) sys \<Rightarrow> connection_id \<Rightarrow> ('w, 'sc, 't, unit) wop" where
  "connection_ready sys i = if_current i (
     bindq (index_conn i) (\<lambda>c.
       if is_handling_request c then client_during_proxy_ready sys i
       else bindq (read_loop sys i MAX_READS_PER_EVENT) (after_read sys i)))"

section \<open>Accepting connections\<close>

text \<open>Inserting the connection in its slot and registering its socket.\<close>

definition insert_connection ::
  "('w, 'sc, 't) sys \<Rightarrow> nat \<Rightarrow> connection_id \<Rightarrow> 't connection \<Rightarrow> ('w, 'sc, 't, unit) wop" where
  "insert_connection sys slot i c =
     bindq (modify (\<lambda>s. s\<lparr>rw_connections := slab_insert slot c (rw_connections s)\<rparr>)) (\<lambda>_.
     bindq (of_result (token i Client)) (\<lambda>t.
     bindq (index_conn i) (\<lambda>c.
     bindq (syscall (k_register sys (cn_socket c) t READABLE)) (\<lambda>r. case r of
       Inl e \<Rightarrow> bindq (modify (\<lambda>s. s\<lparr>rw_connections := (rw_connections s)[slot := None]\<rparr>)) (\<lambda>_. err e)
     | Inr _ \<Rightarrow> ok ()))))"

definition occupy_slot ::
  "('w, 'sc, 't) sys \<Rightarrow> socket \<Rightarrow> nat \<Rightarrow> nat \<Rightarrow> usize \<Rightarrow> ('w, 'sc, 't, unit) wop" where
  "occupy_slot sys stream listener_group slot generation =
     bindq (gets (\<lambda>s. get (rw_listeners s) listener_group)) (\<lambda>listener. case listener of
       None \<Rightarrow> panic
     | Some listener \<Rightarrow>
         bindq (case rl_ssl listener of None \<Rightarrow> ok 0 | Some _ \<Rightarrow> syscall (k_now sys)) (\<lambda>now.
         bindq (syscall (k_now sys)) (\<lambda>now'.
         bindq (of_result (connection_new (t_new sys) now now' stream listener_group generation
           (rl_ssl listener)))
         (insert_connection sys slot \<lparr>cid_slot = of_nat slot, cid_generation = generation\<rparr>))))"

definition register_connection ::
  "('w, 'sc, 't) sys \<Rightarrow> socket \<Rightarrow> nat \<Rightarrow> ('w, 'sc, 't, unit) wop" where
  "register_connection sys stream listener_group =
     bindq (gets (\<lambda>s. map (\<lambda>entry. entry \<noteq> None) (rw_connections s))) (\<lambda>occupied.
     bindq (syscall (k_vacant_key sys occupied)) (\<lambda>slot.
       if slot > unat SLOT_MASK then err (Custom KOther ''connection slab exceeds token capacity'')
       else
         bindq (modify (\<lambda>s. if length (rw_generations s) \<le> slot
           then s\<lparr>rw_generations := rw_generations s @ replicate (slot + 1 - length (rw_generations s)) 0\<rparr>
           else s)) (\<lambda>_.
         bindq (gets (\<lambda>s. next_generation (rw_generations s ! slot))) (\<lambda>generation.
         bindq (modify (\<lambda>s. s\<lparr>rw_generations := (rw_generations s)[slot := generation]\<rparr>)) (\<lambda>_.
         occupy_slot sys stream listener_group slot generation)))))"

fun accept_loop :: "('w, 'sc, 't) sys \<Rightarrow> nat \<Rightarrow> nat \<Rightarrow> ('w, 'sc, 't, unit) wop" where
  "accept_loop sys 0 listener_index = panic"
| "accept_loop sys (Suc fuel) listener_index =
     bindq (gets (\<lambda>s. get (rw_listeners s) listener_index)) (\<lambda>listener. case listener of
       None \<Rightarrow> panic
     | Some listener \<Rightarrow>
         bindq (syscall (k_accept sys (rl_socket listener))) (\<lambda>r. case r of
           Inr stream \<Rightarrow>
             bindq (gets (\<lambda>s. slab_len (rw_connections s) \<ge> unat (wl_max_connections (rw_limits s)))) (\<lambda>full.
               if full then accept_loop sys fuel listener_index
               else bindq (metric metric_accepted) (\<lambda>_.
                 bindq (attempt (register_connection sys stream listener_index)) (\<lambda>_.
                 accept_loop sys fuel listener_index)))
         | Inl e \<Rightarrow>
             if kind e = KWouldBlock then ok ()
             else if kind e = KInterrupted then accept_loop sys fuel listener_index
             else ok ()))"

definition accept_ready :: "('w, 'sc, 't) sys \<Rightarrow> nat \<Rightarrow> ('w, 'sc, 't, unit) wop" where
  "accept_ready sys listener_index =
     bindq (gets (\<lambda>s. k_bound sys (rw_world s))) (\<lambda>bound. accept_loop sys (Suc bound) listener_index)"

section \<open>Dispatching events\<close>

definition dispatch_client ::
  "('w, 'sc, 't) sys \<Rightarrow> connection_id \<Rightarrow> ready_event \<Rightarrow> ('w, 'sc, 't, unit) wop" where
  "dispatch_client sys i event =
     (if ev_error event
      then bindq (log_socket_error sys i True) (\<lambda>_. remove_connection sys i)
      else
        bindq (if ev_writable event then write_ready sys i else ok ()) (\<lambda>_.
        bindq (gets rw_draining) (\<lambda>draining.
        bindq (if ev_readable event \<and> \<not> draining then connection_ready sys i else ok ()) (\<lambda>_.
        bindq (gets (\<lambda>s. (ev_read_closed event \<or> ev_write_closed event)
          \<and> current_with s i (\<lambda>c. cn_write_offset c = length (cn_write_buffer c)))) (\<lambda>closed.
          if closed then remove_connection sys i else ok ())))))"

definition dispatch_upstream ::
  "('w, 'sc, 't) sys \<Rightarrow> connection_id \<Rightarrow> ready_event \<Rightarrow> ('w, 'sc, 't, unit) wop" where
  "dispatch_upstream sys i event =
     bindq (index_conn i) (\<lambda>c.
       if \<not> is_proxying c then ok ()
       else if ev_error event then fail_proxy sys i 502 ''upstream connection failed''
       else
         bindq (if ev_writable event then write_upstream_request sys i else ok ()) (\<lambda>_.
         bindq (gets (\<lambda>s. is_current s i)) (\<lambda>cur.
         bindq (if ev_readable event \<and> cur then read_upstream_response sys i else ok ()) (\<lambda>_.
         bindq (gets (\<lambda>s. is_current s i)) (\<lambda>cur.
           if (ev_read_closed event \<or> ev_write_closed event) \<and> cur
           then modify (\<lambda>s. s\<lparr>rw_pending_upstream_reads := insert i (rw_pending_upstream_reads s)\<rparr>)
           else ok ())))))"

definition dispatch :: "('w, 'sc, 't) sys \<Rightarrow> ready_event \<Rightarrow> ('w, 'sc, 't, unit) wop" where
  "dispatch sys event =
     (if ev_token event = CONTROL_TOKEN then process_dns_results sys
      else bindq (gets id) (\<lambda>s.
        if unat (ev_token event) < length (rw_listeners s)
        then (if ev_readable event \<and> \<not> rw_draining s then accept_ready sys (unat (ev_token event)) else ok ())
        else (case from_token (ev_token event) of
          None \<Rightarrow> ok ()
        | Some (i, role) \<Rightarrow>
            if \<not> is_current s i then ok ()
            else (case role of
              Client \<Rightarrow> dispatch_client sys i event
            | Upstream \<Rightarrow> dispatch_upstream sys i event))))"

section \<open>Timeouts and shutdown\<close>

definition close_idle_connections :: "('w, 'sc, 't) sys \<Rightarrow> ('w, 'sc, 't, unit) wop" where
  "close_idle_connections sys =
     bindq (syscall (k_now sys)) (\<lambda>now.
     bindq (gets (\<lambda>s. connection_ids (\<lambda>slot c. \<not> is_handling_request c
       \<and> duration_since now (cn_last_progress c) \<ge> wl_idle_timeout (rw_limits s)) s)) (\<lambda>expired.
     bindq (for_each (remove_connection sys) expired) (\<lambda>_.
     bindq (gets (connection_ids (\<lambda>slot c. ssl_handshake_expired (t_is_handshaking sys) now c))) (\<lambda>expired.
     for_each (remove_connection sys) expired))))"

definition close_expired_resolutions :: "('w, 'sc, 't) sys \<Rightarrow> ('w, 'sc, 't, unit) wop" where
  "close_expired_resolutions sys =
     bindq (syscall (k_now sys)) (\<lambda>now.
     bindq (gets (\<lambda>s. connection_ids (\<lambda>slot c. case resolution c of
         Some r \<Rightarrow> duration_since now (rs_started_at r) \<ge> dl_timeout (rw_dns_limits s)
       | None \<Rightarrow> False) s)) (\<lambda>expired.
     for_each (\<lambda>i. fail_resolution sys i 504 ''upstream DNS resolution timed out'') expired))"

text \<open>The expired proxies with the phase they were in.\<close>

definition expired_proxies ::
  "instant \<Rightarrow> ('w, 'sc, 't) readiness_worker \<Rightarrow> (connection_id \<times> proxy_phase) list" where
  "expired_proxies now s = List.map_filter (\<lambda>(slot, c). case proxy_of c of
       None \<Rightarrow> None
     | Some x \<Rightarrow>
         if duration_since now (px_phase_progress_at x) \<ge> phase_timeout (px_phase x) (rw_proxy_limits s)
         then Some (\<lparr>cid_slot = of_nat slot, cid_generation = cn_generation c\<rparr>, px_phase x)
         else None)
     (slab_iter (rw_connections s))"

definition close_expired_proxies :: "('w, 'sc, 't) sys \<Rightarrow> ('w, 'sc, 't, unit) wop" where
  "close_expired_proxies sys =
     bindq (syscall (k_now sys)) (\<lambda>now.
     bindq (gets (expired_proxies now)) (\<lambda>expired.
     for_each (\<lambda>(i, phase). fail_proxy sys i 504 (timeout_message phase)) expired))"

definition drain_deadline_expired :: "('w, 'sc, 't) sys \<Rightarrow> ('w, 'sc, 't, bool) wop" where
  "drain_deadline_expired sys =
     bindq (gets rw_drain_started_at) (\<lambda>started. case started of
       None \<Rightarrow> ok False
     | Some started \<Rightarrow>
         bindq (syscall (k_now sys)) (\<lambda>now.
         gets (\<lambda>s. duration_since now started \<ge> wl_drain_timeout (rw_limits s))))"

text \<open>The errors of \<open>remove_connection\<close> are only logged here.\<close>

definition close_all_connections :: "('w, 'sc, 't) sys \<Rightarrow> ('w, 'sc, 't, unit) wop" where
  "close_all_connections sys =
     bindq (gets (connection_ids (\<lambda>_ _. True))) (for_each (\<lambda>i.
       bindq (attempt (remove_connection sys i)) (\<lambda>_. ok ())))"

definition begin_shutdown :: "('w, 'sc, 't) sys \<Rightarrow> ('w, 'sc, 't, unit) wop" where
  "begin_shutdown sys =
     bindq (modify (\<lambda>s. s\<lparr>rw_draining := True\<rparr>)) (\<lambda>_.
     bindq (syscall (k_now sys)) (\<lambda>now.
     bindq (modify (\<lambda>s. s\<lparr>rw_drain_started_at := Some now\<rparr>)) (\<lambda>_.
     bindq (gets rw_listeners) (\<lambda>listeners.
     bindq (for_each (\<lambda>l. bindq (syscall (k_deregister sys (rl_socket l))) (\<lambda>_. ok ())) listeners) (\<lambda>_.
     bindq (gets (connection_ids (\<lambda>slot c. cn_static_stream c = None
       \<and> cn_write_offset c \<ge> length (cn_write_buffer c)))) (for_each (remove_connection sys)))))))"

section \<open>The event loop\<close>

text \<open>A waker on the control token, the resolver threads, and one registration per listener.\<close>

fun register_listeners :: "('w, 'sc, 't) sys \<Rightarrow> nat \<Rightarrow> 'sc registered_listener list \<Rightarrow> 'w \<Rightarrow> (io_error + unit) \<times> 'w" where
  "register_listeners sys index [] w = (Inr (), w)"
| "register_listeners sys index (l # ls) w =
     (case k_register sys (rl_socket l) (of_nat index) READABLE w of
        (Inl e, w') \<Rightarrow> (Inl e, w')
      | (Inr _, w') \<Rightarrow> register_listeners sys (Suc index) ls w')"

definition registered_listener_of ::
  "'sc loaded_ssl_config option list \<Rightarrow> socket bound_listener_group \<Rightarrow> 'sc registered_listener" where
  "registered_listener_of ssl_configs bound = \<lparr>rl_socket = bl_socket bound,
     rl_default_server = bl_default_server bound, rl_server_indices = bl_server_indices bound,
     rl_ssl = (case get ssl_configs (bl_default_server bound) of Some c \<Rightarrow> c | None \<Rightarrow> None)\<rparr>"

definition readiness_worker_new ::
  "('w, 'sc, 't) sys \<Rightarrow> (socket, 'sc) worker_context \<Rightarrow> 'w \<Rightarrow> (io_error + ('w, 'sc, 't) readiness_worker) \<times> 'w" where
  "readiness_worker_new sys ctx w0 =
     (case k_poll_new sys w0 of (Inl e, w) \<Rightarrow> (Inl e, w) | (Inr _, w) \<Rightarrow>
     (case k_waker_new sys w of (Inl e, w) \<Rightarrow> (Inl e, w) | (Inr _, w) \<Rightarrow>
      let w = k_install_waker sys w in
     (case dns_resolver_new (k_spawn sys) (unat (dl_resolver_threads (ctx_dns_limits ctx))) of
        Inl e \<Rightarrow> (Inl e, w) | Inr resolver \<Rightarrow>
      let listeners = map (registered_listener_of (ctx_ssl_configs ctx)) (ctx_listener_groups ctx) in
      if length (ctx_ssl_configs ctx) \<noteq> length (ctx_servers ctx)
      then (Inl (Custom KInvalidInput ''SSL configuration does not match the configured servers''), w)
      else (case register_listeners sys 0 listeners w of
        (Inl e, w) \<Rightarrow> (Inl e, w)
      | (Inr _, w) \<Rightarrow> (Inr \<lparr>rw_listeners = listeners, rw_connections = [], rw_generations = [],
          rw_pending_writes = {}, rw_pending_upstream_writes = {}, rw_pending_upstream_reads = {},
          rw_servers = ctx_servers ctx, rw_limits = ctx_limits ctx, rw_proxy_limits = ctx_proxy_limits ctx,
          rw_dns_limits = ctx_dns_limits ctx, rw_resolver = resolver, rw_metrics = ctx_metrics ctx,
          rw_balancer = with_groups (ctx_upstream_groups ctx), rw_draining = False,
          rw_drain_started_at = None, rw_world = w\<rparr>, w)))))"

text \<open>Draining one of the pending sets and serving the connections in it that are still current.\<close>

definition serve_pending ::
  "('w, 'sc, 't) sys \<Rightarrow> (('w, 'sc, 't) readiness_worker \<Rightarrow> connection_id set) \<Rightarrow>
   (('w, 'sc, 't) readiness_worker \<Rightarrow> ('w, 'sc, 't) readiness_worker) \<Rightarrow>
   (connection_id \<Rightarrow> ('w, 'sc, 't, unit) wop) \<Rightarrow> ('w, 'sc, 't, unit) wop" where
  "serve_pending sys pending clear serve =
     bindq (gets pending) (\<lambda>ids.
     bindq (syscall (k_drain_order sys ids)) (\<lambda>scheduled.
     bindq (modify clear) (\<lambda>_.
     for_each (\<lambda>i. if_current i (serve i)) scheduled)))"

text \<open>One iteration of the loop of \<open>run\<close>: \<open>True\<close> when it goes on, \<open>False\<close> when \<open>run\<close> returns \<open>Ok(())\<close>.\<close>

definition housekeeping :: "('w, 'sc, 't) sys \<Rightarrow> ('w, 'sc, 't, unit) wop" where
  "housekeeping sys =
     bindq (process_dns_results sys) (\<lambda>_.
     bindq (close_expired_resolutions sys) (\<lambda>_.
     bindq (close_expired_proxies sys) (\<lambda>_.
     bindq (close_idle_connections sys) (\<lambda>_.
     bindq (pump_static_streams sys) (\<lambda>_.
     bindq (serve_pending sys rw_pending_writes (\<lambda>s. s\<lparr>rw_pending_writes := {}\<rparr>) (write_ready sys)) (\<lambda>_.
     bindq (serve_pending sys rw_pending_upstream_writes (\<lambda>s. s\<lparr>rw_pending_upstream_writes := {}\<rparr>)
       (write_upstream_request sys)) (\<lambda>_.
     serve_pending sys rw_pending_upstream_reads (\<lambda>s. s\<lparr>rw_pending_upstream_reads := {}\<rparr>)
       (read_upstream_response sys))))))))"

definition poll_timeout :: "('w, 'sc, 't) readiness_worker \<Rightarrow> nat" where
  "poll_timeout s = (if rw_pending_writes s = {} \<and> rw_pending_upstream_writes s = {}
     \<and> rw_pending_upstream_reads s = {} then 100 else 0)"

definition poll_events :: "('w, 'sc, 't) sys \<Rightarrow> nat \<Rightarrow> ('w, 'sc, 't, unit) wop" where
  "poll_events sys max_events =
     bindq (gets poll_timeout) (\<lambda>timeout.
     bindq (syscall (k_poll sys (max max_events 1) timeout)) (\<lambda>r. case r of
       Inl e \<Rightarrow> if kind e = KInterrupted then ok () else err e
     | Inr ready \<Rightarrow> for_each (dispatch sys) ready))"

definition run_iteration :: "('w, 'sc, 't) sys \<Rightarrow> nat \<Rightarrow> ('w, 'sc, 't, bool) wop" where
  "run_iteration sys max_events =
     bindq (syscall (k_is_requested sys)) (\<lambda>requested.
     bindq (gets rw_draining) (\<lambda>draining.
     bindq (if requested \<and> \<not> draining then begin_shutdown sys else ok ()) (\<lambda>_.
     bindq (gets (\<lambda>s. rw_draining s \<and> slab_len (rw_connections s) = 0)) (\<lambda>finished.
       if finished then ok False else
     bindq (drain_deadline_expired sys) (\<lambda>expired.
       if expired then bindq (close_all_connections sys) (\<lambda>_. ok False)
       else bindq (housekeeping sys) (\<lambda>_. bindq (poll_events sys max_events) (\<lambda>_. ok True)))))))"

text \<open>
  The loop runs as long as iterations go on. \<open>run_worker n\<close> runs at most \<open>n\<close> of them; \<open>None\<close> says that
  it has not returned by then.
\<close>

fun run_worker :: "('w, 'sc, 't) sys \<Rightarrow> nat \<Rightarrow> nat \<Rightarrow> ('w, 'sc, 't, unit option) wop" where
  "run_worker sys max_events 0 = ok None"
| "run_worker sys max_events (Suc n) =
     bindq (run_iteration sys max_events) (\<lambda>go_on.
       if go_on then run_worker sys max_events n else ok (Some ()))"

end
