(* ===== verification/Readiness_Invariant.thy ===== *)
theory Readiness_Invariant
  imports Readiness_Worker
begin

text \<open>
  What the readiness worker guarantees. The contract of the outside (\<open>sys_ok\<close>) states the documented
  behaviour of the kernel, rustls and slab that the worker relies on. Under it every operation of the
  worker keeps the invariant \<open>winv\<close>, never panics, and moves the table of connections along the
  abstract life cycle \<open>lifecycle\<close>: the specification the worker refines. Operations are verified with
  \<open>wp\<close>, and composed with the rules of the locale \<open>guarded_steps\<close>, interpreted here as \<open>rdy\<close>.
\<close>

section \<open>The contract of the outside\<close>

text \<open>
  A read fills at most the buffer and a write sends at most what it is given; the slab hands out a
  vacant key, at most its length; a file thread only takes producer steps; and an accepted
  connection or an interrupted call uses up one of the finitely many that are still to come.
\<close>

definition reads_ok :: "('w, 'sc, 't) sys \<Rightarrow> bool" where
  "reads_ok sys \<longleftrightarrow> (\<forall>fd n w bs w'. k_read sys fd n w = (Inr bs, w') \<longrightarrow> length bs \<le> n)
     \<and> (\<forall>t n bs t'. t_reader_read sys t n = (Inr bs, t') \<longrightarrow> length bs \<le> n)"

definition writes_ok :: "('w, 'sc, 't) sys \<Rightarrow> bool" where
  "writes_ok sys \<longleftrightarrow> (\<forall>fd bs w n w'. k_write sys fd bs w = (Inr n, w') \<longrightarrow> n \<le> length bs)
     \<and> (\<forall>t bs n t'. t_writer_write sys t bs = (Inr n, t') \<longrightarrow> n \<le> length bs)"

definition vacant_ok :: "('w, 'sc, 't) sys \<Rightarrow> bool" where
  "vacant_ok sys \<longleftrightarrow> (\<forall>occ w k w'. k_vacant_key sys occ w = (k, w') \<longrightarrow>
     k \<le> length occ \<and> (k < length occ \<longrightarrow> \<not> occ ! k))"

definition producers_ok :: "('w, 'sc, 't) sys \<Rightarrow> bool" where
  "producers_ok sys \<longleftrightarrow> (\<forall>st w st' w'. k_producer sys st w = (st', w') \<longrightarrow> producer_step\<^sup>*\<^sup>* st st')"

definition bounded_ok :: "('w, 'sc, 't) sys \<Rightarrow> bool" where
  "bounded_ok sys \<longleftrightarrow>
     (\<forall>fd w r w'. k_accept sys fd w = (r, w') \<longrightarrow>
        (case r of Inr _ \<Rightarrow> True | Inl e \<Rightarrow> kind e = KInterrupted) \<longrightarrow> k_bound sys w' < k_bound sys w)
   \<and> (\<forall>fd n w e w'. k_read sys fd n w = (Inl e, w') \<longrightarrow> kind e = KInterrupted \<longrightarrow> k_bound sys w' < k_bound sys w)
   \<and> (\<forall>fd t n w r w'. k_register sys fd t n w = (r, w') \<longrightarrow> k_bound sys w' \<le> k_bound sys w)
   \<and> (\<forall>w t w'. k_now sys w = (t, w') \<longrightarrow> k_bound sys w' \<le> k_bound sys w)
   \<and> (\<forall>occ w k w'. k_vacant_key sys occ w = (k, w') \<longrightarrow> k_bound sys w' \<le> k_bound sys w)"

definition sys_ok :: "('w, 'sc, 't) sys \<Rightarrow> bool" where
  "sys_ok sys \<longleftrightarrow> reads_ok sys \<and> writes_ok sys \<and> vacant_ok sys \<and> producers_ok sys \<and> bounded_ok sys"

lemma read_length: "sys_ok sys \<Longrightarrow> k_read sys fd n w = (Inr bs, w') \<Longrightarrow> length bs \<le> n"
  unfolding sys_ok_def reads_ok_def by blast

lemma reader_read_length: "sys_ok sys \<Longrightarrow> t_reader_read sys t n = (Inr bs, t') \<Longrightarrow> length bs \<le> n"
  unfolding sys_ok_def reads_ok_def by blast

lemma write_length: "sys_ok sys \<Longrightarrow> k_write sys fd bs w = (Inr n, w') \<Longrightarrow> n \<le> length bs"
  unfolding sys_ok_def writes_ok_def by blast

lemma writer_write_length: "sys_ok sys \<Longrightarrow> t_writer_write sys t bs = (Inr n, t') \<Longrightarrow> n \<le> length bs"
  unfolding sys_ok_def writes_ok_def by blast

section \<open>The life cycle of connections\<close>

text \<open>
  The abstract view: the connections by slot, each with its generation and the stage it is in.
  A connection receives a request; then either its upstream is looked up and relayed or a response
  of the proxy is sent. Once bytes of an upstream response have been relayed, the connection can
  only be closed.
\<close>

datatype stage = Receiving | Looking | Relaying bool | Responding

inductive next_stage :: "stage \<Rightarrow> stage \<Rightarrow> bool" where
  "next_stage Receiving Looking"
| "next_stage Receiving Responding"
| "next_stage Looking (Relaying False)"
| "next_stage Looking Responding"
| "next_stage (Relaying False) (Relaying True)"
| "next_stage (Relaying False) Responding"

inductive_simps next_stage_simps [simp]: "next_stage a b"

record abstract_worker =
  aw_draining :: bool
  aw_connections :: "nat \<Rightarrow> (usize \<times> stage) option"

inductive lifecycle :: "abstract_worker \<Rightarrow> abstract_worker \<Rightarrow> bool" where
  Open: "\<not> aw_draining a \<Longrightarrow> aw_connections a i = None \<Longrightarrow>
    lifecycle a (a\<lparr>aw_connections := (aw_connections a)(i \<mapsto> (g, Receiving))\<rparr>)"
| Advance: "aw_connections a i = Some (g, p) \<Longrightarrow> next_stage p q \<Longrightarrow>
    lifecycle a (a\<lparr>aw_connections := (aw_connections a)(i \<mapsto> (g, q))\<rparr>)"
| Close: "aw_connections a i \<noteq> None \<Longrightarrow>
    lifecycle a (a\<lparr>aw_connections := (aw_connections a)(i := None)\<rparr>)"
| Drain: "lifecycle a (a\<lparr>aw_draining := True\<rparr>)"

fun stage_of :: "connection_phase \<Rightarrow> stage" where
  "stage_of (Reading _) = Receiving"
| "stage_of (Resolving _) = Looking"
| "stage_of (Proxying x) = Relaying (px_response_started x)"
| "stage_of WritingResponse = Responding"

definition abs_worker :: "('w, 'sc, 't) readiness_worker \<Rightarrow> abstract_worker" where
  "abs_worker s = \<lparr>aw_draining = rw_draining s, aw_connections = (\<lambda>i.
     map_option (\<lambda>c. (cn_generation c, stage_of (cn_phase c))) (slab_get (rw_connections s) i))\<rparr>"

text \<open>A later state of a worker; its limits, listeners and servers are fixed.\<close>

definition evolves :: "('w, 'sc, 't) readiness_worker \<Rightarrow> ('w, 'sc, 't) readiness_worker \<Rightarrow> bool" where
  "evolves s t \<longleftrightarrow> lifecycle\<^sup>*\<^sup>* (abs_worker s) (abs_worker t) \<and> rw_limits t = rw_limits s
     \<and> rw_listeners t = rw_listeners s \<and> rw_servers t = rw_servers s"

section \<open>The invariant\<close>

definition message_ok :: "stream_message \<Rightarrow> bool" where
  "message_ok m = (case m of Inr bs \<Rightarrow> length bs \<le> STREAM_CHUNK_SIZE | Inl _ \<Rightarrow> True)"

definition stream_ok :: "static_stream \<Rightarrow> bool" where
  "stream_ok st \<longleftrightarrow> (\<forall>m \<in> set (ss_todo st) \<union> set (ss_queue st). message_ok m)"

text \<open>The largest write buffer: what the limit allows, or a chunk of a file.\<close>

definition write_bound :: "worker_limits \<Rightarrow> nat" where
  "write_bound limits = max (unat (wl_max_write_buffer_size limits)) STREAM_CHUNK_SIZE"

fun phase_ok :: "worker_limits \<Rightarrow> connection_phase \<Rightarrow> bool" where
  "phase_ok limits (Reading p) = (case p of None \<Rightarrow> True | Some r \<Rightarrow>
     unat (pr_body_start r) \<le> unat (pr_body_end r)
     \<and> unat (pr_body_end r) \<le> unat (wl_max_read_buffer_size limits))"
| "phase_ok limits (Resolving r) = (length (rs_request_buffer r) \<le> unat (wl_max_read_buffer_size limits))"
| "phase_ok limits (Proxying x) = (px_request_offset x \<le> length (px_request_buffer x)
     \<and> length (px_request_buffer x) \<le> unat (wl_max_read_buffer_size limits)
     \<and> (px_phase x = ReadingResponse \<longrightarrow> px_request_offset x = length (px_request_buffer x))
     \<and> (px_response_started x \<longrightarrow> px_phase x = ReadingResponse))"
| "phase_ok limits WritingResponse = True"

definition conn_ok :: "worker_limits \<Rightarrow> 't connection \<Rightarrow> bool" where
  "conn_ok limits c \<longleftrightarrow>
     length (cn_read_buffer c) \<le> unat (wl_max_read_buffer_size limits)
   \<and> length (cn_write_buffer c) \<le> write_bound limits
   \<and> cn_write_offset c \<le> length (cn_write_buffer c)
   \<and> phase_ok limits (cn_phase c)
   \<and> (stage_of (cn_phase c) \<in> {Receiving, Looking, Relaying False} \<longrightarrow> cn_write_buffer c = [])
   \<and> (\<forall>st. cn_static_stream c = Some st \<longrightarrow> stream_ok st \<and> cn_phase c = WritingResponse)"

definition slot_ok :: "usize list \<Rightarrow> nat \<Rightarrow> 't connection \<Rightarrow> bool" where
  "slot_ok generations i c \<longleftrightarrow> i \<le> unat SLOT_MASK \<and> get generations i = Some (cn_generation c)
     \<and> valid_generation (cn_generation c)"

definition winv :: "('w, 'sc, 't) readiness_worker \<Rightarrow> bool" where
  "winv s \<longleftrightarrow> (\<forall>i c. slab_get (rw_connections s) i = Some c \<longrightarrow>
       conn_ok (rw_limits s) c \<and> slot_ok (rw_generations s) i c)
   \<and> (\<forall>g \<in> set (rw_generations s). unat g < 2 ^ 30)
   \<and> slab_len (rw_connections s) \<le> unat (wl_max_connections (rw_limits s))
   \<and> config_known (rw_servers s) (rw_balancer s)"

interpretation rdy: guarded_steps winv evolves
  by unfold_locales (auto simp: evolves_def)

section \<open>Basic operations\<close>

definition put_conn :: "('w, 'sc, 't) readiness_worker \<Rightarrow> connection_id \<Rightarrow> 't connection \<Rightarrow> ('w, 'sc, 't) readiness_worker" where
  "put_conn s i c = s\<lparr>rw_connections := (rw_connections s)[slot_of i := Some c]\<rparr>"

lemma is_current_iff: "is_current s i \<longleftrightarrow> current s i \<noteq> None"
  by (simp add: is_current_def current_def split: option.splits)

lemma currentD:
  "current s i = Some c \<Longrightarrow> slab_get (rw_connections s) (slot_of i) = Some c \<and> cn_generation c = cid_generation i"
  by (auto simp: current_def split: option.splits if_splits)

lemma wp_syscall: "wp (syscall f) Q s = Q (Inr (fst (f (rw_world s)))) (s\<lparr>rw_world := snd (f (rw_world s))\<rparr>)"
  by (simp add: wp_def syscall_def case_prod_unfold Let_def)

lemma wp_syscall_any: "(\<And>r w. Q (Inr r) (s\<lparr>rw_world := w\<rparr>)) \<Longrightarrow> wp (syscall f) Q s"
  by (simp add: wp_syscall)

lemma wp_metric [simp]: "wp (metric g) Q s = Q (Inr ()) (s\<lparr>rw_metrics := g (rw_metrics s)\<rparr>)"
  by (simp add: metric_def)

lemma wp_index_conn: "current s i = Some c \<Longrightarrow> wp (index_conn i) Q s = Q (Inr c) s"
  by (drule currentD) (simp add: wp_def index_conn_def)

lemma wp_update_conn: "current s i = Some c \<Longrightarrow> wp (update_conn i g) Q s = Q (Inr ()) (put_conn s i (g c))"
  by (drule currentD) (simp add: wp_def update_conn_def put_conn_def)

lemma wp_if_current: "wp (if_current i m) Q s = (if current s i = None then Q (Inr ()) s else wp m Q s)"
  by (simp add: if_current_def is_current_iff)

lemmas wop_simps = wp_if_current wp_index_conn wp_update_conn wp_syscall case_prod_unfold Let_def

lemma current_put [simp]:
  "current s i = Some c \<Longrightarrow> current (put_conn s i c') i = (if cn_generation c' = cid_generation i then Some c' else None)"
  by (drule currentD) (auto simp: current_def put_conn_def slab_get_put slab_get_Some_iff)

lemma put_conn_fields [simp]:
  "rw_limits (put_conn s i c) = rw_limits s" "rw_world (put_conn s i c) = rw_world s"
  "rw_listeners (put_conn s i c) = rw_listeners s" "rw_servers (put_conn s i c) = rw_servers s"
  "rw_draining (put_conn s i c) = rw_draining s" "rw_generations (put_conn s i c) = rw_generations s"
  by (simp_all add: put_conn_def)

text \<open>Normal form of a changed state: first the connection, then the metrics, last the world.\<close>

lemma put_conn_frame [simp]:
  "put_conn (s\<lparr>rw_world := w\<rparr>) i c = (put_conn s i c)\<lparr>rw_world := w\<rparr>"
  "put_conn (s\<lparr>rw_metrics := m\<rparr>) i c = (put_conn s i c)\<lparr>rw_metrics := m\<rparr>"
  "rw_metrics (put_conn s i c) = rw_metrics s"
  by (cases s, simp add: put_conn_def)+

lemma world_last [simp]: "(s\<lparr>rw_world := w\<rparr>)\<lparr>rw_metrics := m\<rparr> = (s\<lparr>rw_metrics := m\<rparr>)\<lparr>rw_world := w\<rparr>"
  by (cases s) simp

lemma put_put [simp]: "put_conn (put_conn s i c) i c' = put_conn s i c'"
  by (simp add: put_conn_def)

text \<open>Fields that neither the invariant nor the life cycle mentions.\<close>

lemma current_frame [simp]:
  "current (s\<lparr>rw_world := w\<rparr>) i = current s i"
  "current (s\<lparr>rw_metrics := m\<rparr>) i = current s i"
  "current (s\<lparr>rw_pending_writes := ids\<rparr>) i = current s i"
  "current (s\<lparr>rw_pending_upstream_reads := ids\<rparr>) i = current s i"
  "current (s\<lparr>rw_pending_upstream_writes := ids\<rparr>) i = current s i"
  "current (s\<lparr>rw_resolver := r\<rparr>) i = current s i"
  "current (s\<lparr>rw_balancer := b\<rparr>) i = current s i"
  by (simp_all add: current_def)

lemma winv_frame [simp]:
  "winv (s\<lparr>rw_world := w\<rparr>) = winv s"
  "winv (s\<lparr>rw_metrics := m\<rparr>) = winv s"
  "winv (s\<lparr>rw_pending_writes := ids\<rparr>) = winv s"
  "winv (s\<lparr>rw_pending_upstream_reads := ids\<rparr>) = winv s"
  "winv (s\<lparr>rw_pending_upstream_writes := ids\<rparr>) = winv s"
  "winv (s\<lparr>rw_resolver := r\<rparr>) = winv s"
  "winv (s\<lparr>rw_drain_started_at := t\<rparr>) = winv s"
  "winv (s\<lparr>rw_draining := d\<rparr>) = winv s"
  by (simp_all add: winv_def)

lemma abs_frame [simp]:
  "abs_worker (s\<lparr>rw_world := w\<rparr>) = abs_worker s"
  "abs_worker (s\<lparr>rw_metrics := m\<rparr>) = abs_worker s"
  "abs_worker (s\<lparr>rw_pending_writes := ids\<rparr>) = abs_worker s"
  "abs_worker (s\<lparr>rw_pending_upstream_reads := ids\<rparr>) = abs_worker s"
  "abs_worker (s\<lparr>rw_pending_upstream_writes := ids\<rparr>) = abs_worker s"
  "abs_worker (s\<lparr>rw_resolver := r\<rparr>) = abs_worker s"
  "abs_worker (s\<lparr>rw_drain_started_at := t\<rparr>) = abs_worker s"
  "abs_worker (s\<lparr>rw_balancer := b\<rparr>) = abs_worker s"
  "abs_worker (s\<lparr>rw_generations := g\<rparr>) = abs_worker s"
  by (simp_all add: abs_worker_def)

lemma reached_frame [simp]:
  "rdy.reached s0 (s\<lparr>rw_world := w\<rparr>) = rdy.reached s0 s"
  "rdy.reached s0 (s\<lparr>rw_metrics := m\<rparr>) = rdy.reached s0 s"
  "rdy.reached s0 (s\<lparr>rw_pending_writes := ids\<rparr>) = rdy.reached s0 s"
  "rdy.reached s0 (s\<lparr>rw_pending_upstream_reads := ids\<rparr>) = rdy.reached s0 s"
  "rdy.reached s0 (s\<lparr>rw_pending_upstream_writes := ids\<rparr>) = rdy.reached s0 s"
  "rdy.reached s0 (s\<lparr>rw_resolver := r\<rparr>) = rdy.reached s0 s"
  "rdy.reached s0 (s\<lparr>rw_drain_started_at := t\<rparr>) = rdy.reached s0 s"
  by (simp_all add: rdy.reached_def evolves_def)

lemma reached_conn: "rdy.reached s0 s \<Longrightarrow> current s i = Some c \<Longrightarrow> conn_ok (rw_limits s) c"
  by (drule currentD) (auto simp: rdy.reached_def winv_def)

text \<open>Replacing a connection by one in the same or the next stage, and removing it.\<close>

definition stage_step :: "connection_phase \<Rightarrow> connection_phase \<Rightarrow> bool" where
  "stage_step p q \<longleftrightarrow> stage_of p = stage_of q \<or> next_stage (stage_of p) (stage_of q)"

lemma abs_put:
  assumes "slab_get (rw_connections s) (slot_of i) = Some c"
  shows "abs_worker (put_conn s i c') = (abs_worker s)\<lparr>aw_connections :=
    (aw_connections (abs_worker s))(slot_of i \<mapsto> (cn_generation c', stage_of (cn_phase c')))\<rparr>"
  using assms by (auto simp: abs_worker_def put_conn_def slab_get_put slab_get_Some_iff)

lemma winv_put:
  assumes "winv s" and "current s i = Some c" and "conn_ok (rw_limits s) c'"
    and "cn_generation c' = cn_generation c"
  shows "winv (put_conn s i c')"
proof -
  note c = currentD[OF assms(2)]
  have "slab_len (rw_connections (put_conn s i c')) = slab_len (rw_connections s)"
    using c by (simp add: put_conn_def slab_len_put)
  moreover have "slot_ok (rw_generations s) (slot_of i) c"
    using assms(1) conjunct1[OF c] unfolding winv_def by blast
  then have "slot_ok (rw_generations s) (slot_of i) c'"
    using assms(4) by (simp add: slot_ok_def)
  ultimately show ?thesis
    using assms(1,3) by (auto simp: winv_def put_conn_def slab_get_put)
qed

lemma reached_put:
  assumes "rdy.reached s0 s" and "current s i = Some c" and "conn_ok (rw_limits s) c'"
    and "cn_generation c' = cn_generation c" and "stage_step (cn_phase c) (cn_phase c')"
  shows "rdy.reached s0 (put_conn s i c')"
proof (rule rdy.reached_step[OF assms(1)])
  show "winv (put_conn s i c')" using assms winv_put rdy.reached_inv by blast
  note c = currentD[OF assms(2)]
  have old: "aw_connections (abs_worker s) (slot_of i) = Some (cn_generation c, stage_of (cn_phase c))"
    using c by (simp add: abs_worker_def)
  show "evolves s (put_conn s i c')"
  proof (cases "stage_of (cn_phase c') = stage_of (cn_phase c)")
    case True
    then have "abs_worker (put_conn s i c') = abs_worker s"
      using old assms(4) by (simp add: abs_put[OF conjunct1[OF c]] fun_upd_idem)
    then show ?thesis by (simp add: evolves_def)
  next
    case False
    then have "next_stage (stage_of (cn_phase c)) (stage_of (cn_phase c'))"
      using assms(5) by (simp add: stage_step_def del: next_stage_simps)
    from lifecycle.Advance[OF old this] show ?thesis
      using assms(4) by (simp add: evolves_def abs_put[OF conjunct1[OF c]] r_into_rtranclp)
  qed
qed

definition removed :: "('w, 'sc, 't) readiness_worker \<Rightarrow> connection_id \<Rightarrow> 'w \<Rightarrow> ('w, 'sc, 't) readiness_worker" where
  "removed s i w = s\<lparr>rw_pending_writes := rw_pending_writes s - {i},
     rw_pending_upstream_reads := rw_pending_upstream_reads s - {i},
     rw_pending_upstream_writes := rw_pending_upstream_writes s - {i},
     rw_connections := (rw_connections s)[slot_of i := None], rw_world := w\<rparr>"

lemma removed_put [simp]: "removed (put_conn s i c) i w = removed s i w"
  by (simp add: removed_def put_conn_def)

lemma removed_frame [simp]:
  "removed (s\<lparr>rw_world := w'\<rparr>) i w = removed s i w"
  "removed (s\<lparr>rw_metrics := m\<rparr>) i w = (removed s i w)\<lparr>rw_metrics := m\<rparr>"
  "removed (s\<lparr>rw_pending_upstream_reads := ids\<rparr>) i w = (removed s i w)\<lparr>rw_pending_upstream_reads := ids - {i}\<rparr>"
  "removed (s\<lparr>rw_pending_upstream_writes := ids\<rparr>) i w = (removed s i w)\<lparr>rw_pending_upstream_writes := ids - {i}\<rparr>"
  by (cases s, simp add: removed_def)+

lemma current_removed: "current (removed s i w) j = (if slot_of j = slot_of i then None else current s j)"
  by (simp add: current_def removed_def slab_get_clear)

lemma reached_cleared:
  assumes "rdy.reached s0 s" and "current s i = Some c"
  shows "rdy.reached s0 (s\<lparr>rw_connections := (rw_connections s)[slot_of i := None]\<rparr>)"
proof (rule rdy.reached_step[OF assms(1)])
  let ?t = "s\<lparr>rw_connections := (rw_connections s)[slot_of i := None]\<rparr>"
  have inv: "winv s" using assms(1) by (rule rdy.reached_inv)
  then have "slab_len ((rw_connections s)[slot_of i := None]) \<le> unat (wl_max_connections (rw_limits s))"
    using slab_len_clear[of "rw_connections s" "slot_of i"] by (simp add: winv_def)
  then show "winv ?t" using inv by (auto simp: winv_def slab_get_clear)
  have "aw_connections (abs_worker s) (slot_of i) \<noteq> None"
    using currentD[OF assms(2)] by (simp add: abs_worker_def)
  then have "lifecycle (abs_worker s) ((abs_worker s)\<lparr>aw_connections :=
      (aw_connections (abs_worker s))(slot_of i := None)\<rparr>)" by (rule lifecycle.Close)
  moreover have "abs_worker ?t = (abs_worker s)\<lparr>aw_connections :=
      (aw_connections (abs_worker s))(slot_of i := None)\<rparr>"
    by (auto simp: abs_worker_def slab_get_clear)
  ultimately show "evolves s ?t" by (simp add: evolves_def r_into_rtranclp)
qed

lemma reached_removed:
  assumes "rdy.reached s0 s" and "current s i = Some c"
  shows "rdy.reached s0 (removed s i w)"
proof -
  have "removed s i w = s\<lparr>rw_connections := (rw_connections s)[slot_of i := None],
     rw_pending_writes := rw_pending_writes s - {i}, rw_pending_upstream_reads := rw_pending_upstream_reads s - {i},
     rw_pending_upstream_writes := rw_pending_upstream_writes s - {i}, rw_world := w\<rparr>"
    by (cases s) (simp add: removed_def)
  with reached_cleared[OF assms] show ?thesis by simp
qed

section \<open>Responses and removal\<close>

lemma wp_remove_connection:
  assumes "\<And>w. current s i \<noteq> None \<Longrightarrow> Q (Inr ()) (removed s i w)" and "current s i = None \<Longrightarrow> Q (Inr ()) s"
  shows "wp (remove_connection sys i) Q s"
proof (cases "current s i")
  case None
  then show ?thesis using assms(2) by (simp add: remove_connection_def wp_if_current)
next
  case (Some c)
  have r: "Q (Inr ()) (removed s i w)" for w using assms(1) Some by simp
  show ?thesis using r Some
    by (auto simp: remove_connection_def wop_simps removed_def split: option.splits)
qed

lemma remove_connection_safe:
  "rdy.reached s0 s \<Longrightarrow> rdy.safe s0 (remove_connection sys i) s"
  unfolding rdy.safe_def by (rule wp_remove_connection) (auto intro: reached_removed)

lemma wp_reregister_client:
  assumes "current s i = Some c" and "\<And>r w. Q r (s\<lparr>rw_world := w\<rparr>)" and "\<And>w. Q (Inr ()) (removed s i w)"
  shows "wp (reregister_client sys i interests) Q s"
proof -
  have "Q (Inl e) s" for e using assms(2)[of "Inl e" "rw_world s"] by simp
  moreover have "wp (remove_connection sys i) Q (s\<lparr>rw_world := w\<rparr>)" for w
    by (rule wp_remove_connection) (use assms in \<open>auto simp: removed_def\<close>)
  ultimately show ?thesis using assms
    by (auto simp: reregister_client_def wp_index_conn wp_syscall on_ok_def split: sum.splits)
qed

lemma reregister_client_safe:
  assumes "rdy.reached s0 s" and "current s i = Some c"
  shows "rdy.safe s0 (reregister_client sys i interests) s"
  unfolding rdy.safe_def using assms by (intro wp_reregister_client) (auto intro: reached_removed)

lemma wp_reregister_or_fail:
  assumes "current s i = Some c" and "\<And>r w. Q r (s\<lparr>rw_world := w\<rparr>)"
  shows "wp (reregister_or_fail sys i interests) Q s"
proof -
  have "Q (Inl e) s" for e using assms(2)[of "Inl e" "rw_world s"] by simp
  with assms show ?thesis
    by (auto simp: reregister_or_fail_def wp_index_conn wp_syscall on_ok_def split: sum.splits)
qed

lemma too_large_bound: "length (response_bytes 500 ''response is too large'') \<le> STREAM_CHUNK_SIZE"
  by (simp add: response_bytes_def response_bytes_with_body_def reason_phrase_def STREAM_CHUNK_SIZE_def
      crlf_def Let_def dec.simps)

text \<open>
  A response may replace anything but a relayed response. Its buffer respects the bound whatever
  its size.
\<close>

lemma wp_queue_response:
  assumes "current s i = Some c"
    and "\<And>c' r w. \<lbrakk>cn_phase c' = WritingResponse; cn_generation c' = cn_generation c;
        cn_read_buffer c' = cn_read_buffer c; cn_static_stream c' = cn_static_stream c;
        cn_write_offset c' = 0; length (cn_write_buffer c') \<le> write_bound (rw_limits s)\<rbrakk>
      \<Longrightarrow> Q r ((put_conn s i c')\<lparr>rw_world := w\<rparr>)"
    and "\<And>w. Q (Inr ()) (removed s i w)"
  shows "wp (queue_response sys i response) Q s"
proof -
  let ?r = "if length response > unat (wl_max_write_buffer_size (rw_limits s))
    then response_bytes 500 ''response is too large'' else response"
  let ?c = "(begin_response c)\<lparr>cn_write_buffer := ?r, cn_write_offset := 0\<rparr>"
  have "length ?r \<le> write_bound (rw_limits s)"
    using too_large_bound by (auto simp: write_bound_def)
  moreover have cur: "current (put_conn s i ?c) i = Some ?c"
    using assms(1) currentD[OF assms(1)] by (simp add: begin_response_def)
  ultimately have "wp (reregister_client sys i WRITABLE) Q (put_conn s i ?c)"
    using assms(2,3) by (intro wp_reregister_client[OF cur]) (simp_all add: begin_response_def)
  then show ?thesis using assms(1)
    by (simp add: queue_response_def wp_if_current wp_update_conn Let_def)
qed

lemma queue_response_safe:
  assumes "rdy.reached s0 s"
    and "\<And>c. current s i = Some c \<Longrightarrow> stage_of (cn_phase c) \<noteq> Relaying True"
  shows "rdy.safe s0 (queue_response sys i response) s"
proof (cases "current s i")
  case None
  then show ?thesis using assms(1) by (simp add: rdy.safe_def queue_response_def wp_if_current)
next
  case (Some c)
  note ok = reached_conn[OF assms(1) Some]
  have "stage_step (cn_phase c) WritingResponse"
    using assms(2)[OF Some] by (cases "cn_phase c") (auto simp: stage_step_def)
  then show ?thesis unfolding rdy.safe_def
    using Some assms(1) ok
    by (intro wp_queue_response[OF Some])
      (auto intro!: reached_put[OF _ Some] reached_removed simp: conn_ok_def split: option.splits)
qed

lemma stage_step_refl [simp]: "stage_step p p"
  by (simp add: stage_step_def)

lemma close_client_safe:
  assumes "rdy.reached s0 s"
  shows "rdy.safe s0 (close_client sys i) s"
proof (cases "current s i")
  case None
  then show ?thesis using assms by (simp add: rdy.safe_def close_client_def wop_simps)
next
  case (Some c)
  have remove: "rdy.safe s0 (remove_connection sys i) s" using assms by (rule remove_connection_safe)
  show ?thesis
  proof (cases "cn_ssl c")
    case None
    with Some remove show ?thesis by (simp add: rdy.safe_def close_client_def wop_simps)
  next
    case (Some session)
    let ?c = "c\<lparr>cn_ssl := Some (session\<lparr>sl_connection := t_send_close_notify sys (sl_connection session)\<rparr>),
      cn_ssl_closing := True\<rparr>"
    note cur = \<open>current s i = Some c\<close>
    have "rdy.reached s0 (put_conn s i ?c)"
      using assms cur reached_conn[OF assms cur] by (intro reached_put) (auto simp: conn_ok_def)
    then have "rdy.safe s0 (reregister_client sys i WRITABLE) (put_conn s i ?c)"
      using cur currentD[OF cur] by (intro reregister_client_safe) simp_all
    with Some cur remove show ?thesis by (simp add: rdy.safe_def close_client_def wop_simps)
  qed
qed

subsection \<open>Streams\<close>

lemma file_chunks_ok: "\<forall>m \<in> set (file_chunks contents pos remaining). message_ok m"
  by (induction contents pos remaining rule: file_chunks.induct)
    (subst file_chunks.simps, auto simp: message_ok_def Let_def)

lemma static_stream_response_ok:
  assumes "static_stream_response fs mime directory request = Inr response" and "ssr_stream response = Some st"
  shows "stream_ok st"
proof -
  obtain path start len where "st = spawn_file_stream fs path start len"
    using assms by (auto simp: static_stream_response_def Let_def split: if_splits sum.splits option.splits prod.splits)
  then show ?thesis using file_chunks_ok
    by (auto simp: stream_ok_def spawn_file_stream_def stream_messages_def message_ok_def split: sum.splits)
qed

lemma producer_step_ok: "producer_step st st' \<Longrightarrow> stream_ok st \<Longrightarrow> stream_ok st'"
  by (induction rule: producer_step.induct) (auto simp: stream_ok_def)

lemma producer_steps_ok: "producer_step\<^sup>*\<^sup>* st st' \<Longrightarrow> stream_ok st \<Longrightarrow> stream_ok st'"
  by (induction rule: rtranclp_induct) (auto intro: producer_step_ok)

lemma try_next_ok:
  "try_next st = (r, st') \<Longrightarrow> stream_ok st \<Longrightarrow>
     stream_ok st' \<and> (\<forall>bs. r = Inr (Data bs) \<longrightarrow> length bs \<le> STREAM_CHUNK_SIZE)"
  by (auto simp: try_next_def stream_ok_def message_ok_def split: list.splits sum.splits if_splits)

lemma queue_static_response_safe:
  fixes sys :: "('w, 'sc, 't) sys"
  assumes "rdy.reached s0 s" and "current s i = Some c" and "stage_of (cn_phase c) \<noteq> Relaying True"
    and "\<And>st. ssr_stream response = Some st \<Longrightarrow> stream_ok st"
  shows "rdy.safe s0 (queue_static_response sys i response) s"
proof -
  let ?c = "c\<lparr>cn_static_stream := ssr_stream response\<rparr>"
  have step: "stage_step (cn_phase c) WritingResponse"
    using assms(3) by (cases "cn_phase c") (auto simp: stage_step_def)
  have cur: "current (put_conn s i ?c) i = Some ?c"
    using assms(2) currentD[OF assms(2)] by simp
  have "wp (queue_response sys i (ssr_head response)) (\<lambda>_. rdy.reached s0) (put_conn s i ?c)"
  proof (rule wp_queue_response[OF cur])
    fix c' :: "'t connection" and w
    assume c': "cn_phase c' = WritingResponse" "cn_generation c' = cn_generation ?c"
      "cn_read_buffer c' = cn_read_buffer ?c" "cn_static_stream c' = cn_static_stream ?c"
      "cn_write_offset c' = 0" "length (cn_write_buffer c') \<le> write_bound (rw_limits (put_conn s i ?c))"
    have "conn_ok (rw_limits s) c'"
      using c' assms(4) reached_conn[OF assms(1,2)] by (auto simp: conn_ok_def split: option.splits)
    with c' step show "rdy.reached s0 ((put_conn (put_conn s i ?c) i c')\<lparr>rw_world := w\<rparr>)"
      using reached_put[OF assms(1,2)] by simp
  next
    show "rdy.reached s0 (removed (put_conn s i ?c) i w)" for w
      using reached_removed[OF assms(1,2)] by simp
  qed
  then show ?thesis using assms(2) by (simp add: rdy.safe_def queue_static_response_def wop_simps)
qed

lemma wp_advance_static_stream:
  assumes "sys_ok sys" and "conn_ok (rw_limits s) c" and "current s i = Some c" and "cn_static_stream c = Some st"
    and keep: "\<And>c' r w. \<lbrakk>conn_ok (rw_limits s) c'; cn_generation c' = cn_generation c; cn_phase c' = cn_phase c;
        cn_static_stream c' \<noteq> None\<rbrakk> \<Longrightarrow> Q r ((put_conn s i c')\<lparr>rw_world := w\<rparr>)"
    and drop: "\<And>m w. Q (Inr ()) ((removed s i w)\<lparr>rw_metrics := m\<rparr>)"
  shows "wp (advance_static_stream sys i) Q s"
proof -
  note cur = assms(3) and ok = assms(2)
  obtain st1 w where p: "k_producer sys st (rw_world s) = (st1, w)" by fastforce
  obtain r st2 where n: "try_next st1 = (r, st2)" by fastforce
  have "producer_step\<^sup>*\<^sup>* st st1" using assms(1) p by (auto simp: sys_ok_def producers_ok_def)
  then have st1: "stream_ok st1" using ok assms(4) by (auto simp: conn_ok_def intro: producer_steps_ok)
  note st2 = try_next_ok[OF n st1]
  let ?c = "c\<lparr>cn_static_stream := Some st2\<rparr>"
  let ?s = "put_conn (s\<lparr>rw_world := w\<rparr>) i ?c"
  have cur': "current ?s i = Some ?c" using cur currentD[OF cur] by simp
  have ok': "conn_ok (rw_limits s) ?c" using ok assms(4) st2 by (auto simp: conn_ok_def)
  have remove: "wp (remove_connection sys i) Q (?s\<lparr>rw_metrics := m\<rparr>)" for m
    by (rule wp_remove_connection) (use cur' drop in simp_all)
  have pending: "wp (reregister_or_fail sys i READABLE) Q ?s"
    by (rule wp_reregister_or_fail[OF cur']) (use keep[OF ok'] in \<open>simp add: put_conn_def\<close>)
  have data: "wp (reregister_or_fail sys i WRITABLE) Q (put_conn ?s i (?c\<lparr>cn_write_buffer := bs, cn_write_offset := 0\<rparr>))"
    if "r = Inr (Data bs)" for bs
  proof (rule wp_reregister_or_fail)
    show "current (put_conn ?s i (?c\<lparr>cn_write_buffer := bs, cn_write_offset := 0\<rparr>)) i
      = Some (?c\<lparr>cn_write_buffer := bs, cn_write_offset := 0\<rparr>)" using cur currentD[OF cur] by simp
    have "conn_ok (rw_limits s) (?c\<lparr>cn_write_buffer := bs, cn_write_offset := 0\<rparr>)"
      using ok' that st2 by (auto simp: conn_ok_def write_bound_def)
    from keep[OF this] show "Q r ((put_conn ?s i (?c\<lparr>cn_write_buffer := bs, cn_write_offset := 0\<rparr>))\<lparr>rw_world := w'\<rparr>)" for r w'
      by (simp add: put_conn_def)
  qed
  note unf = advance_static_stream_def wop_simps
  consider (error) e where "r = Inl e" | (data) bs where "r = Inr (Data bs)" | (pending) "r = Inr Pending"
    | (finished) "r = Inr Finished" by (metis static_chunk.exhaust sum.exhaust)
  then show ?thesis
  proof cases
    case error
    then show ?thesis using remove cur assms(4) p n by (simp add: unf)
  next
    case data
    then show ?thesis using \<open>\<And>bs. r = Inr (Data bs) \<Longrightarrow> _ bs\<close> cur cur' assms(4) p n by (simp add: unf)
  next
    case pending
    then show ?thesis using \<open>wp (reregister_or_fail sys i READABLE) Q ?s\<close> cur assms(4) p n by (simp add: unf)
  next
    case finished
    then show ?thesis using remove cur assms(4) p n by (simp add: unf)
  qed
qed

lemma advance_static_stream_safe:
  assumes "sys_ok sys" and "rdy.reached s0 s" and "current s i = Some c" and "cn_static_stream c \<noteq> None"
  shows "rdy.safe s0 (advance_static_stream sys i) s"
proof -
  obtain st where "cn_static_stream c = Some st" using assms(4) by blast
  then show ?thesis unfolding rdy.safe_def
    using assms reached_conn[OF assms(2,3)]
    by (intro wp_advance_static_stream) (auto intro!: reached_put reached_removed)
qed

lemma current_put_slot:
  "current s i = Some c \<Longrightarrow> current (put_conn s i c') j = (if slot_of j = slot_of i
     then if cn_generation c' = cid_generation j then Some c' else None else current s j)"
  by (drule currentD) (auto simp: current_def put_conn_def slab_get_put slab_get_Some_iff)

lemma advance_each_safe:
  assumes "sys_ok sys" and "rdy.reached s0 s"
    and "\<forall>i \<in> set ids. \<forall>c. current s i = Some c \<longrightarrow> cn_static_stream c \<noteq> None"
  shows "rdy.safe s0 (for_each (advance_static_stream sys) ids) s"
  using assms(2,3)
proof (induction ids arbitrary: s)
  case Nil
  then show ?case by simp
next
  case (Cons i ids)
  show ?case
  proof (cases "current s i")
    case None
    then have "wp (advance_static_stream sys i) Q s = Q (Inr ()) s" for Q
      by (simp add: advance_static_stream_def wop_simps)
    then show ?thesis using Cons by (simp add: rdy.safe_def)
  next
    case (Some c)
    then obtain st where st: "cn_static_stream c = Some st" using Cons.prems(2) by auto
    note IH = Cons.IH[unfolded rdy.safe_def]
    show ?thesis unfolding rdy.safe_def for_each.simps wp_bindq
    proof (rule wp_advance_static_stream[OF assms(1) reached_conn[OF Cons.prems(1) Some] Some st])
      show "on_ok (\<lambda>x. wp (for_each (advance_static_stream sys) ids) (\<lambda>_. rdy.reached s0)) (\<lambda>e. rdy.reached s0) r
          ((put_conn s i c')\<lparr>rw_world := w\<rparr>)"
        if c': "conn_ok (rw_limits s) c'" "cn_generation c' = cn_generation c" "cn_phase c' = cn_phase c"
          "cn_static_stream c' \<noteq> None" for c' r w
      proof -
        have "rdy.reached s0 (put_conn s i c')" using c' by (intro reached_put[OF Cons.prems(1) Some]) simp_all
        moreover from this have "wp (for_each (advance_static_stream sys) ids) (\<lambda>_. rdy.reached s0) ((put_conn s i c')\<lparr>rw_world := w\<rparr>)"
          using c' Cons.prems(2) by (intro IH) (auto simp: current_put_slot[OF Some])
        ultimately show ?thesis by (cases r) simp_all
      qed
      show "on_ok (\<lambda>x. wp (for_each (advance_static_stream sys) ids) (\<lambda>_. rdy.reached s0)) (\<lambda>e. rdy.reached s0)
          (Inr ()) ((removed s i w)\<lparr>rw_metrics := m\<rparr>)" for m w
        using reached_removed[OF Cons.prems(1) Some] Cons.prems(2)
        by (auto intro!: IH simp: current_removed split: if_splits)
    qed
  qed
qed

text \<open>The identities read off the slab are those of its connections.\<close>

lemma slot_of_nat: "i \<le> unat SLOT_MASK \<Longrightarrow> slot_of \<lparr>cid_slot = of_nat i, cid_generation = g\<rparr> = i"
  using unat_bound[of SLOT_MASK] by (simp add: slot_of_def unat_of_nat_small)

lemma connection_ids_current:
  assumes "winv s" and "i \<in> set (connection_ids p s)"
  shows "\<exists>c. current s i = Some c \<and> p (slot_of i) c"
proof -
  obtain k c where k: "slab_get (rw_connections s) k = Some c" "p k c"
    "i = \<lparr>cid_slot = of_nat k, cid_generation = cn_generation c\<rparr>"
    using assms(2) by (auto simp: connection_ids_def)
  with assms(1) have "k \<le> unat SLOT_MASK" by (auto simp: winv_def slot_ok_def)
  with k show ?thesis by (auto simp: current_def slot_of_nat)
qed

lemma pump_static_streams_safe:
  assumes "sys_ok sys" and "rdy.reached s0 s"
  shows "rdy.safe s0 (pump_static_streams sys) s"
proof -
  have "rdy.safe s0 (for_each (advance_static_stream sys) (connection_ids (\<lambda>slot c. cn_static_stream c \<noteq> None
        \<and> cn_write_offset c = length (cn_write_buffer c)) s)) s"
    using assms connection_ids_current[OF rdy.reached_inv[OF assms(2)]]
    by (intro advance_each_safe) fastforce+
  then show ?thesis by (simp add: rdy.safe_def pump_static_streams_def)
qed

end
