(* ===== verification/Readiness_Safety.thy ===== *)
theory Readiness_Safety
  imports Readiness_Invariant
begin

text \<open>
  Every operation of the readiness worker is safe: it does not panic, keeps the invariant and follows
  the life cycle. One lemma per operation, composed up to an iteration of the event loop.
\<close>

section \<open>The upstream side\<close>

lemma wp_of_proxy:
  "proxy_of c = Some x \<longleftrightarrow> cn_phase c = Proxying x" "is_proxying c \<longleftrightarrow> proxy_of c \<noteq> None"
  by (auto simp: phase_query_defs split: connection_phase.splits)

lemma fail_proxy_safe:
  assumes "rdy.reached s0 s"
  shows "rdy.safe s0 (fail_proxy sys i status message) s"
proof (cases "current s i")
  case None
  then show ?thesis using assms by (simp add: rdy.safe_def fail_proxy_def wop_simps)
next
  case (Some c)
  note ok = reached_conn[OF assms Some]
  define c' where "c' = snd (detach_proxy c)"
  have gen: "cn_generation c' = cn_generation c" by (simp add: c'_def detach_proxy_def split: connection_phase.splits)
  have cur': "current (put_conn s i c') i = Some c'" using Some gen currentD[OF Some] by simp
  let ?clear = "\<lambda>s. s\<lparr>rw_pending_upstream_reads := rw_pending_upstream_reads s - {i},
         rw_pending_upstream_writes := rw_pending_upstream_writes s - {i}\<rparr>"
  have remove: "rdy.safe s0 (remove_connection sys i) (?clear ((put_conn s i c')\<lparr>rw_world := w\<rparr>))" for w
    unfolding rdy.safe_def
  proof (rule wp_remove_connection)
    show "rdy.reached s0 (removed (?clear ((put_conn s i c')\<lparr>rw_world := w\<rparr>)) i w')" for w'
      using reached_removed[OF assms Some] by simp
  qed (simp add: cur')
  have respond: "rdy.safe s0 (queue_response sys i r) (?clear ((put_conn s i c')\<lparr>rw_world := w\<rparr>))"
    if x: "proxy_of c = Some x" "\<not> px_response_started x" for x r w
  proof -
    have ph: "cn_phase c = Proxying x" "cn_phase c' = WritingResponse" "c' = c\<lparr>cn_phase := WritingResponse\<rparr>"
      using x by (auto simp: c'_def detach_proxy_def phase_query_defs split: connection_phase.splits)
    have "rdy.reached s0 (put_conn s i c')"
      using assms Some ok x ph gen by (intro reached_put) (auto simp: conn_ok_def stage_step_def)
    then show ?thesis using ph(2) cur' by (intro queue_response_safe) simp_all
  qed
  have d: "detach_proxy c = (proxy_of c, c')"
    by (auto simp: c'_def detach_proxy_def proxy_of_def split: connection_phase.splits)
  have "(put_conn s i c')\<lparr>rw_world := rw_world s\<rparr> = put_conn s i c'" by (simp add: put_conn_def)
  with remove[of "rw_world s"] have "rdy.safe s0 (remove_connection sys i) (?clear (put_conn s i c'))" by simp
  with remove respond show ?thesis
    using Some d
    by (cases "proxy_of c") (auto simp: rdy.safe_def fail_proxy_def wop_simps)
qed

lemma update_proxy_Proxying: "cn_phase c = Proxying x \<Longrightarrow> update_proxy f c = c\<lparr>cn_phase := Proxying (f x)\<rparr>"
  by (simp add: update_proxy_def)

lemma reached_put_proxy:
  assumes "rdy.reached s0 s" and "current s i = Some c" and "cn_phase c = Proxying x"
    and "phase_ok (rw_limits s) (Proxying x')" and "px_response_started x' = px_response_started x"
  shows "rdy.reached s0 (put_conn s i (c\<lparr>cn_phase := Proxying x'\<rparr>))"
  using assms reached_conn[OF assms(1,2)]
  by (intro reached_put) (auto simp: conn_ok_def stage_step_def)

lemma mark_upstream_eof_safe:
  assumes "rdy.reached s0 s"
  shows "rdy.safe s0 (mark_upstream_eof sys i) s"
proof (cases "current s i")
  case None
  then show ?thesis using assms by (simp add: rdy.safe_def mark_upstream_eof_def wop_simps)
next
  case (Some c)
  note ok = reached_conn[OF assms Some]
  show ?thesis
  proof (cases "proxy_of c")
    case None
    then show ?thesis using Some assms remove_connection_safe[OF assms]
      by (simp add: rdy.safe_def mark_upstream_eof_def wop_simps)
  next
    case (Some x)
    then have x: "cn_phase c = Proxying x" by (simp add: wp_of_proxy)
    let ?c = "c\<lparr>cn_phase := Proxying (x\<lparr>px_upstream_eof := True\<rparr>)\<rparr>"
    note cur = \<open>current s i = Some c\<close>
    have s: "rdy.reached s0 (put_conn s i ?c)"
      using ok x by (intro reached_put_proxy[OF assms cur x]) (auto simp: conn_ok_def)
    have cur': "current (put_conn s i ?c) i = Some ?c" using cur currentD[OF cur] by simp
    have "rdy.safe s0 (remove_connection sys i) ((put_conn s i ?c)\<lparr>rw_world := w\<rparr>)" for w
      using s by (intro remove_connection_safe) simp
    with s Some cur cur' x show ?thesis
      by (simp add: rdy.safe_def mark_upstream_eof_def wop_simps update_proxy_Proxying)
  qed
qed

lemma wp_read_uninterrupted:
  assumes "sys_ok sys" and "\<And>r w. (\<And>bs. r = Inr bs \<Longrightarrow> length bs \<le> n) \<Longrightarrow> Q (Inr r) (s\<lparr>rw_world := w\<rparr>)"
    and "k_bound sys (rw_world s) < fuel"
  shows "wp (read_uninterrupted sys fuel fd n) Q s"
  using assms(2,3)
proof (induction fuel arbitrary: s)
  case 0
  then show ?case by simp
next
  case (Suc fuel)
  obtain r w where r: "k_read sys fd n (rw_world s) = (r, w)" by fastforce
  have len: "r = Inr bs \<Longrightarrow> length bs \<le> n" for bs using read_length[OF assms(1)] r by blast
  show ?case
  proof (cases "\<exists>e. r = Inl e \<and> kind e = KInterrupted")
    case True
    then obtain e where e: "r = Inl e" "kind e = KInterrupted" by blast
    then have "k_bound sys w < k_bound sys (rw_world s)"
      using assms(1) r by (auto simp: sys_ok_def bounded_ok_def)
    then have "wp (read_uninterrupted sys fuel fd n) Q (s\<lparr>rw_world := w\<rparr>)"
      using Suc.prems by (intro Suc.IH) simp_all
    then show ?thesis using r e by (simp add: wop_simps)
  next
    case False
    then show ?thesis using r len Suc.prems(1)[of r w] by (cases r) (auto simp: wop_simps)
  qed
qed

lemma read_upstream_response_safe:
  assumes "sys_ok sys" and "rdy.reached s0 s"
  shows "rdy.safe s0 (read_upstream_response sys i) s"
proof (cases "\<exists>c x. current s i = Some c \<and> cn_phase c = Proxying x \<and> cn_write_buffer c = []
    \<and> px_phase x = ReadingResponse")
  case False
  then consider (gone) "current s i = None"
    | (other) c where "current s i = Some c" "proxy_of c = None"
    | (busy) c x where "current s i = Some c" "proxy_of c = Some x" "cn_write_buffer c \<noteq> [] \<or> px_phase x \<noteq> ReadingResponse"
    by (metis not_None_eq wp_of_proxy(1))
  then show ?thesis
    by cases (use assms(2) in \<open>auto simp: rdy.safe_def read_upstream_response_def current_with_def is_current_iff wp_of_proxy(2)\<close>)
next
  case True
  then obtain c x where c: "current s i = Some c" "cn_phase c = Proxying x" "cn_write_buffer c = []"
    "px_phase x = ReadingResponse" by blast
  let ?n = "min READ_BUFFER_SIZE (unat (wl_max_write_buffer_size (rw_limits s)))"
  note ok = reached_conn[OF assms(2) c(1)]
  have eof: "rdy.safe s0 (mark_upstream_eof sys i) (s\<lparr>rw_world := w\<rparr>)"
    and fail: "rdy.safe s0 (fail_proxy sys i 502 m) (s\<lparr>rw_world := w\<rparr>)" for w m
    using assms(2) by (simp_all add: mark_upstream_eof_safe fail_proxy_safe)
  let ?x = "\<lambda>t. x\<lparr>px_response_started := True, px_phase_progress_at := t\<rparr>"
  let ?c = "\<lambda>bs t t'. c\<lparr>cn_phase := Proxying (?x t), cn_write_buffer := bs, cn_write_offset := 0,
    cn_last_progress := t'\<rparr>"
  have relay: "rdy.safe s0 (reregister_client sys i WRITABLE) ((put_conn s i (?c bs t t'))\<lparr>rw_world := w, rw_metrics := m\<rparr>)"
    if "length bs \<le> ?n" for bs t t' w m
  proof (rule reregister_client_safe)
    show "current ((put_conn s i (?c bs t t'))\<lparr>rw_world := w, rw_metrics := m\<rparr>) i = Some (?c bs t t')"
      using c(1) currentD[OF c(1)] by simp
    have "rdy.reached s0 (put_conn s i (?c bs t t'))"
      using that c ok by (intro reached_put[OF assms(2) c(1)])
        (auto simp: conn_ok_def stage_step_def write_bound_def)
    then show "rdy.reached s0 ((put_conn s i (?c bs t t'))\<lparr>rw_world := w, rw_metrics := m\<rparr>)" by simp
  qed
  have skip: "\<not> (\<not> is_current s i \<or> current_with s i (\<lambda>c. \<not> is_proxying c)
       \<or> current_with s i (\<lambda>c. cn_write_buffer c \<noteq> [])
       \<or> current_with s i (\<lambda>c. case proxy_of c of Some x \<Rightarrow> px_phase x \<noteq> ReadingResponse | None \<Rightarrow> False))"
    using c by (simp add: current_with_def is_current_iff phase_query_defs)
  have x: "proxy_of c = Some x" using c(2) by (simp add: proxy_of_def)
  have after: "rdy.safe s0 (after_upstream_read sys i r) (s\<lparr>rw_world := w\<rparr>)"
    if "\<And>bs. r = Inr bs \<Longrightarrow> length bs \<le> ?n" for r w
  proof -
    consider (err) e where "r = Inl e" | (eof) "r = Inr []" | (data) b bs where "r = Inr (b # bs)"
      by (metis list.exhaust sum.exhaust)
    then show ?thesis
    proof cases
      case err
      then show ?thesis using fail assms(2) by (simp add: after_upstream_read_def rdy.safe_def)
    next
      case eof
      then show ?thesis using \<open>\<And>w. rdy.safe s0 (mark_upstream_eof sys i) _\<close> by (simp add: after_upstream_read_def)
    next
      case data
      then show ?thesis using relay[of "b # bs"] that c(1-3) currentD[OF c(1)]
        by (simp add: after_upstream_read_def rdy.safe_def wop_simps update_proxy_Proxying record_progress_def)
    qed
  qed
  have "wp (read_uninterrupted sys (Suc (k_bound sys (rw_world s))) (px_upstream x) ?n)
     (on_ok (\<lambda>r. wp (after_upstream_read sys i r) (\<lambda>_. rdy.reached s0)) (\<lambda>_. rdy.reached s0)) s"
    using after by (intro wp_read_uninterrupted[OF assms(1)]) (simp_all add: rdy.safe_def)
  then show ?thesis using skip c(1) x
    unfolding rdy.safe_def read_upstream_response_def
    by (simp add: wop_simps)
qed

text \<open>Sending the request: the connection stays and its offset stays within the buffer.\<close>

definition sending :: "('w, 'sc, 't) readiness_worker \<Rightarrow> connection_id \<Rightarrow> (proxy_state \<Rightarrow> bool) \<Rightarrow> bool" where
  "sending s i p \<longleftrightarrow> (\<exists>c x. current s i = Some c \<and> cn_phase c = Proxying x \<and> px_phase x = WritingRequest \<and> p x)"

lemma wp_upstream_write_loop:
  assumes "sys_ok sys" and "rdy.reached s0 s" and "sending s i (\<lambda>_. True)"
  shows "wp (upstream_write_loop sys i n progress) (\<lambda>r s'. rdy.reached s0 s' \<and> sending s' i (\<lambda>x.
     \<forall>f p. r = Inr (UpstreamStopped f True p) \<longrightarrow> px_request_offset x = length (px_request_buffer x))) s"
  using assms(2,3)
proof (induction n arbitrary: s progress)
  case 0
  then show ?case by (simp add: sending_def)
next
  case (Suc n)
  obtain c x where c: "current s i = Some c" "cn_phase c = Proxying x" "px_phase x = WritingRequest"
    using Suc.prems(2) by (auto simp: sending_def)
  have x: "proxy_of c = Some x" using c(2) by (simp add: proxy_of_def)
  have ok: "phase_ok (rw_limits s) (Proxying x)" "px_request_offset x \<le> length (px_request_buffer x)"
    using reached_conn[OF Suc.prems(1) c(1)] c(2) by (auto simp: conn_ok_def)
  obtain r w where r: "k_write sys (px_upstream x) (drop (px_request_offset x) (px_request_buffer x)) (rw_world s) = (r, w)"
    by fastforce
  let ?Q = "\<lambda>r s'. rdy.reached s0 s' \<and> sending s' i (\<lambda>x.
      \<forall>f p. r = Inr (UpstreamStopped f True p) \<longrightarrow> px_request_offset x = length (px_request_buffer x))"
  have IH: "wp (upstream_write_loop sys i n b) ?Q t"
    if "rdy.reached s0 t" "sending t i (\<lambda>_. True)" for b t
    using that by (rule Suc.IH)
  have stay: "rdy.reached s0 (s\<lparr>rw_world := w\<rparr>)" "sending (s\<lparr>rw_world := w\<rparr>) i (\<lambda>_. True)" "sending s i (\<lambda>_. True)"
    using Suc.prems by (auto simp: sending_def)
  let ?x = "\<lambda>k t. x\<lparr>px_request_offset := px_request_offset x + k, px_phase_progress_at := t\<rparr>"
  have more: "rdy.reached s0 (put_conn s i (c\<lparr>cn_phase := Proxying (?x k t)\<rparr>))"
    "sending ((put_conn s i (c\<lparr>cn_phase := Proxying (?x k t)\<rparr>))\<lparr>rw_world := w'\<rparr>) i (\<lambda>_. True)" if "r = Inr k" for k t w'
  proof -
    have "k \<le> length (px_request_buffer x) - px_request_offset x"
      using write_length[OF assms(1)] r that by fastforce
    then show "rdy.reached s0 (put_conn s i (c\<lparr>cn_phase := Proxying (?x k t)\<rparr>))"
      using ok c by (intro reached_put_proxy[OF Suc.prems(1) c(1,2)]) auto
    show "sending ((put_conn s i (c\<lparr>cn_phase := Proxying (?x k t)\<rparr>))\<lparr>rw_world := w'\<rparr>) i (\<lambda>_. True)"
      using c currentD[OF c(1)] by (simp add: sending_def)
  qed
  show ?case
  proof (cases "px_request_offset x = length (px_request_buffer x)")
    case True
    then show ?thesis using c x Suc.prems(1) by (auto simp: wop_simps sending_def)
  next
    case False
    then show ?thesis
    proof (cases r)
      case (Inl e)
      then show ?thesis using False c x ok r IH[OF stay(1,2)] stay by (auto simp: wop_simps sending_def)
    next
      case (Inr k)
      have "wp (upstream_write_loop sys i n True) ?Q ((put_conn s i (c\<lparr>cn_phase := Proxying (?x k t)\<rparr>))\<lparr>rw_world := w'\<rparr>)"
        for t w' using more[OF Inr] by (intro IH) simp_all
      then show ?thesis using Inr False c x ok r stay Suc.prems(1)
        by (simp add: wop_simps update_proxy_Proxying record_progress_def)
    qed
  qed
qed

lemma finish_connect_wp:
  assumes "rdy.reached s0 s" and "current s i = Some c" and "cn_phase c = Proxying x" and "px_phase x \<noteq> ReadingResponse"
  shows "wp (finish_connect sys i) (\<lambda>r s'. rdy.reached s0 s' \<and>
      (\<forall>f. r = Inr f \<longrightarrow> (if f = None then sending s' i (\<lambda>_. True) else current s' i = Some c))) s"
proof -
  have x: "proxy_of c = Some x" using assms(3) by (simp add: proxy_of_def)
  let ?c = "\<lambda>t. c\<lparr>cn_phase := Proxying (x\<lparr>px_phase := WritingRequest, px_phase_progress_at := t\<rparr>)\<rparr>"
  have "rdy.reached s0 (put_conn s i (?c t))" if "px_phase x = Connecting" for t
    using assms reached_conn[OF assms(1,2)] that by (intro reached_put_proxy) (auto simp: conn_ok_def)
  moreover have "sending ((put_conn s i (?c t))\<lparr>rw_world := w\<rparr>) i (\<lambda>_. True)" for t w
    using assms(2) currentD[OF assms(2)] by (simp add: sending_def)
  moreover have "sending s i (\<lambda>_. True)" if "px_phase x \<noteq> Connecting"
    using assms that by (cases "px_phase x") (auto simp: sending_def)
  ultimately show ?thesis using assms x
    by (auto simp: finish_connect_def wop_simps update_proxy_Proxying transition_def on_ok_def
        split: sum.splits option.splits)
qed

lemma after_upstream_write_safe:
  assumes "rdy.reached s0 s" and "failed = None \<Longrightarrow> sending s i (\<lambda>x. finished \<longrightarrow> px_request_offset x = length (px_request_buffer x))"
  shows "rdy.safe s0 (after_upstream_write sys i failed finished progress) s"
proof -
  let ?touch = "if progress then if_current i (bindq (syscall (k_now sys)) (\<lambda>now.
         update_conn i (\<lambda>c. c\<lparr>cn_last_progress := now\<rparr>))) else ok ()"
  have touch: "wp ?touch (\<lambda>r s'. rdy.reached s0 s' \<and> (failed = None \<longrightarrow>
      sending s' i (\<lambda>x. finished \<longrightarrow> px_request_offset x = length (px_request_buffer x)))) s"
  proof (cases "current s i")
    case None
    then show ?thesis using assms by (simp add: wop_simps)
  next
    case (Some c)
    have "rdy.reached s0 (put_conn s i (c\<lparr>cn_last_progress := t\<rparr>))" for t
      using reached_conn[OF assms(1) Some] by (intro reached_put[OF assms(1) Some]) (auto simp: conn_ok_def)
    moreover have "current ((put_conn s i (c\<lparr>cn_last_progress := t\<rparr>))\<lparr>rw_world := w\<rparr>) i = Some (c\<lparr>cn_last_progress := t\<rparr>)" for t w
      using Some currentD[OF Some] by simp
    ultimately show ?thesis using assms Some
      by (auto simp: wop_simps sending_def)
  qed
  have finish: "wp (await_response sys i) (\<lambda>_. rdy.reached s0) t"
    if t: "rdy.reached s0 t" "sending t i (\<lambda>x. px_request_offset x = length (px_request_buffer x))" for t
  proof -
    obtain c x where c: "current t i = Some c" "cn_phase c = Proxying x" "px_phase x = WritingRequest"
      "px_request_offset x = length (px_request_buffer x)" using t(2) by (auto simp: sending_def)
    have x: "proxy_of c = Some x" using c(2) by (simp add: proxy_of_def)
    let ?t = "\<lambda>k. put_conn t i (c\<lparr>cn_phase := Proxying (x\<lparr>px_phase := ReadingResponse, px_phase_progress_at := k\<rparr>)\<rparr>)"
    have r: "rdy.reached s0 (?t k)" for k
      using c reached_conn[OF t(1) c(1)] by (intro reached_put_proxy[OF t(1) c(1,2)]) (auto simp: conn_ok_def)
    have "wp (fail_proxy sys i 502 m) (\<lambda>_. rdy.reached s0) ((?t k)\<lparr>rw_world := w\<rparr>)" for k w m
      using fail_proxy_safe[of s0 "(?t k)\<lparr>rw_world := w\<rparr>"] r by (simp add: rdy.safe_def)
    with r c x show ?thesis
      by (auto simp: await_response_def wop_simps update_proxy_Proxying transition_def on_ok_def split: sum.splits)
  qed
  show ?thesis unfolding rdy.safe_def after_upstream_write_def wp_bindq[of ?touch]
  proof (rule wp_mono[OF touch])
    fix r s' assume s': "rdy.reached s0 s' \<and> (failed = None \<longrightarrow>
      sending s' i (\<lambda>x. finished \<longrightarrow> px_request_offset x = length (px_request_buffer x)))"
    have "wp (fail_proxy sys i 502 m) (\<lambda>_. rdy.reached s0) s'" for m
      using fail_proxy_safe[of s0 s'] s' by (simp add: rdy.safe_def)
    with s' finish[of s'] show "on_ok (\<lambda>_. wp (case failed of
         Some _ \<Rightarrow> fail_proxy sys i 502 ''upstream connection failed''
       | None \<Rightarrow> if finished then await_response sys i
           else modify (\<lambda>s. s\<lparr>rw_pending_upstream_writes := insert i (rw_pending_upstream_writes s)\<rparr>))
        (\<lambda>_. rdy.reached s0)) (\<lambda>e. rdy.reached s0) r s'"
      by (cases r; cases failed; cases finished) simp_all
  qed
qed

lemma send_upstream_safe:
  assumes "sys_ok sys" and "rdy.reached s0 s" and "sending s i (\<lambda>_. True)"
  shows "rdy.safe s0 (send_upstream sys i None) s"
proof -
  obtain c x where c: "current s i = Some c" "proxy_of c = Some x" "px_phase x = WritingRequest"
    using assms(3) by (auto simp: sending_def wp_of_proxy)
  have stopped: "wp (bindq (index_conn i) (\<lambda>c. case proxy_of c of None \<Rightarrow> panic | Some x \<Rightarrow>
      after_upstream_write sys i f (fin \<or> px_request_offset x = length (px_request_buffer x)) p)) (\<lambda>_. rdy.reached s0) t"
    if t: "rdy.reached s0 t" "sending t i (\<lambda>x. fin \<longrightarrow> px_request_offset x = length (px_request_buffer x))" for f fin p t
  proof -
    obtain d y where d: "current t i = Some d" "cn_phase d = Proxying y" "px_phase y = WritingRequest"
      "fin \<longrightarrow> px_request_offset y = length (px_request_buffer y)"
      using t(2) by (auto simp: sending_def)
    have "rdy.safe s0 (after_upstream_write sys i f (fin \<or> px_request_offset y = length (px_request_buffer y)) p) t"
      using t(1) d by (intro after_upstream_write_safe) (auto simp: sending_def)
    with d show ?thesis by (simp add: wop_simps rdy.safe_def wp_of_proxy(1)[THEN iffD2])
  qed
  have "wp (upstream_write_loop sys i MAX_WRITES_PER_EVENT False) (on_ok (\<lambda>w. wp (case w of
              UpstreamBlocked \<Rightarrow> ok ()
            | UpstreamStopped failed finished progress \<Rightarrow>
                bindq (index_conn i) (\<lambda>c. case proxy_of c of None \<Rightarrow> panic | Some x \<Rightarrow>
                after_upstream_write sys i failed
                  (finished \<or> px_request_offset x = length (px_request_buffer x)) progress)) (\<lambda>_. rdy.reached s0))
     (\<lambda>_. rdy.reached s0)) s"
  proof (rule wp_mono[OF wp_upstream_write_loop[OF assms]], goal_cases)
    case (1 r t)
    consider (e) e where "r = Inl e" | (blocked) "r = Inr UpstreamBlocked"
      | (halted) f fin p where "r = Inr (UpstreamStopped f fin p)"
      by (metis sum.exhaust upstream_write.exhaust)
    then show ?case
    proof cases
      case halted
      then have "sending t i (\<lambda>x. fin \<longrightarrow> px_request_offset x = length (px_request_buffer x))"
        using 1 by (auto simp: sending_def)
      with halted 1 stopped[of t fin f p] show ?thesis by (simp del: wp_bindq)
    qed (use 1 in simp_all)
  qed
  with c show ?thesis by (simp add: send_upstream_def rdy.safe_def wop_simps)
qed

lemma write_upstream_request_safe:
  assumes "sys_ok sys" and "rdy.reached s0 s"
  shows "rdy.safe s0 (write_upstream_request sys i) s"
proof (cases "\<exists>c x. current s i = Some c \<and> cn_phase c = Proxying x \<and> px_phase x \<noteq> ReadingResponse")
  case False
  then consider (gone) "current s i = None"
    | (other) c where "current s i = Some c" "proxy_of c = None"
    | (reading) c x where "current s i = Some c" "proxy_of c = Some x" "px_phase x = ReadingResponse"
    by (metis not_None_eq wp_of_proxy(1))
  then show ?thesis
    by cases (use assms(2) in \<open>auto simp: rdy.safe_def write_upstream_request_def current_with_def wop_simps wp_of_proxy(2)\<close>)
next
  case True
  then obtain c x where c: "current s i = Some c" "cn_phase c = Proxying x" "px_phase x \<noteq> ReadingResponse" by blast
  have x: "proxy_of c = Some x" "is_proxying c" using c(2) by (simp_all add: phase_query_defs)
  have "wp (finish_connect sys i) (on_ok (\<lambda>f. wp (send_upstream sys i f) (\<lambda>_. rdy.reached s0)) (\<lambda>_. rdy.reached s0)) s"
  proof (rule wp_mono[OF finish_connect_wp[OF assms(2) c]], goal_cases)
    case (1 r t)
    show ?case
    proof (cases r)
      case (Inl e)
      then show ?thesis using 1 by simp
    next
      case (Inr f)
      show ?thesis
      proof (cases f)
        case None
        then show ?thesis using 1 Inr send_upstream_safe[OF assms(1), of s0 t i] by (simp add: rdy.safe_def)
      next
        case (Some e)
        have "rdy.safe s0 (after_upstream_write sys i f False False) t"
          using 1 Some by (intro after_upstream_write_safe) simp_all
        with 1 Inr Some x show ?thesis by (simp add: send_upstream_def rdy.safe_def wop_simps)
      qed
    qed
  qed
  with c x show ?thesis
    by (simp add: write_upstream_request_def current_with_def rdy.safe_def wop_simps)
qed

section \<open>Resolution\<close>

lemma wp_start_proxy:
  assumes "rdy.reached s0 s" and "current s i = Some c" and "stage_of (cn_phase c) = Receiving"
  shows "wp (start_proxy sys i upstream_url request body) (\<lambda>_ s'. rdy.reached s0 s' \<and>
     (\<forall>c'. current s' i = Some c' \<longrightarrow> stage_of (cn_phase c') \<noteq> Relaying True)) s"
proof -
  have idle: "\<forall>c'. current s i = Some c' \<longrightarrow> stage_of (cn_phase c') \<noteq> Relaying True" using assms by simp
  obtain p where p: "cn_phase c = Reading p" using assms(3) by (cases "cn_phase c") auto
  let ?c = "\<lambda>rb t. c\<lparr>cn_phase := Resolving \<lparr>rs_request_buffer = rb, rs_started_at = t\<rparr>\<rparr>"
  have "rdy.reached s0 (put_conn s i (?c rb t))" if "length rb \<le> unat (wl_max_read_buffer_size (rw_limits s))" for rb t
    using assms(1,2) p reached_conn[OF assms(1,2)] that
    by (intro reached_put) (auto simp: conn_ok_def stage_step_def)
  moreover have "current (put_conn s i (?c rb t)) i = Some (?c rb t)" for rb t
    using assms(2) currentD[OF assms(2)] by simp
  ultimately show ?thesis using assms(1,2) idle
    by (auto simp: start_proxy_def wop_simps begin_resolving_def not_less split: sum.splits)
qed

lemma fail_resolution_safe:
  assumes "rdy.reached s0 s"
  shows "rdy.safe s0 (fail_resolution sys i status message) s"
proof -
  have "rdy.safe s0 (queue_response sys i (response_bytes status message)) s" if "current_with s i is_resolving"
    using assms that by (intro queue_response_safe)
      (auto simp: current_with_def is_resolving_def split: option.splits connection_phase.splits)
  then show ?thesis using assms by (simp add: fail_resolution_def rdy.safe_def)
qed

lemma connect_upstream_wp:
  assumes "rdy.reached s0 s" and "current s i = Some c" and "cn_phase c = Resolving r"
    and "length request_buffer \<le> unat (wl_max_read_buffer_size (rw_limits s))"
  shows "wp (connect_upstream sys i address request_buffer) (\<lambda>_. rdy.reached s0)
    (put_conn s i (c\<lparr>cn_phase := WritingResponse\<rparr>))"
proof -
  let ?c = "c\<lparr>cn_phase := WritingResponse\<rparr>"
  note ok = reached_conn[OF assms(1,2)]
  have cur: "current (put_conn s i ?c) i = Some ?c" using assms(2) currentD[OF assms(2)] by simp
  have s: "rdy.reached s0 (put_conn s i ?c)"
    using assms ok by (intro reached_put[OF assms(1,2)]) (auto simp: conn_ok_def stage_step_def)
  have fail: "wp (queue_response sys i m) (\<lambda>_. rdy.reached s0) ((put_conn s i ?c)\<lparr>rw_world := w\<rparr>)" for m w
    using queue_response_safe[of s0 "(put_conn s i ?c)\<lparr>rw_world := w\<rparr>" i] s cur by (simp add: rdy.safe_def)
  have "rdy.reached s0 (put_conn s i (c\<lparr>cn_phase := Proxying (proxy_state_new t socket request_buffer)\<rparr>))" for t socket
    using assms ok by (intro reached_put[OF assms(1,2)]) (auto simp: conn_ok_def stage_step_def proxy_state_new_def)
  with s fail cur show ?thesis
    by (auto simp: connect_upstream_def wop_simps begin_proxy_def on_ok_def split: sum.splits)
qed

lemma finish_resolution_safe:
  assumes "rdy.reached s0 s"
  shows "rdy.safe s0 (finish_resolution sys result) s"
proof (cases "current_with s (rr_connection_id result) is_resolving")
  case False
  then show ?thesis using assms by (simp add: finish_resolution_def rdy.safe_def Let_def)
next
  case True
  let ?i = "rr_connection_id result"
  obtain c r where c: "current s ?i = Some c" "cn_phase c = Resolving r"
    using True by (auto simp: current_with_def is_resolving_def split: option.splits connection_phase.splits)
  have fail: "wp (fail_resolution sys ?i 502 m) (\<lambda>_. rdy.reached s0) s" for m
    using fail_resolution_safe[OF assms] by (simp add: rdy.safe_def)
  have "length (rs_request_buffer r) \<le> unat (wl_max_read_buffer_size (rw_limits s))"
    using reached_conn[OF assms c(1)] c(2) by (simp add: conn_ok_def)
  note connect = connect_upstream_wp[OF assms c this]
  have take: "take_resolution c = (Some r, c\<lparr>cn_phase := WritingResponse\<rparr>)"
    using c(2) by (simp add: take_resolution_def)
  show ?thesis using True c(1) fail connect take
    by (auto simp: finish_resolution_def rdy.safe_def wop_simps split: sum.splits list.splits)
qed

lemma process_dns_results_safe:
  assumes "rdy.reached s0 s"
  shows "rdy.safe s0 (process_dns_results sys) s"
proof -
  have "rdy.safe s0 (for_each (finish_resolution sys) results) (s\<lparr>rw_world := w, rw_resolver := r\<rparr>)" for results w r
    using assms by (intro rdy.safe_for_each finish_resolution_safe) simp_all
  then show ?thesis by (simp add: process_dns_results_def rdy.safe_def wop_simps)
qed

section \<open>Writing to the client\<close>

lemma put_same: "current s i = Some c \<Longrightarrow> put_conn s i c = s"
  by (drule currentD) (auto simp: put_conn_def slab_get_Some_iff list_update_same_conv)

lemma wp_set_session:
  "current s i = Some c \<Longrightarrow> wp (set_session i t) Q s = Q (Inr ()) (put_conn s i (c\<lparr>cn_ssl :=
     map_option (\<lambda>session. session\<lparr>sl_connection := t\<rparr>) (cn_ssl c)\<rparr>))"
  by (simp add: set_session_def wp_update_conn)

lemma wp_write_some:
  assumes "sys_ok sys" and "current s i = Some c" and "cn_write_offset c \<le> length (cn_write_buffer c)"
    and step: "\<And>r ses w. (\<And>k. r = Inr k \<Longrightarrow> app \<Longrightarrow> cn_write_offset c + k \<le> length (cn_write_buffer c))
      \<Longrightarrow> Q (Inr r) ((put_conn s i (c\<lparr>cn_ssl := ses\<rparr>))\<lparr>rw_world := w\<rparr>)"
  shows "wp (write_some sys i c app) Q s"
proof (cases "cn_ssl c")
  case None
  obtain r w where r: "k_write sys (cn_socket c) (drop (cn_write_offset c) (cn_write_buffer c)) (rw_world s) = (r, w)" by fastforce
  have "r = Inr k \<Longrightarrow> cn_write_offset c + k \<le> length (cn_write_buffer c)" for k
    using write_length[OF assms(1)] r assms(3) by fastforce
  from step[OF this, where ses = "cn_ssl c" and w = w] have "Q (Inr r) (s\<lparr>rw_world := w\<rparr>)"
    using assms(2) by (simp add: put_same)
  with None r assms(3) show ?thesis by (simp add: write_some_def wop_simps)
next
  case (Some session)
  let ?c = "\<lambda>t. c\<lparr>cn_ssl := Some (session\<lparr>sl_connection := t\<rparr>)\<rparr>"
  obtain r t where r: "t_writer_write sys (sl_connection session) (drop (cn_write_offset c) (cn_write_buffer c)) = (r, t)"
    by fastforce
  have "r = Inr k \<Longrightarrow> cn_write_offset c + k \<le> length (cn_write_buffer c)" for k
    using writer_write_length[OF assms(1)] r assms(3) by fastforce
  from step[OF this, where ses = "Some (session\<lparr>sl_connection := t\<rparr>)" and w = "rw_world s"]
  have "Q (Inr r) (put_conn s i (?c t))" by (simp add: put_conn_def)
  moreover have "Q (Inr r) ((put_conn s i (?c t))\<lparr>rw_world := w\<rparr>)" if "\<not> app" for r t w
    using step[where r = r and ses = "Some (session\<lparr>sl_connection := t\<rparr>)" and w = w] that by simp
  ultimately show ?thesis using Some r assms(2)
    by (auto simp: write_some_def wop_simps wp_set_session)
qed

lemma write_loop_safe:
  assumes "sys_ok sys" and "rdy.reached s0 s" and "current s i = Some c"
  shows "rdy.safe s0 (write_loop sys i n) s"
  using assms(2,3)
proof (induction n arbitrary: s c)
  case 0
  then show ?case by simp
next
  case (Suc n)
  note ok = reached_conn[OF Suc.prems]
  have off: "cn_write_offset c \<le> length (cn_write_buffer c)" using ok by (simp add: conn_ok_def)
  have put: "rdy.reached s0 (put_conn s i c')"
      "current (((put_conn s i c')\<lparr>rw_metrics := m\<rparr>)\<lparr>rw_world := w\<rparr>) i = Some c'"
      "current ((put_conn s i c')\<lparr>rw_world := w\<rparr>) i = Some c'"
      "wp (write_loop sys i n) (\<lambda>_. rdy.reached s0) (((put_conn s i c')\<lparr>rw_metrics := m\<rparr>)\<lparr>rw_world := w\<rparr>)"
      "wp (write_loop sys i n) (\<lambda>_. rdy.reached s0) ((put_conn s i c')\<lparr>rw_world := w\<rparr>)"
    if "conn_ok (rw_limits s) c'" "cn_generation c' = cn_generation c" "cn_phase c' = cn_phase c" for c' m w
  proof -
    from that
    show r: "rdy.reached s0 (put_conn s i c')"
      and cur: "current (((put_conn s i c')\<lparr>rw_metrics := m\<rparr>)\<lparr>rw_world := w\<rparr>) i = Some c'"
        "current ((put_conn s i c')\<lparr>rw_world := w\<rparr>) i = Some c'"
      using Suc.prems currentD[OF Suc.prems(2)] by (auto intro: reached_put)
    from r cur show "wp (write_loop sys i n) (\<lambda>_. rdy.reached s0) (((put_conn s i c')\<lparr>rw_metrics := m\<rparr>)\<lparr>rw_world := w\<rparr>)"
      "wp (write_loop sys i n) (\<lambda>_. rdy.reached s0) ((put_conn s i c')\<lparr>rw_world := w\<rparr>)"
      by (auto intro!: Suc.IH[unfolded rdy.safe_def])
  qed
  have oks: "conn_ok (rw_limits s) (c\<lparr>cn_ssl := ses\<rparr>)" "conn_ok (rw_limits s) (c\<lparr>cn_ssl := ses, cn_last_progress := t\<rparr>)"
    "cn_write_offset c + k \<le> length (cn_write_buffer c) \<Longrightarrow>
      conn_ok (rw_limits s) (c\<lparr>cn_ssl := ses, cn_write_offset := cn_write_offset c + k, cn_last_progress := t\<rparr>)" for ses t k
    using ok by (auto simp: conn_ok_def)
  show ?case
  proof (cases "cn_write_offset c = length (cn_write_buffer c) \<and> (cn_ssl c = None \<or> \<not> ssl_wants_write (t_wants_write sys) c)")
    case True
    then show ?thesis using Suc.prems by (simp add: rdy.safe_def wop_simps)
  next
    case False
    show ?thesis
      apply (simp add: rdy.safe_def wp_index_conn[OF Suc.prems(2)] Let_def False del: de_Morgan_conj)
      apply (rule wp_write_some[OF assms(1) Suc.prems(2) off])
      subgoal for r ses w
        apply (cases r)
        subgoal for e using put[of "c\<lparr>cn_ssl := ses\<rparr>"] oks by simp
        subgoal for k
          using put(1)[of "c\<lparr>cn_ssl := ses\<rparr>"] put[of "c\<lparr>cn_ssl := ses, cn_last_progress := t\<rparr>" for t]
            put[of "c\<lparr>cn_ssl := ses, cn_write_offset := cn_write_offset c + k, cn_last_progress := t\<rparr>" for t] oks
            Suc.prems(2) currentD[OF Suc.prems(2)]
          by (cases "cn_write_offset c < length (cn_write_buffer c)") (simp_all add: wop_simps put)
        done
      done
  qed
qed

lemma response_written_safe:
  assumes "sys_ok sys" and "rdy.reached s0 s" and "current s i = Some c"
    and "is_writing_response c \<or> is_proxying c"
  shows "rdy.safe s0 (response_written sys i) s"
proof -
  note ok = reached_conn[OF assms(2,3)]
  have close: "wp (close_client sys i) (\<lambda>_. rdy.reached s0) (s\<lparr>rw_metrics := m\<rparr>)" for m
    using close_client_safe[of s0 "s\<lparr>rw_metrics := m\<rparr>"] assms(2) by (simp add: rdy.safe_def)
  have advance: "wp (advance_static_stream sys i) (\<lambda>_. rdy.reached s0) s" if "cn_static_stream c \<noteq> None"
    using advance_static_stream_safe[OF assms(1-3) that] by (simp add: rdy.safe_def)
  let ?c = "c\<lparr>cn_write_buffer := [], cn_write_offset := 0\<rparr>"
  let ?more = "bindq (reregister_client sys i READABLE) (\<lambda>_.
      modify (\<lambda>s. s\<lparr>rw_pending_upstream_reads := insert i (rw_pending_upstream_reads s)\<rparr>))"
  have "rdy.safe s0 ?more ((put_conn s i ?c)\<lparr>rw_metrics := m\<rparr>)" for m
  proof (rule rdy.safe_bindq)
    have "rdy.reached s0 (put_conn s i ?c)" using ok assms(2,3) by (intro reached_put) (auto simp: conn_ok_def)
    then show "rdy.safe s0 (reregister_client sys i READABLE) ((put_conn s i ?c)\<lparr>rw_metrics := m\<rparr>)"
      using assms(3) currentD[OF assms(3)] by (intro reregister_client_safe[where c = ?c]) simp_all
  qed simp
  then have "wp ?more (\<lambda>_. rdy.reached s0) ((put_conn s i ?c)\<lparr>rw_metrics := m\<rparr>)" for m
    by (simp add: rdy.safe_def del: wp_bindq)
  with advance close assms(3) show ?thesis
    by (auto simp: response_written_def rdy.safe_def wop_simps split: option.splits)
qed

lemma after_write_safe:
  assumes "sys_ok sys" and "rdy.reached s0 s"
  shows "rdy.safe s0 (after_write sys i write_failed) s"
proof -
  have remove: "wp (remove_connection sys i) (\<lambda>_. rdy.reached s0) s"
    using remove_connection_safe[OF assms(2)] by (simp add: rdy.safe_def)
  have written: "wp (response_written sys i) (\<lambda>_. rdy.reached s0) s"
    if "current_with s i (\<lambda>c. is_writing_response c \<or> is_proxying c)"
    using response_written_safe[OF assms] that by (auto simp: rdy.safe_def current_with_def split: option.splits)
  have rereg: "wp (reregister_client sys i READABLE) (\<lambda>_. rdy.reached s0) s" if "is_current s i"
    using reregister_client_safe[OF assms(2)] that by (auto simp: rdy.safe_def is_current_iff)
  show ?thesis using remove written rereg assms(2) by (simp add: after_write_def rdy.safe_def Let_def)
qed

lemma write_ready_safe:
  assumes "sys_ok sys" and "rdy.reached s0 s"
  shows "rdy.safe s0 (write_ready sys i) s"
proof (cases "current s i")
  case None
  then show ?thesis using assms(2) by (simp add: write_ready_def rdy.safe_def wop_simps)
next
  case (Some c)
  have rereg: "wp (reregister_client sys i READABLE) (\<lambda>_. rdy.reached s0) s"
    using reregister_client_safe[OF assms(2) Some] by (simp add: rdy.safe_def)
  have "rdy.safe s0 (bindq (write_loop sys i MAX_WRITES_PER_EVENT) (\<lambda>w. case w of
           ClientBlocked \<Rightarrow> ok ()
         | ClientStopped write_failed \<Rightarrow> after_write sys i write_failed)) s"
    using write_loop_safe[OF assms Some]
    by (rule rdy.safe_bindq) (auto intro: after_write_safe[OF assms(1)] split: client_write.splits)
  with rereg Some show ?thesis
    by (simp add: write_ready_def rdy.safe_def wp_if_current wp_index_conn[OF Some] del: wp_bindq) (simp add: wp_index_conn[OF Some])
qed

section \<open>Reading from the client\<close>

text \<open>The connection is current and in the given stage.\<close>

definition in_stage :: "('w, 'sc, 't) readiness_worker \<Rightarrow> connection_id \<Rightarrow> stage \<Rightarrow> bool" where
  "in_stage s i st \<longleftrightarrow> (\<exists>c. current s i = Some c \<and> stage_of (cn_phase c) = st)"

lemma in_stage_frame [simp]:
  "in_stage (s\<lparr>rw_world := w\<rparr>) i st = in_stage s i st"
  "in_stage (s\<lparr>rw_metrics := m\<rparr>) i st = in_stage s i st"
  by (simp_all add: in_stage_def)

lemma in_stage_put:
  "current s i = Some c \<Longrightarrow> cn_generation c' = cn_generation c \<Longrightarrow> stage_of (cn_phase c') = st \<Longrightarrow> in_stage (put_conn s i c') i st"
  using currentD[of s i c] by (simp add: in_stage_def)

lemma Receiving_iff: "stage_of p = Receiving \<longleftrightarrow> (\<exists>r. p = Reading r)"
  by (cases p) auto

lemma wp_read_some:
  assumes "current s i = Some c"
    and "\<And>r ses w. Q (Inr r) ((put_conn s i (c\<lparr>cn_ssl := ses\<rparr>))\<lparr>rw_world := w\<rparr>)"
  shows "wp (read_some sys i) Q s"
proof (cases "cn_ssl c")
  case None
  have "Q (Inr r) (s\<lparr>rw_world := w\<rparr>)" for r w
    using assms(2)[where ses = "cn_ssl c"] assms(1) by (simp add: put_same)
  with None assms(1) show ?thesis by (simp add: read_some_def wop_simps)
next
  case (Some session)
  with assms show ?thesis
    by (auto simp: read_some_def wop_simps wp_set_session split: sum.splits prod.splits)
qed

text \<open>The specification shared by the steps of the read loop.\<close>

definition read_post ::
  "('w, 'sc, 't) readiness_worker \<Rightarrow> connection_id \<Rightarrow> stage \<Rightarrow> read_end option \<Rightarrow> ('w, 'sc, 't) readiness_worker \<Rightarrow> bool" where
  "read_post s0 i st e s' \<longleftrightarrow> rdy.reached s0 s' \<and> in_stage s' i st
     \<and> (\<forall>request body g. e = Some (Received request body g) \<longrightarrow> st = Receiving)"

lemma read_postD: "read_post s0 i st e s' \<Longrightarrow> rdy.reached s0 s' \<and> in_stage s' i st"
  by (simp add: read_post_def)

lemma wp_accept_head:
  assumes "rdy.reached s0 s" and "in_stage s i st"
  shows "wp (accept_head i) (on_ok (read_post s0 i st) (\<lambda>_ _. False)) s"
proof -
  obtain c where c: "current s i = Some c" "stage_of (cn_phase c) = st" using assms(2) by (auto simp: in_stage_def)
  note ok = reached_conn[OF assms(1) c(1)]
  have stay: "read_post s0 i st (Some (Refused status m)) s" "read_post s0 i st None s" for status m
    using assms by (simp_all add: read_post_def)
  let ?p = "\<lambda>head consumed body_end. \<lparr>pr_head = head, pr_body_start = of_nat consumed, pr_body_end = body_end\<rparr>"
  have pend: "read_post s0 i st None (put_conn s i (set_pending_request (?p head consumed body_end) c))"
    if "checked_add (of_nat consumed) len = Some body_end" "body_end \<le> wl_max_read_buffer_size (rw_limits s)"
    for head consumed len body_end
  proof (cases "cn_phase c")
    case (Reading q)
    have "conn_ok (rw_limits s) (c\<lparr>cn_phase := Reading (Some (?p head consumed body_end))\<rparr>)"
      using ok that Reading by (auto simp: conn_ok_def checked_add_Some_iff word_le_nat_alt)
    then have "rdy.reached s0 (put_conn s i (c\<lparr>cn_phase := Reading (Some (?p head consumed body_end))\<rparr>))"
      using Reading assms(1) c(1) by (intro reached_put) (auto simp: stage_step_def)
    with Reading c show ?thesis by (auto simp: read_post_def set_pending_request_def intro!: in_stage_put)
  qed (use c stay in \<open>simp_all add: set_pending_request_def put_same\<close>)
  show ?thesis
    using c(1) stay pend
    by (auto simp: accept_head_def wop_simps not_less
        split: sum.splits request_head_parse.splits body_framing_error.splits option.splits)
qed

lemma wp_take_complete_request:
  assumes "rdy.reached s0 s" and "in_stage s i st"
  shows "wp (take_complete_request i) (on_ok (read_post s0 i st) (\<lambda>_ _. False)) s"
proof -
  obtain c where c: "current s i = Some c" "stage_of (cn_phase c) = st" using assms(2) by (auto simp: in_stage_def)
  note ok = reached_conn[OF assms(1) c(1)]
  have stay: "read_post s0 i st None s" using assms by (simp add: read_post_def)
  show ?thesis
  proof (cases "pending_request_of c")
    case None
    then show ?thesis using c(1) stay by (simp add: take_complete_request_def wop_simps)
  next
    case (Some pending)
    then have p: "cn_phase c = Reading (Some pending)"
      by (auto simp: pending_request_of_def split: connection_phase.splits)
    have "rdy.reached s0 (put_conn s i (c\<lparr>cn_phase := Reading None\<rparr>))"
      using p ok assms(1) c(1) by (intro reached_put) (auto simp: conn_ok_def stage_step_def)
    then have "read_post s0 i st (Some (Received request body g)) ((put_conn s i (c\<lparr>cn_phase := Reading None\<rparr>))\<lparr>rw_metrics := m\<rparr>)"
      for request body g m
      using p c by (auto simp: read_post_def intro!: in_stage_put)
    with Some c(1) stay ok p show ?thesis
      by (auto simp: take_complete_request_def wop_simps take_pending_request_def conn_ok_def)
  qed
qed

lemma wp_receive_bytes:
  assumes "rdy.reached s0 s" and "in_stage s i st"
  shows "wp (receive_bytes sys i bs) (on_ok (read_post s0 i st) (\<lambda>_ _. False)) s"
proof -
  obtain c where c: "current s i = Some c" "stage_of (cn_phase c) = st" using assms(2) by (auto simp: in_stage_def)
  note ok = reached_conn[OF assms(1) c(1)]
  have refuse: "read_post s0 i st (Some (Refused status m)) (s\<lparr>rw_metrics := m'\<rparr>)" for status m m'
    using assms by (simp add: read_post_def)
  let ?t = "\<lambda>t m w. ((put_conn s i (c\<lparr>cn_read_buffer := cn_read_buffer c @ bs, cn_last_progress := t\<rparr>))\<lparr>rw_metrics := m\<rparr>)\<lparr>rw_world := w\<rparr>"
  have "wp (bindq (accept_head i) (\<lambda>refused. case refused of
           Some e \<Rightarrow> ok (Some e)
         | None \<Rightarrow> take_complete_request i)) (on_ok (read_post s0 i st) (\<lambda>_ _. False)) (?t t m w)"
    if "length (cn_read_buffer c) + length bs \<le> unat (wl_max_read_buffer_size (rw_limits s))" for t m w
    unfolding wp_bindq
  proof (rule wp_mono[OF wp_accept_head[where s = "?t t m w" and st = st and s0 = s0]])
    show "rdy.reached s0 (?t t m w)"
      using ok c(1) that assms(1) by (auto simp: conn_ok_def intro!: reached_put)
    show "in_stage (?t t m w) i st" using c by (auto intro!: in_stage_put)
    fix r s' assume "on_ok (read_post s0 i st) (\<lambda>_ _. False) r s'"
    then show "on_ok (\<lambda>refused. wp (case refused of Some e \<Rightarrow> ok (Some e) | None \<Rightarrow> take_complete_request i)
        (on_ok (read_post s0 i st) (\<lambda>_ _. False))) (\<lambda>e. on_ok (read_post s0 i st) (\<lambda>_ _. False) (Inl e)) r s'"
      by (cases r) (auto split: option.splits intro!: wp_take_complete_request dest: read_postD)
  qed
  with refuse c(1) show ?thesis
    by (simp add: receive_bytes_def wop_simps not_less)
qed

lemma wp_read_loop:
  assumes "rdy.reached s0 s" and "in_stage s i st"
  shows "wp (read_loop sys i n) (on_ok (\<lambda>e. read_post s0 i st (Some e)) (\<lambda>_ _. False)) s"
  using assms
proof (induction n arbitrary: s)
  case 0
  then show ?case by (simp add: read_post_def)
next
  case (Suc n)
  obtain c where c: "current s i = Some c" "stage_of (cn_phase c) = st" using Suc.prems(2) by (auto simp: in_stage_def)
  note ok = reached_conn[OF Suc.prems(1) c(1)]
  show ?case unfolding read_loop.simps wp_bindq
  proof (rule wp_read_some[OF c(1)], goal_cases)
    case (1 r ses w)
    let ?s = "(put_conn s i (c\<lparr>cn_ssl := ses\<rparr>))\<lparr>rw_world := w\<rparr>"
    have s: "rdy.reached s0 ?s" "in_stage ?s i st" "current ?s i = Some (c\<lparr>cn_ssl := ses\<rparr>)"
      using ok c currentD[OF c(1)] Suc.prems(1) by (auto simp: conn_ok_def intro!: reached_put in_stage_put)
    have post: "read_post s0 i st (Some e) ?s" if "e = Drained \<or> e = PeerClosed" for e
      using s that by (auto simp: read_post_def)
    consider (err) e where "r = Inl e" | (eof) "r = Inr []" | (data) b bs where "r = Inr (b # bs)"
      by (metis list.exhaust sum.exhaust)
    then show ?case
    proof cases
      case err
      then show ?thesis using post Suc.IH[OF s(1,2)] by simp
    next
      case eof
      then show ?thesis using post s(3) by (simp add: wop_simps)
    next
      case data
      have "wp (receive_bytes sys i (b # bs)) (on_ok (\<lambda>e. wp (case e of Some e \<Rightarrow> ok e | None \<Rightarrow> read_loop sys i n)
          (on_ok (\<lambda>e. read_post s0 i st (Some e)) (\<lambda>_ _. False))) (\<lambda>_ _. False)) ?s"
        by (rule wp_mono[OF wp_receive_bytes[OF s(1,2)]])
          (auto elim!: on_okE split: option.splits intro!: Suc.IH dest: read_postD)
      with data show ?thesis by simp
    qed
  qed
qed

lemma discard_loop_safe:
  assumes "rdy.reached s0 s" and "current s i = Some c"
  shows "rdy.safe s0 (discard_loop sys i n) s"
  using assms
proof (induction n arbitrary: s c)
  case 0
  then show ?case by simp
next
  case (Suc n)
  note ok = reached_conn[OF Suc.prems]
  note IH = Suc.IH[unfolded rdy.safe_def]
  have "wp (discard_loop sys i n) (\<lambda>_. rdy.reached s0) ((put_conn s i (c\<lparr>cn_last_progress := t\<rparr>))\<lparr>rw_world := w\<rparr>)" for t w
    using ok Suc.prems currentD[OF Suc.prems(2)]
    by (intro IH[where c = "c\<lparr>cn_last_progress := t\<rparr>"]) (auto simp: conn_ok_def intro!: reached_put)
  moreover have "wp (discard_loop sys i n) (\<lambda>_. rdy.reached s0) (s\<lparr>rw_world := w\<rparr>)" for w
    using Suc.prems by (intro IH[where c = c]) auto
  ultimately show ?case using Suc.prems
    by (auto simp: rdy.safe_def wop_simps split: sum.splits)
qed

lemma client_during_proxy_ready_safe:
  assumes "rdy.reached s0 s" and "current s i = Some c"
  shows "rdy.safe s0 (client_during_proxy_ready sys i) s"
proof -
  have "rdy.safe s0 (bindq (discard_loop sys i MAX_READS_PER_EVENT) (\<lambda>close.
       if close then remove_connection sys i else ok ())) s"
    using discard_loop_safe[OF assms] by (rule rdy.safe_bindq) (auto intro: remove_connection_safe)
  then show ?thesis using assms(2)
    by (simp add: client_during_proxy_ready_def rdy.safe_def wp_index_conn)
qed

subsection \<open>Acting on a request\<close>

lemma wp_select_upstream:
  assumes "rdy.reached s0 s" and "server \<in> set (rw_servers s)" and "route server target = Some (Proxy u g es p)"
    and "\<And>r b. rdy.reached s0 (s\<lparr>rw_balancer := b\<rparr>) \<Longrightarrow> Q (Inr r) (s\<lparr>rw_balancer := b\<rparr>)"
  shows "wp (select_upstream (Proxy u g es p)) Q s"
proof -
  obtain r b where r: "select (Proxy u g es p) (rw_balancer s) = (r, b)" by fastforce
  have inv: "winv s" using assms(1) by (rule rdy.reached_inv)
  then have "r \<noteq> Panic" using select_no_panic[of "rw_servers s" "rw_balancer s"] assms(2,3) r
    by (fastforce simp: winv_def)
  moreover have "balancer_groups b = balancer_groups (rw_balancer s)"
    using select_groups[of "Proxy u g es p" "rw_balancer s"] r by simp
  then have "winv (s\<lparr>rw_balancer := b\<rparr>)" using inv by (simp add: winv_def config_known_def)
  then have "rdy.reached s0 (s\<lparr>rw_balancer := b\<rparr>)" using assms(1) by (simp add: rdy.reached_def evolves_def)
  ultimately show ?thesis using r assms(4) by (cases r) (simp_all add: wp_def select_upstream_def)
qed

lemma queue_and_stop:
  assumes "rdy.reached s0 s" and "in_stage s i Receiving"
  shows "rdy.safe s0 (bindq (queue_response sys i response) (\<lambda>_. ok b)) s"
  using assms
  by (intro rdy.safe_bindq queue_response_safe) (auto simp: in_stage_def)

lemma attempt_proxy_safe:
  assumes "rdy.reached s0 s" and "in_stage s i Receiving"
  shows "rdy.safe s0 (bindq (attempt (start_proxy sys i upstream request body)) (\<lambda>r. case r of
      Inl _ \<Rightarrow> bindq (queue_response sys i response) (\<lambda>_. ok True) | Inr _ \<Rightarrow> ok True)) s"
proof -
  obtain c where c: "current s i = Some c" "stage_of (cn_phase c) = Receiving" using assms(2) by (auto simp: in_stage_def)
  have queue: "wp (bindq (queue_response sys i response) (\<lambda>_. ok True)) (\<lambda>_. rdy.reached s0) t"
    if "rdy.reached s0 t" "\<forall>c. current t i = Some c \<longrightarrow> stage_of (cn_phase c) \<noteq> Relaying True" for t
    using rdy.safe_bindq[OF queue_response_safe, of s0 t i "\<lambda>_. ok True"] that by (simp add: rdy.safe_def del: wp_bindq)
  show ?thesis unfolding rdy.safe_def wp_bindq wp_attempt
    by (rule wp_mono[OF wp_start_proxy[OF assms(1) c]]) (auto split: sum.splits simp del: wp_bindq intro!: queue)
qed

lemma perform_action_safe:
  assumes "rdy.reached s0 s" and "in_stage s i Receiving"
  shows "rdy.safe s0 (perform_action sys i request body server_index) s"
proof (cases "get (rw_servers s) server_index")
  case None
  then show ?thesis using queue_and_stop[OF assms]
    by (simp add: perform_action_def rdy.safe_def del: get_None_iff wp_bindq) (simp del: get_None_iff)
next
  case (Some server)
  then have server: "server \<in> set (rw_servers s)" by auto
  have proxy: "rdy.safe s0 (bindq (select_upstream (Proxy u g es p)) (\<lambda>r. case r of
                Inl _ \<Rightarrow> bindq (queue_response sys i (response_bytes 502 ''upstream configuration failed''))
                  (\<lambda>_. ok False)
              | Inr upstream \<Rightarrow>
                  bindq (attempt (start_proxy sys i upstream request body)) (\<lambda>r. case r of
                    Inl _ \<Rightarrow> bindq (queue_response sys i (response_bytes 502 ''upstream connection failed''))
                      (\<lambda>_. ok True)
                  | Inr _ \<Rightarrow> ok True))) s"
    if "route server (req_target request) = Some (Proxy u g es p)" for u g es p
    unfolding rdy.safe_def wp_bindq[of "select_upstream _"]
  proof (rule wp_select_upstream[OF assms(1) server that], unfold on_ok_simps)
    fix r b assume t: "rdy.reached s0 (s\<lparr>rw_balancer := b\<rparr>)"
    have st: "in_stage (s\<lparr>rw_balancer := b\<rparr>) i Receiving" using assms(2) by (simp add: in_stage_def)
    note queue_and_stop[OF t st] attempt_proxy_safe[OF t st]
    then show "wp (case r of Inl _ \<Rightarrow> bindq (queue_response sys i (response_bytes 502 ''upstream configuration failed''))
                  (\<lambda>_. ok False)
              | Inr upstream \<Rightarrow>
                  bindq (attempt (start_proxy sys i upstream request body)) (\<lambda>r. case r of
                    Inl _ \<Rightarrow> bindq (queue_response sys i (response_bytes 502 ''upstream connection failed''))
                      (\<lambda>_. ok True)
                  | Inr _ \<Rightarrow> ok True)) (\<lambda>_. rdy.reached s0) (s\<lparr>rw_balancer := b\<rparr>)"
      by (cases r) (simp_all add: rdy.safe_def del: wp_bindq)
  qed
  have static: "rdy.safe s0 (case static_stream_response fs (k_mime sys) directory request of
                  Inr response \<Rightarrow> bindq (queue_static_response sys i response) (\<lambda>_. ok True)
                | Inl e \<Rightarrow> bindq (queue_response sys i (static_error_response e)) (\<lambda>_. ok True)) (s\<lparr>rw_world := w\<rparr>)" for fs directory w
  proof (cases "static_stream_response fs (k_mime sys) directory request")
    case (Inl e)
    then show ?thesis using queue_and_stop[of s0 "s\<lparr>rw_world := w\<rparr>" i] assms by simp
  next
    case (Inr response)
    obtain c where c: "current s i = Some c" "stage_of (cn_phase c) = Receiving" using assms(2) by (auto simp: in_stage_def)
    have "rdy.safe s0 (queue_static_response sys i response) (s\<lparr>rw_world := w\<rparr>)"
      using assms(1) c static_stream_response_ok[OF Inr] by (intro queue_static_response_safe[where c = c]) auto
    then have "rdy.safe s0 (bindq (queue_static_response sys i response) (\<lambda>_. ok True)) (s\<lparr>rw_world := w\<rparr>)"
      by (rule rdy.safe_bindq) simp
    with Inr show ?thesis by simp
  qed
  show ?thesis
  proof (cases "route server (req_target request)")
    case None
    then show ?thesis using Some queue_and_stop[OF assms]
      by (simp add: perform_action_def rdy.safe_def del: get_Some_iff wp_bindq) (simp del: get_Some_iff)
  next
    case (Some a)
    note get = \<open>get (rw_servers s) server_index = Some server\<close>
    show ?thesis
    proof (cases a)
      case (Proxy u g es p)
      then show ?thesis using get Some proxy[of u g es p]
        by (simp add: perform_action_def rdy.safe_def del: get_Some_iff)
    next
      case (Static directory)
      then show ?thesis using get Some static[of _ directory]
        by (simp add: perform_action_def rdy.safe_def wp_syscall del: get_Some_iff)
    next
      case (Response status msg)
      then show ?thesis using get Some queue_and_stop[OF assms]
        by (simp add: perform_action_def rdy.safe_def del: get_Some_iff)
    qed
  qed
qed

lemma handle_request_safe:
  assumes "rdy.reached s0 s" and "in_stage s i Receiving"
  shows "rdy.safe s0 (handle_request sys i request body listener_group) s"
  using perform_action_safe[OF assms] assms(1)
  by (simp add: handle_request_def rdy.safe_def split: option.split)

lemma after_read_safe:
  assumes "read_post s0 i st (Some e) s" and "st \<noteq> Relaying True"
  shows "rdy.safe s0 (after_read sys i e) s"
proof -
  have s: "rdy.reached s0 s" "in_stage s i st" using assms(1) by (simp_all add: read_post_def)
  have act: "rdy.safe s0 (case e of
         Refused status message \<Rightarrow> bindq (queue_response sys i (response_bytes status message)) (\<lambda>_. ok True)
       | Received request body listener_group \<Rightarrow> handle_request sys i request body listener_group
       | _ \<Rightarrow> ok True) s"
  proof (cases e)
    case (Refused status message)
    have "rdy.safe s0 (queue_response sys i (response_bytes status message)) s"
      using s assms(2) by (intro queue_response_safe) (auto simp: in_stage_def)
    then have "rdy.safe s0 (bindq (queue_response sys i (response_bytes status message)) (\<lambda>_. ok True)) s"
      by (rule rdy.safe_bindq) simp
    with Refused show ?thesis by simp
  next
    case (Received request body g)
    then show ?thesis using assms(1) s handle_request_safe by (simp add: read_post_def)
  qed (use s in simp_all)
  have flush: "rdy.safe s0 (bindq (gets (\<lambda>s. current_with s i (ssl_wants_write (t_wants_write sys)))) (\<lambda>flush.
       if flush then reregister_client sys i READABLE_WRITABLE else ok ())) t" if "rdy.reached s0 t" for t
    using reregister_client_safe[OF that, of i] that
    by (auto simp: rdy.safe_def current_with_def split: option.splits)
  have close: "rdy.safe s0 (bindq (if e = PeerClosed then remove_connection sys i else ok ()) (\<lambda>_.
     bindq (gets (\<lambda>s. current_with s i (ssl_wants_write (t_wants_write sys)))) (\<lambda>flush.
       if flush then reregister_client sys i READABLE_WRITABLE else ok ()))) t" if "rdy.reached s0 t" for t
    using that by (intro rdy.safe_bindq flush) (simp_all add: remove_connection_safe)
  show ?thesis unfolding after_read_def
    apply (rule rdy.safe_bindq[OF act])
    subgoal for continue s' using close[of s'] by (cases continue) simp_all
    done
qed

lemma connection_ready_safe:
  assumes "rdy.reached s0 s"
  shows "rdy.safe s0 (connection_ready sys i) s"
proof (cases "current s i")
  case None
  then show ?thesis using assms by (simp add: connection_ready_def rdy.safe_def wop_simps)
next
  case (Some c)
  show ?thesis
  proof (cases "is_handling_request c")
    case True
    then show ?thesis using Some client_during_proxy_ready_safe[OF assms Some]
      by (simp add: connection_ready_def rdy.safe_def wop_simps)
  next
    case False
    define st where "st = stage_of (cn_phase c)"
    have st: "in_stage s i st" "st \<noteq> Relaying True"
      using Some False by (auto simp: in_stage_def st_def is_handling_request_def split: connection_phase.splits)
    have "wp (read_loop sys i MAX_READS_PER_EVENT) (on_ok (\<lambda>e. wp (after_read sys i e) (\<lambda>_. rdy.reached s0)) (\<lambda>_. rdy.reached s0)) s"
      by (rule wp_mono[OF wp_read_loop[OF assms st(1)]])
        (auto elim!: on_okE intro!: after_read_safe[OF _ st(2), unfolded rdy.safe_def])
    then show ?thesis using Some False by (simp add: connection_ready_def rdy.safe_def wop_simps)
  qed
qed

section \<open>Accepting connections\<close>

lemma vacant_key:
  assumes "sys_ok sys" and "k_vacant_key sys (map (\<lambda>e. e \<noteq> None) xs) w = (k, w')"
  shows "k \<le> length xs" and "slab_get xs k = None"
proof -
  have "k \<le> length xs \<and> (k < length xs \<longrightarrow> \<not> map (\<lambda>e. e \<noteq> None) xs ! k)"
    using assms unfolding sys_ok_def vacant_ok_def by (metis length_map)
  then show "k \<le> length xs" and "slab_get xs k = None"
    by (auto simp: slab_get_def get_def)
qed

lemma valid_next_generation: "unat g < 2 ^ 30 \<Longrightarrow> valid_generation (next_generation g)"
  using unat_next_generation[of g] by (simp add: valid_generation_def)

text \<open>Advancing the generation of a vacant slot, and occupying it.\<close>

lemma winv_generation:
  assumes "winv s" and "slab_get (rw_connections s) slot = None"
  defines "gs \<equiv> (resized (rw_generations s) slot)[slot := next_generation (resized (rw_generations s) slot ! slot)]"
  shows "winv (s\<lparr>rw_generations := gs\<rparr>)" and "get gs slot = Some (next_generation (resized (rw_generations s) slot ! slot))"
    and "valid_generation (next_generation (resized (rw_generations s) slot ! slot))"
proof -
  note rf = resized_facts[where slot = slot and gs = "rw_generations s"]
  have old: "\<forall>g \<in> set (resized (rw_generations s) slot). unat g < 2 ^ 30"
    using assms(1) rf(3) by (auto simp: winv_def)
  then have "unat (resized (rw_generations s) slot ! slot) < 2 ^ 30" using rf(1) by (meson nth_mem)
  then show valid: "valid_generation (next_generation (resized (rw_generations s) slot ! slot))"
    by (rule valid_next_generation)
  show "get gs slot = Some (next_generation (resized (rw_generations s) slot ! slot))"
    using rf(1) by (simp add: gs_def)
  have "\<forall>g \<in> set gs. unat g < 2 ^ 30"
    using old valid set_update_subset_insert[of "resized (rw_generations s) slot" slot]
    by (auto simp: gs_def valid_generation_def)
  moreover have "slot_ok gs i c" if "slab_get (rw_connections s) i = Some c" for i c
  proof -
    have "slot_ok (rw_generations s) i c" and "i \<noteq> slot" using assms(1,2) that by (auto simp: winv_def)
    then show ?thesis using rf(2,4) by (auto simp: slot_ok_def gs_def)
  qed
  ultimately show "winv (s\<lparr>rw_generations := gs\<rparr>)" using assms(1) by (auto simp: winv_def)
qed

lemma reached_opened:
  assumes "rdy.reached s0 s" and "\<not> rw_draining s" and "slab_get (rw_connections s) slot = None"
    and "slot \<le> length (rw_connections s)" and "slab_len (rw_connections s) < unat (wl_max_connections (rw_limits s))"
    and "conn_ok (rw_limits s) c" and "slot_ok (rw_generations s) slot c" and "cn_phase c = Reading p"
  shows "rdy.reached s0 (s\<lparr>rw_connections := slab_insert slot c (rw_connections s)\<rparr>)"
proof (rule rdy.reached_step[OF assms(1)])
  let ?t = "s\<lparr>rw_connections := slab_insert slot c (rw_connections s)\<rparr>"
  have "winv s" using assms(1) by (rule rdy.reached_inv)
  then show "winv ?t"
    using assms(3-7) by (auto simp: winv_def slab_get_insert slab_len_insert split: if_splits)
  have "aw_connections (abs_worker s) slot = None" "\<not> aw_draining (abs_worker s)"
    using assms(2,3) by (simp_all add: abs_worker_def)
  then have "lifecycle (abs_worker s) ((abs_worker s)\<lparr>aw_connections :=
      (aw_connections (abs_worker s))(slot \<mapsto> (cn_generation c, Receiving))\<rparr>)" by (intro lifecycle.Open)
  moreover have "abs_worker ?t = (abs_worker s)\<lparr>aw_connections :=
      (aw_connections (abs_worker s))(slot \<mapsto> (cn_generation c, Receiving))\<rparr>"
    using assms(4,8) by (auto simp: abs_worker_def slab_get_insert)
  ultimately show "evolves s ?t" by (simp add: evolves_def r_into_rtranclp)
qed

lemma bound_laws:
  assumes "sys_ok sys"
  shows "k_bound sys (snd (k_now sys w)) \<le> k_bound sys w"
    and "k_bound sys (snd (k_register sys fd t n w)) \<le> k_bound sys w"
    and "k_bound sys (snd (k_vacant_key sys occ w)) \<le> k_bound sys w"
    and "(case fst (k_accept sys fd w) of Inr _ \<Rightarrow> True | Inl e \<Rightarrow> kind e = KInterrupted) \<Longrightarrow>
      k_bound sys (snd (k_accept sys fd w)) < k_bound sys w"
  using assms unfolding sys_ok_def bounded_ok_def by (metis prod.collapse)+

lemma resize_eq:
  "(if length (rw_generations s) \<le> slot
    then s\<lparr>rw_generations := rw_generations s @ replicate (slot + 1 - length (rw_generations s)) 0\<rparr> else s)
   = s\<lparr>rw_generations := resized (rw_generations s) slot\<rparr>"
  by (simp add: resized_def)

text \<open>What accepting keeps besides the invariant.\<close>

definition accepting :: "('w, 'sc, 't) sys \<Rightarrow> ('w, 'sc, 't) readiness_worker \<Rightarrow> ('w, 'sc, 't) readiness_worker \<Rightarrow> bool" where
  "accepting sys s s' \<longleftrightarrow> \<not> rw_draining s' \<and> rw_listeners s' = rw_listeners s
     \<and> k_bound sys (rw_world s') \<le> k_bound sys (rw_world s)"

lemma connection_new_fresh:
  assumes "connection_new new_session now now' socket g generation ssl_config = Inr c"
  shows "conn_ok limits c" "cn_generation c = generation" "cn_phase c = Reading None"
  using assms by (auto simp: connection_new_def conn_ok_def split: sum.splits option.splits)

lemma wp_insert_connection:
  assumes "sys_ok sys" and "rdy.reached s0 s" and "\<not> rw_draining s"
    and "slab_len (rw_connections s) < unat (wl_max_connections (rw_limits s))"
    and "slab_get (rw_connections s) slot = None" and "slot \<le> length (rw_connections s)"
    and "slot_of i = slot" and "slot_ok (rw_generations s) slot c" and "cn_generation c = cid_generation i"
    and "conn_ok (rw_limits s) c" and "cn_phase c = Reading None"
  shows "wp (insert_connection sys slot i c) (\<lambda>_ s'. rdy.reached s0 s' \<and> accepting sys s s') s"
proof -
  let ?t = "s\<lparr>rw_connections := slab_insert slot c (rw_connections s)\<rparr>"
  have open_: "rdy.reached s0 ?t" using assms by (intro reached_opened) simp_all
  have cur: "current ?t i = Some c"
    using assms(6,7,9) by (simp add: current_def slab_get_insert)
  have clear: "rdy.reached s0 (?t\<lparr>rw_world := w, rw_connections := (slab_insert slot c (rw_connections s))[slot := None]\<rparr>)" for w
    using reached_cleared[of s0 "?t\<lparr>rw_world := w\<rparr>" i c] open_ cur assms(7) by simp
  show ?thesis
    using open_ cur clear assms(3) bound_laws(2)[OF assms(1)]
    by (auto simp: insert_connection_def wop_simps accepting_def on_ok_def split: sum.splits)
qed

lemma wp_occupy_slot:
  assumes "sys_ok sys" and "rdy.reached s0 s" and "\<not> rw_draining s" and "g < length (rw_listeners s)"
    and "slab_len (rw_connections s) < unat (wl_max_connections (rw_limits s))"
    and "slab_get (rw_connections s) slot = None" and "slot \<le> length (rw_connections s)" and "slot \<le> unat SLOT_MASK"
    and "get (rw_generations s) slot = Some gen" and "valid_generation gen"
  shows "wp (occupy_slot sys stream g slot gen) (\<lambda>_ s'. rdy.reached s0 s' \<and> accepting sys s s') s"
proof -
  let ?i = "\<lparr>cid_slot = (of_nat slot :: usize), cid_generation = gen\<rparr>"
  let ?Q = "\<lambda>_ s'. rdy.reached s0 s' \<and> accepting sys s s'"
  obtain l where l: "get (rw_listeners s) g = Some l" using assms(4) by simp
  note now = bound_laws(1)[OF assms(1)]
  have tail: "wp (bindq (of_result (connection_new (t_new sys) n n' stream g gen (rl_ssl l))) (insert_connection sys slot ?i)) ?Q
      (s\<lparr>rw_world := w\<rparr>)" if w: "k_bound sys w \<le> k_bound sys (rw_world s)" for n n' w
  proof (cases "connection_new (t_new sys) n n' stream g gen (rl_ssl l)")
    case (Inl e)
    then show ?thesis using assms(2,3) w by (simp add: accepting_def)
  next
    case (Inr c)
    note fresh = connection_new_fresh[OF Inr]
    have "wp (insert_connection sys slot ?i c) (\<lambda>_ s'. rdy.reached s0 s' \<and> accepting sys (s\<lparr>rw_world := w\<rparr>) s') (s\<lparr>rw_world := w\<rparr>)"
      using assms fresh by (intro wp_insert_connection) (simp_all add: slot_of_nat slot_ok_def)
    then show ?thesis using Inr w
      by (auto simp: accepting_def elim!: wp_mono)
  qed
  have w2: "k_bound sys (snd (k_now sys (snd (k_now sys w)))) \<le> k_bound sys w" for w
    using now[of w] now[of "snd (k_now sys w)"] by linarith
  show ?thesis using l tail now w2
    by (cases "rl_ssl l") (simp_all add: occupy_slot_def wop_simps del: get_Some_iff wp_of_result)
qed

lemma wp_register_connection:
  assumes "sys_ok sys" and "rdy.reached s0 s" and "\<not> rw_draining s" and "g < length (rw_listeners s)"
    and "slab_len (rw_connections s) < unat (wl_max_connections (rw_limits s))"
  shows "wp (register_connection sys stream g) (\<lambda>_ s'. rdy.reached s0 s' \<and> accepting sys s s') s"
proof -
  obtain slot w1 where k: "k_vacant_key sys (map (\<lambda>e. e \<noteq> None) (rw_connections s)) (rw_world s) = (slot, w1)" by fastforce
  note vac = vacant_key[OF assms(1) k]
  have w1: "k_bound sys w1 \<le> k_bound sys (rw_world s)"
    using bound_laws(3)[OF assms(1), of "map (\<lambda>e. e \<noteq> None) (rw_connections s)" "rw_world s"] k by simp
  define gs where "gs = (resized (rw_generations s) slot)[slot := next_generation (resized (rw_generations s) slot ! slot)]"
  define gen where "gen = next_generation (resized (rw_generations s) slot ! slot)"
  note wg = winv_generation[OF rdy.reached_inv[OF assms(2)] vac(2), folded gs_def gen_def]
  let ?s = "s\<lparr>rw_world := w1, rw_generations := gs\<rparr>"
  have eq: "?s = (s\<lparr>rw_generations := gs\<rparr>)\<lparr>rw_world := w1\<rparr>" by (cases s) simp
  have s1: "rdy.reached s0 ?s" unfolding eq
    using wg(1) assms(2) by (simp add: rdy.reached_def evolves_def)
  have occupy: "wp (occupy_slot sys stream g slot gen) (\<lambda>_ s'. rdy.reached s0 s' \<and> accepting sys s s') ?s"
    if "slot \<le> unat SLOT_MASK"
    by (rule wp_mono[OF wp_occupy_slot[OF assms(1) s1]])
      (use assms vac wg that w1 in \<open>auto simp: accepting_def\<close>)
  show ?thesis using k occupy assms(2,3) w1
    unfolding register_connection_def resize_eq
    by (simp add: wop_simps accepting_def gs_def gen_def not_less)
qed

lemma accept_loop_safe:
  fixes sys :: "('w, 'sc, 't) sys"
  assumes "sys_ok sys" and "rdy.reached s0 s" and "\<not> rw_draining s" and "g < length (rw_listeners s)"
    and "k_bound sys (rw_world s) < fuel"
  shows "rdy.safe s0 (accept_loop sys fuel g) s"
  using assms(2-)
proof (induction fuel arbitrary: s)
  case 0
  then show ?case by simp
next
  case (Suc fuel)
  obtain l where l: "get (rw_listeners s) g = Some l" using Suc.prems(3) by simp
  obtain r w where r: "k_accept sys (rl_socket l) (rw_world s) = (r, w)" by fastforce
  have less: "k_bound sys w < fuel" if "case r of Inr _ \<Rightarrow> True | Inl e \<Rightarrow> kind e = KInterrupted"
    using bound_laws(4)[OF assms(1), of "rl_socket l" "rw_world s"] r that Suc.prems(4) by simp
  note IH = Suc.IH[unfolded rdy.safe_def]
  have again: "wp (accept_loop sys fuel g) (\<lambda>_. rdy.reached s0) (s\<lparr>rw_world := w\<rparr>)"
    if "case r of Inr _ \<Rightarrow> True | Inl e \<Rightarrow> kind e = KInterrupted"
    using Suc.prems less[OF that] by (intro IH) simp_all
  have accept: "wp (attempt (register_connection sys stream g) :: ('w, 'sc, 't, io_error + unit) wop) (on_ok (\<lambda>_. wp (accept_loop sys fuel g) (\<lambda>_. rdy.reached s0)) (\<lambda>_. rdy.reached s0))
      (s\<lparr>rw_metrics := m, rw_world := w\<rparr>)"
    if "r = Inr stream" "slab_len (rw_connections s) < unat (wl_max_connections (rw_limits s))" for stream m
    unfolding wp_attempt
    by (rule wp_mono[OF wp_register_connection[OF assms(1)]])
      (use Suc.prems less that in \<open>auto simp: accepting_def intro!: IH\<close>)
  show ?case
  proof (cases r)
    case (Inl e)
    then show ?thesis using l r again Suc.prems(1) by (simp add: rdy.safe_def wop_simps del: get_Some_iff)
  next
    case (Inr stream)
    then show ?thesis using l r again accept Suc.prems(1)
      by (simp add: rdy.safe_def wop_simps not_le del: get_Some_iff wp_attempt)
  qed
qed

lemma accept_ready_safe:
  assumes "sys_ok sys" and "rdy.reached s0 s" and "\<not> rw_draining s" and "g < length (rw_listeners s)"
  shows "rdy.safe s0 (accept_ready sys g) s"
proof -
  have "rdy.safe s0 (accept_loop sys (Suc (k_bound sys (rw_world s))) g) s"
    using assms by (intro accept_loop_safe) simp_all
  then show ?thesis by (simp add: accept_ready_def rdy.safe_def del: accept_loop.simps)
qed

section \<open>Events, timeouts and the loop\<close>

lemma safe_syscall [simp]: "rdy.safe s0 (syscall f) s = rdy.reached s0 s"
  by (simp add: rdy.safe_def wp_syscall)

lemma log_socket_error_safe:
  "rdy.reached s0 s \<Longrightarrow> rdy.safe s0 (log_socket_error sys i b) s"
  by (auto simp: log_socket_error_def rdy.safe_def is_current_iff wop_simps)

lemma dispatch_client_safe:
  assumes "sys_ok sys" and "rdy.reached s0 s"
  shows "rdy.safe s0 (dispatch_client sys i event) s"
  unfolding dispatch_client_def
  using assms
  by (auto intro!: rdy.safe_bindq log_socket_error_safe remove_connection_safe write_ready_safe connection_ready_safe)

lemma dispatch_upstream_safe:
  assumes "sys_ok sys" and "rdy.reached s0 s" and "current s i = Some c"
  shows "rdy.safe s0 (dispatch_upstream sys i event) s"
proof -
  have events: "rdy.safe s0 (bindq (if ev_writable event then write_upstream_request sys i else ok ()) (\<lambda>_.
         bindq (gets (\<lambda>s. is_current s i)) (\<lambda>cur.
         bindq (if ev_readable event \<and> cur then read_upstream_response sys i else ok ()) (\<lambda>_.
         bindq (gets (\<lambda>s. is_current s i)) (\<lambda>cur.
           if (ev_read_closed event \<or> ev_write_closed event) \<and> cur
           then modify (\<lambda>s. s\<lparr>rw_pending_upstream_reads := insert i (rw_pending_upstream_reads s)\<rparr>)
           else ok ()))))) s"
    using assms(1,2)
    by (auto intro!: rdy.safe_bindq write_upstream_request_safe read_upstream_response_safe)
  show ?thesis using events fail_proxy_safe[OF assms(2)] assms(2)
    unfolding dispatch_upstream_def rdy.safe_def wp_bindq[of "index_conn i"] wp_index_conn[OF assms(3)] on_ok_simps
    by (simp del: wp_bindq)
qed

lemma dispatch_safe:
  assumes "sys_ok sys" and "rdy.reached s0 s"
  shows "rdy.safe s0 (dispatch sys event) s"
proof -
  have "rdy.safe s0 (accept_ready sys (unat (ev_token event))) s"
    if "unat (ev_token event) < length (rw_listeners s)" "\<not> rw_draining s"
    using assms that by (intro accept_ready_safe)
  moreover have "rdy.safe s0 (dispatch_client sys i event) s" for i using assms by (rule dispatch_client_safe)
  moreover have "rdy.safe s0 (dispatch_upstream sys i event) s" if "is_current s i" for i
    using assms that dispatch_upstream_safe by (auto simp: is_current_iff)
  moreover note process_dns_results_safe[OF assms(2)]
  ultimately show ?thesis using assms(2)
    by (auto simp: dispatch_def rdy.safe_def split: option.splits socket_role.splits)
qed

lemma close_idle_connections_safe:
  assumes "rdy.reached s0 s"
  shows "rdy.safe s0 (close_idle_connections sys) s"
  unfolding close_idle_connections_def
  using assms by (intro rdy.safe_bindq rdy.safe_for_each remove_connection_safe) (simp_all add: rdy.safe_def wop_simps)

lemma close_expired_resolutions_safe:
  assumes "rdy.reached s0 s"
  shows "rdy.safe s0 (close_expired_resolutions sys) s"
  unfolding close_expired_resolutions_def
  using assms by (intro rdy.safe_bindq rdy.safe_for_each fail_resolution_safe) (simp_all add: rdy.safe_def wop_simps)

lemma close_expired_proxies_safe:
  assumes "rdy.reached s0 s"
  shows "rdy.safe s0 (close_expired_proxies sys) s"
  unfolding close_expired_proxies_def
  using assms by (intro rdy.safe_bindq rdy.safe_for_each)
    (auto simp: rdy.safe_def wop_simps intro!: fail_proxy_safe[unfolded rdy.safe_def])

lemma close_all_connections_safe:
  assumes "rdy.reached s0 s"
  shows "rdy.safe s0 (close_all_connections sys) s"
  unfolding close_all_connections_def
  using assms by (intro rdy.safe_bindq rdy.safe_for_each) (auto intro: rdy.safe_bindq remove_connection_safe)

lemma reached_draining:
  assumes "rdy.reached s0 s"
  shows "rdy.reached s0 (s\<lparr>rw_draining := True\<rparr>)"
proof (rule rdy.reached_step[OF assms])
  show "winv (s\<lparr>rw_draining := True\<rparr>)" using rdy.reached_inv[OF assms] by simp
  have "abs_worker (s\<lparr>rw_draining := True\<rparr>) = (abs_worker s)\<lparr>aw_draining := True\<rparr>" by (simp add: abs_worker_def)
  then show "evolves s (s\<lparr>rw_draining := True\<rparr>)"
    using lifecycle.Drain[of "abs_worker s"] by (simp add: evolves_def r_into_rtranclp)
qed

lemma begin_shutdown_safe:
  assumes "rdy.reached s0 s"
  shows "rdy.safe s0 (begin_shutdown sys) s"
  unfolding begin_shutdown_def
  using reached_draining[OF assms]
  by (auto intro!: rdy.safe_bindq rdy.safe_for_each remove_connection_safe)

lemma serve_pending_safe:
  assumes "rdy.reached s0 s" and "\<And>t. rdy.reached s0 (clear t) = rdy.reached s0 t"
    and "\<And>i t. rdy.reached s0 t \<Longrightarrow> rdy.safe s0 (serve i) t"
  shows "rdy.safe s0 (serve_pending sys pending clear serve) s"
  unfolding serve_pending_def
  using assms by (intro rdy.safe_bindq rdy.safe_for_each) (auto simp: if_current_def rdy.safe_def wop_simps)

lemma housekeeping_safe:
  assumes "sys_ok sys" and "rdy.reached s0 s"
  shows "rdy.safe s0 (housekeeping sys) s"
  unfolding housekeeping_def
  using assms
  by (intro rdy.safe_bindq serve_pending_safe process_dns_results_safe close_expired_resolutions_safe
      close_expired_proxies_safe close_idle_connections_safe pump_static_streams_safe write_ready_safe
      write_upstream_request_safe read_upstream_response_safe) simp_all

lemma poll_events_safe:
  assumes "sys_ok sys" and "rdy.reached s0 s"
  shows "rdy.safe s0 (poll_events sys max_events) s"
proof -
  have "rdy.safe s0 (for_each (dispatch sys) ready) (s\<lparr>rw_world := w\<rparr>)" for ready w
    using assms by (intro rdy.safe_for_each dispatch_safe) simp_all
  then show ?thesis using assms(2)
    by (auto simp: poll_events_def rdy.safe_def wop_simps split: sum.splits)
qed

lemma drain_deadline_expired_safe:
  "rdy.reached s0 s \<Longrightarrow> rdy.safe s0 (drain_deadline_expired sys) s"
  by (auto simp: drain_deadline_expired_def rdy.safe_def wop_simps split: option.splits)

lemma run_iteration_safe:
  assumes "sys_ok sys" and "rdy.reached s0 s"
  shows "rdy.safe s0 (run_iteration sys max_events) s"
  unfolding run_iteration_def
  using assms
  by (auto intro!: rdy.safe_bindq begin_shutdown_safe drain_deadline_expired_safe close_all_connections_safe
      housekeeping_safe poll_events_safe)

lemma run_worker_safe:
  assumes "sys_ok sys" and "rdy.reached s0 s"
  shows "rdy.safe s0 (run_worker sys max_events n) s"
  using assms(2)
  by (induction n arbitrary: s) (auto intro!: rdy.safe_bindq run_iteration_safe[OF assms(1)])

lemma winv_new:
  assumes "readiness_worker_new sys ctx w = (Inr s, w')"
    and "config_known (ctx_servers ctx) (with_groups (ctx_upstream_groups ctx))"
  shows "winv s"
  using assms
  by (auto simp: readiness_worker_new_def winv_def Let_def slab_len_filter split: prod.splits sum.splits if_splits)

end
