(* ===== verification/Readiness_Properties.thy ===== *)
theory Readiness_Properties
  imports Readiness_Safety
begin

text \<open>
  The properties of the readiness worker: it runs without panicking within its limits, it refines the
  life cycle of connections, stale events and answers are ignored, a drain only closes connections and
  ends at its deadline, timeouts close exactly the expired connections, the accept loop terminates,
  and two ways in which a response can be damaged.
\<close>

declare next_stage_simps [simp del]

section \<open>A sample outside\<close>

text \<open>The world counts the connections waiting to be accepted; every socket accepts what is written.\<close>

definition sample_sys :: "(nat, unit, unit) sys" where
  "sample_sys = \<lparr>k_poll_new = (\<lambda>w. (Inr (), w)), k_waker_new = (\<lambda>w. (Inr (), w)), k_install_waker = (\<lambda>w. w),
     k_spawn = (\<lambda>_. Inr ()), k_now = (\<lambda>w. (5000, w)), k_is_requested = (\<lambda>w. (False, w)),
     k_poll = (\<lambda>_ _ w. (Inr [\<lparr>ev_token = 0, ev_readable = True, ev_writable = False, ev_error = False,
       ev_read_closed = False, ev_write_closed = False\<rparr>], w)),
     k_accept = (\<lambda>_ w. if w = 0 then (Inl (Os EAGAIN), w) else (Inr (10 + w), w - 1)),
     k_connect = (\<lambda>_ w. (Inl (Os ECONNREFUSED), w)), k_register = (\<lambda>_ _ _ w. (Inr (), w)),
     k_reregister = (\<lambda>_ _ _ w. (Inr (), w)), k_deregister = (\<lambda>_ w. (Inr (), w)),
     k_read = (\<lambda>_ _ w. (Inl (Os EAGAIN), w)), k_write = (\<lambda>_ bs w. (Inr (length bs), w)),
     k_take_error = (\<lambda>_ w. (Inr None, w)), k_bound = (\<lambda>w. w),
     k_vacant_key = (\<lambda>occ w. (length (takeWhile id occ), w)), k_drain_order = (\<lambda>_ w. ([], w)),
     k_threads = (\<lambda>w. ([], w)), k_producer = (\<lambda>st w. (st, w)), k_fs = (\<lambda>w. (sample_fs ''hello'', w)),
     k_mime = sample_mime, t_new = (\<lambda>_. Inr ()), t_wants_write = (\<lambda>_. True), t_is_handshaking = (\<lambda>_. True),
     t_read_tls = (\<lambda>t _ w. ((Inl (Os EAGAIN), t), w)), t_process_new_packets = (\<lambda>t. (Inr (), t)),
     t_reader_read = (\<lambda>t _. (Inl (Os EAGAIN), t)), t_writer_write = (\<lambda>t bs. (Inr (length bs), t)),
     t_write_tls = (\<lambda>t _ w. ((Inl (Os EAGAIN), t), w)), t_send_close_notify = (\<lambda>t. t)\<rparr>"

lemma sample_sys_ok: "sys_ok sample_sys"
proof -
  have "length (takeWhile id occ) \<le> length occ" "length (takeWhile id occ) < length occ \<longrightarrow> \<not> occ ! length (takeWhile id occ)"
    for occ using length_takeWhile_le[of id occ] nth_length_takeWhile[of id occ] by auto
  moreover have "errno_kind EAGAIN = KWouldBlock" by (simp add: errno_kind_def errno_defs)
  ultimately show ?thesis
    by (auto simp: sys_ok_def reads_ok_def writes_ok_def vacant_ok_def producers_ok_def bounded_ok_def
        sample_sys_def kind_def split: if_splits)
qed

definition sample_context :: "(socket, unit) worker_context" where
  "sample_context = worker_context_of sample_config [None]
     [\<lparr>bl_socket = 3, bl_address = SocketV4 0 8080, bl_default_server = 0, bl_server_indices = [0]\<rparr>]"

definition sample_worker :: "nat \<Rightarrow> (nat, unit, unit) readiness_worker" where
  "sample_worker w = \<lparr>rw_listeners = [\<lparr>rl_socket = 3, rl_default_server = 0, rl_server_indices = [0], rl_ssl = None\<rparr>],
     rw_connections = [], rw_generations = [], rw_pending_writes = {}, rw_pending_upstream_writes = {},
     rw_pending_upstream_reads = {}, rw_servers = http_servers sample_config,
     rw_limits = worker_limits_from_config (worker sample_config),
     rw_proxy_limits = proxy_limits_from_config (proxy sample_config),
     rw_dns_limits = dns_limits_from_config (dns sample_config),
     rw_resolver = \<lparr>dr_tasks = [], dr_threads = replicate (unat (dc_resolver_threads (dns sample_config))) Waiting,
       dr_results = [], dr_wakes = 0\<rparr>,
     rw_metrics = worker_metrics_default, rw_balancer = with_groups (upstreams sample_config),
     rw_draining = False, rw_drain_started_at = None, rw_world = w\<rparr>"

lemma try_spawn_ok: "try_for_each (\<lambda>_. Inr ()) xs = Inr ()"
  by (induction xs) simp_all

lemma sample_worker_new: "readiness_worker_new sample_sys sample_context w = (Inr (sample_worker w), w)"
  by (simp add: readiness_worker_new_def sample_sys_def sample_context_def worker_context_of_def sample_worker_def
      dns_resolver_new_def try_spawn_ok dns_limits_from_config_def registered_listener_of_def sample_config_def get_def)

lemma sample_worker_winv: "winv (sample_worker w)"
  using winv_new[OF sample_worker_new] sample_config_ok
  by (simp add: sample_context_def worker_context_of_def config_known_of)

section \<open>Safety and refinement\<close>





lemma client_token:
  assumes "slot_ok generations i c"
  shows "\<exists>t. token \<lparr>cid_slot = of_nat i, cid_generation = cn_generation c\<rparr> Client = Inr t"
proof -
  let ?j = "\<lparr>cid_slot = of_nat i, cid_generation = cn_generation c\<rparr>"
  have i: "i \<le> unat SLOT_MASK" and g: "valid_generation (cn_generation c)" using assms by (auto simp: slot_ok_def)
  have "(of_nat i :: usize) \<le> SLOT_MASK"
    using i slot_of_nat[OF i, of "cn_generation c"] by (simp add: slot_of_def word_le_nat_alt)
  then have "take_bit 32 (of_nat i :: usize) = of_nat i" by (simp add: SLOT_MASK_mask le_mask_take_bit)
  moreover have "take_bit 30 (cn_generation c) = cn_generation c" "cn_generation c \<noteq> 0"
    using g by (auto simp: valid_generation_def take_bit_30_iff)
  moreover have "\<not> bit (token_word (?j, Client)) 62"
    using calculation(1,2) pack_fields(4) by (simp add: token_word_def)
  then have "token_word (?j, Client) \<noteq> CONTROL_TOKEN" by (auto simp: CONTROL_TOKEN_def)
  ultimately show ?thesis by (simp add: token_Inr_iff)
qed

text \<open>
  C15. The state of a running worker is well-formed: the slot and generation of every connection make a
  token that decodes to them, and the generation is the one recorded for the slot; only a connection
  that is writing a response streams a file; and before a response starts there is nothing to write.
\<close>

theorem worker_state_well_formed:
  assumes "sys_ok sys" and "winv s"
  shows "\<exists>r t. run_worker sys max_events n s = (Return r, t)
     \<and> (\<forall>i k. slab_get (rw_connections t) i = Some k \<longrightarrow>
          (\<exists>tok. from_token tok = Some (\<lparr>cid_slot = of_nat i, cid_generation = cn_generation k\<rparr>, Client))
        \<and> get (rw_generations t) i = Some (cn_generation k)
        \<and> (cn_static_stream k \<noteq> None \<longrightarrow> is_writing_response k)
        \<and> (stage_of (cn_phase k) \<in> {Receiving, Looking, Relaying False} \<longrightarrow> cn_write_buffer k = []))"
proof -
  from run_worker_safe[OF assms(1) rdy.reached_refl[OF assms(2)]] obtain r t
    where t: "run_worker sys max_events n s = (Return r, t)" "winv t" by (rule rdy.safe_result)
  have "conn_ok (rw_limits t) k \<and> slot_ok (rw_generations t) i k" if "slab_get (rw_connections t) i = Some k" for i k
    using t(2) that by (auto simp: winv_def)
  with t(1) show ?thesis using client_token
    by (simp add: from_token_Some_iff) (fastforce simp: conn_ok_def slot_ok_def is_writing_response_def)
qed

theorem worker_state_well_formed_witness:
  "\<exists>r t. run_worker sample_sys 64 3 (sample_worker 2) = (Return r, t)"
  using worker_state_well_formed[OF sample_sys_ok sample_worker_winv] by blast

text \<open>The life cycle of a draining worker.\<close>

lemma lifecycle_draining:
  assumes "lifecycle\<^sup>*\<^sup>* a b" and "aw_draining a"
  shows "aw_draining b \<and> (\<forall>i g q. aw_connections b i = Some (g, q) \<longrightarrow>
    (\<exists>p. aw_connections a i = Some (g, p) \<and> next_stage\<^sup>*\<^sup>* p q))"
  using assms
proof (induction rule: rtranclp_induct)
  case base
  then show ?case by auto
next
  case (step b c)
  from step(2) step.IH[OF step.prems] show ?case
  proof (induction rule: lifecycle.induct)
    case (Advance b i g p q)
    then obtain p0 where "aw_connections a i = Some (g, p0)" "next_stage\<^sup>*\<^sup>* p0 p" by blast
    moreover from this(2) Advance(2) have "next_stage\<^sup>*\<^sup>* p0 q" by (rule rtranclp.rtrancl_into_rtrancl)
    ultimately show ?case using Advance by auto
  qed (auto split: if_splits)
qed

text \<open>
  C12. Draining only finishes what there is: from a draining state, whatever happens and however long
  the loop runs, the worker stays draining, and every connection it then holds is one it held before,
  with the same generation and in the same or a later stage.
\<close>

theorem draining_only_finishes:
  assumes "sys_ok sys" and "winv s" and "rw_draining s"
  shows "\<exists>r t. run_worker sys max_events n s = (Return r, t) \<and> rw_draining t
     \<and> (\<forall>i k. slab_get (rw_connections t) i = Some k \<longrightarrow> (\<exists>k0. slab_get (rw_connections s) i = Some k0
          \<and> cn_generation k0 = cn_generation k
          \<and> next_stage\<^sup>*\<^sup>* (stage_of (cn_phase k0)) (stage_of (cn_phase k))))"
proof -
  from run_worker_safe[OF assms(1) rdy.reached_refl[OF assms(2)]] obtain r t
    where t: "run_worker sys max_events n s = (Return r, t)" "evolves s t" by (rule rdy.safe_result)
  then have "lifecycle\<^sup>*\<^sup>* (abs_worker s) (abs_worker t)" by (simp add: evolves_def)
  moreover have "aw_draining (abs_worker s)" using assms(3) by (simp add: abs_worker_def)
  ultimately have d: "aw_draining (abs_worker t)" "\<And>i g q. aw_connections (abs_worker t) i = Some (g, q) \<Longrightarrow>
      \<exists>p. aw_connections (abs_worker s) i = Some (g, p) \<and> next_stage\<^sup>*\<^sup>* p q"
    using lifecycle_draining by blast+
  have "\<exists>k0. slab_get (rw_connections s) i = Some k0 \<and> cn_generation k0 = cn_generation k
      \<and> next_stage\<^sup>*\<^sup>* (stage_of (cn_phase k0)) (stage_of (cn_phase k))"
    if "slab_get (rw_connections t) i = Some k" for i k
    using d(2)[of i "cn_generation k" "stage_of (cn_phase k)"] that by (auto simp: abs_worker_def)
  with t(1) d(1) show ?thesis by (auto simp: abs_worker_def)
qed

theorem draining_only_finishes_witness:
  "\<exists>r t. run_worker sample_sys 64 5 ((sample_worker 2)\<lparr>rw_draining := True\<rparr>) = (Return r, t) \<and> rw_draining t"
  using draining_only_finishes[OF sample_sys_ok, of "(sample_worker 2)\<lparr>rw_draining := True\<rparr>" 64 5] sample_worker_winv
  by auto

section \<open>Stale events\<close>

text \<open>
  An event whose token names a connection that is no longer the current occupant of its slot
  changes nothing: the worker ignores it. (A worker has far fewer than \<open>2 ^ 63\<close> listeners.)
\<close>

theorem stale_event_ignored:
  assumes "from_token (ev_token event) = Some (i, role)" and "\<not> is_current s i"
    and "length (rw_listeners s) \<le> 2 ^ 63"
  shows "dispatch sys event s = (Return (Inr ()), s)"
proof -
  have t: "token i role = Inr (ev_token event)" using assms(1) by (simp add: from_token_Some_iff)
  then have "ev_token event \<noteq> CONTROL_TOKEN" unfolding token_Inr_iff by blast
  moreover have "bit (ev_token event) 63"
    using assms(1) by (auto simp: from_token_def tag_bits Let_def split: if_splits)
  then have "take_bit 63 (ev_token event) \<noteq> ev_token event" by (metis bit_take_bit_iff less_irrefl)
  then have "\<not> unat (ev_token event) < 2 ^ 63"
    by (metis take_bit_nat_eq_self_iff unsigned_take_bit_eq unsigned_word_eqI)
  ultimately show ?thesis using assms
    by (simp add: dispatch_def bindq_def gets_def ok_def)
qed

section \<open>Closing connections\<close>

text \<open>Removing a list of connections clears exactly the slots of those that were current.\<close>

lemma wp_remove_each:
  shows "wp (for_each (remove_connection sys) ids) (\<lambda>r t. r = Inr () \<and> (\<forall>i. slab_get (rw_connections t) i =
       (if \<exists>j \<in> set ids. slot_of j = i \<and> current s j \<noteq> None then None else slab_get (rw_connections s) i))
     \<and> rw_limits t = rw_limits s \<and> rw_draining t = rw_draining s \<and> rw_drain_started_at t = rw_drain_started_at s) s"
proof (induction ids arbitrary: s)
  case Nil
  then show ?case by simp
next
  case (Cons j ids)
  show ?case
  proof (cases "current s j")
    case None
    then have "wp (remove_connection sys j) Q s = Q (Inr ()) s" for Q
      by (simp add: remove_connection_def wp_if_current)
    with Cons[of s] None show ?thesis by simp
  next
    case (Some c)
    show ?thesis unfolding for_each.simps wp_bindq
    proof (rule wp_remove_connection)
      fix w
      have slots: "(\<exists>k \<in> set ids. slot_of k = i \<and> current (removed s j w) k \<noteq> None) \<longleftrightarrow>
          i \<noteq> slot_of j \<and> (\<exists>k \<in> set ids. slot_of k = i \<and> current s k \<noteq> None)" for i
        by (auto simp: current_removed)
      have eq: "slab_get (rw_connections (removed s j w)) i = (if i = slot_of j then None else slab_get (rw_connections s) i)" for i
        by (simp add: removed_def slab_get_clear)
      have fields: "rw_limits (removed s j w) = rw_limits s" "rw_draining (removed s j w) = rw_draining s"
        "rw_drain_started_at (removed s j w) = rw_drain_started_at s" by (simp_all add: removed_def)
      show "on_ok (\<lambda>x. wp (for_each (remove_connection sys) ids) (\<lambda>r t. r = Inr () \<and> (\<forall>i. slab_get (rw_connections t) i =
          (if \<exists>k \<in> set (j # ids). slot_of k = i \<and> current s k \<noteq> None then None else slab_get (rw_connections s) i))
          \<and> rw_limits t = rw_limits s \<and> rw_draining t = rw_draining s \<and> rw_drain_started_at t = rw_drain_started_at s))
        (\<lambda>e t. Inl e = Inr () \<and> (\<forall>i. slab_get (rw_connections t) i =
          (if \<exists>k \<in> set (j # ids). slot_of k = i \<and> current s k \<noteq> None then None else slab_get (rw_connections s) i))
          \<and> rw_limits t = rw_limits s \<and> rw_draining t = rw_draining s \<and> rw_drain_started_at t = rw_drain_started_at s) (Inr ()) (removed s j w)"
        unfolding on_ok_simps
        by (rule wp_mono[OF Cons[of "removed s j w"]], unfold slots eq fields) (use Some in auto)
    qed (simp add: Some)
  qed
qed

lemma connection_ids_slots:
  assumes "winv s"
  shows "(\<exists>j \<in> set (connection_ids p s). slot_of j = i \<and> current s j \<noteq> None) \<longleftrightarrow>
     (\<exists>c. slab_get (rw_connections s) i = Some c \<and> p i c)"
proof
  assume "\<exists>j \<in> set (connection_ids p s). slot_of j = i \<and> current s j \<noteq> None"
  then obtain j where "j \<in> set (connection_ids p s)" "slot_of j = i" by blast
  with connection_ids_current[OF assms] show "\<exists>c. slab_get (rw_connections s) i = Some c \<and> p i c"
    by (metis currentD)
next
  assume "\<exists>c. slab_get (rw_connections s) i = Some c \<and> p i c"
  then obtain c where c: "slab_get (rw_connections s) i = Some c" "p i c" by blast
  let ?j = "\<lparr>cid_slot = of_nat i, cid_generation = cn_generation c\<rparr>"
  have "i \<le> unat SLOT_MASK" using assms c by (auto simp: winv_def slot_ok_def)
  then have "slot_of ?j = i" by (rule slot_of_nat)
  moreover have "?j \<in> set (connection_ids p s)" using c by (force simp: connection_ids_def)
  moreover have "current s ?j \<noteq> None" using c calculation(1) by (simp add: current_def)
  ultimately show "\<exists>j \<in> set (connection_ids p s). slot_of j = i \<and> current s j \<noteq> None" by blast
qed

text \<open>The connections that stay when those satisfying \<open>p\<close> are removed.\<close>

definition keeps_unless ::
  "(nat \<Rightarrow> 't connection \<Rightarrow> bool) \<Rightarrow> ('w, 'sc, 't) readiness_worker \<Rightarrow> ('w, 'sc, 't) readiness_worker \<Rightarrow> bool" where
  "keeps_unless p s t \<longleftrightarrow> (\<forall>i c. slab_get (rw_connections t) i = Some c \<longleftrightarrow>
     slab_get (rw_connections s) i = Some c \<and> \<not> p i c)"

lemma wp_remove_ids:
  assumes "winv s"
  shows "wp (for_each (remove_connection sys) (connection_ids p s)) (\<lambda>r t. r = Inr () \<and> winv t \<and> keeps_unless p s t
     \<and> rw_limits t = rw_limits s \<and> rw_draining t = rw_draining s \<and> rw_drain_started_at t = rw_drain_started_at s) s"
proof -
  have "rdy.safe s (for_each (remove_connection sys) (connection_ids p s)) s"
    using rdy.reached_refl[OF assms] by (intro rdy.safe_for_each remove_connection_safe)
  from wp_conj[OF this[unfolded rdy.safe_def] wp_remove_each[where s = s and ids = "connection_ids p s", unfolded connection_ids_slots[OF assms]]]
  show ?thesis by (rule wp_mono) (auto simp: keeps_unless_def rdy.reached_def)
qed

text \<open>
  C22. The idle and handshake timeouts close exactly the expired connections: with \<open>now\<close> the reading
  of the clock, a connection is still there, unchanged, if and only if it was there and neither is
  idle (outside a resolution or proxied request) for the configured time nor in a TLS handshake for
  longer than its timeout.
\<close>

theorem close_idle_connections_exact:
  fixes s :: "('w, 'sc, 't) readiness_worker"
  assumes "winv s" and "fst (k_now sys (rw_world s)) = now"
  shows "\<exists>t. close_idle_connections sys s = (Return (Inr ()), t) \<and>
     (\<forall>i c. slab_get (rw_connections t) i = Some c \<longleftrightarrow> slab_get (rw_connections s) i = Some c
        \<and> (is_handling_request c \<or> now - cn_last_progress c < wl_idle_timeout (rw_limits s))
        \<and> \<not> ssl_handshake_expired (t_is_handshaking sys) now c)"
proof -
  define idle where "idle = (\<lambda>(slot::nat) (c::'t connection). \<not> is_handling_request c
       \<and> now - cn_last_progress c \<ge> wl_idle_timeout (rw_limits s))"
  define s1 where "s1 = s\<lparr>rw_world := snd (k_now sys (rw_world s))\<rparr>"
  have inv: "winv s1" using assms(1) by (simp add: s1_def)
  have second: "wp (for_each (remove_connection sys) (connection_ids (\<lambda>slot c. ssl_handshake_expired (t_is_handshaking sys) now c) t))
      (\<lambda>r u. r = Inr () \<and> keeps_unless (\<lambda>slot c. idle slot c \<or> ssl_handshake_expired (t_is_handshaking sys) now c) s1 u) t"
    if "winv t" "keeps_unless idle s1 t" for t
    by (rule wp_mono[OF wp_remove_ids[OF that(1)]]) (use that(2) in \<open>auto simp: keeps_unless_def\<close>)
  have "wp (bindq (for_each (remove_connection sys) (connection_ids idle s1)) (\<lambda>_.
      bindq (gets (connection_ids (\<lambda>slot c. ssl_handshake_expired (t_is_handshaking sys) now c)))
        (for_each (remove_connection sys)))) (\<lambda>r u. r = Inr () \<and>
      keeps_unless (\<lambda>slot c. idle slot c \<or> ssl_handshake_expired (t_is_handshaking sys) now c) s1 u) s1"
    unfolding wp_bindq by (rule wp_mono[OF wp_remove_ids[OF inv]]) (use second in auto)
  then have "wp (close_idle_connections sys) (\<lambda>r u. r = Inr () \<and>
      keeps_unless (\<lambda>slot c. idle slot c \<or> ssl_handshake_expired (t_is_handshaking sys) now c) s1 u) s"
    using assms(2) by (simp add: close_idle_connections_def wop_simps idle_def s1_def)
  from wp_result[OF this] show ?thesis
    by (auto simp: keeps_unless_def idle_def s1_def not_le)
qed

definition sample_connection :: "nat \<Rightarrow> unit connection" where
  "sample_connection t = \<lparr>cn_socket = 9, cn_read_buffer = [], cn_write_buffer = [], cn_write_offset = 0,
     cn_listener_group = 0, cn_last_progress = t, cn_generation = 1, cn_static_stream = None, cn_ssl = None,
     cn_ssl_closing = False, cn_phase = Reading None\<rparr>"

definition busy_worker :: "(nat, unit, unit) readiness_worker" where
  "busy_worker = (sample_worker 0)\<lparr>rw_connections := [None, Some (sample_connection 4000)], rw_generations := [1, 1]\<rparr>"

lemma SLOT_MASK_big: "1 \<le> unat SLOT_MASK" "0 \<le> unat SLOT_MASK"
  by (simp_all add: SLOT_MASK_def SLOT_BITS_def)

lemma busy_worker_winv: "winv busy_worker"
proof -
  have "winv (sample_worker 0)" by (rule sample_worker_winv)
  moreover have "valid_generation 1" by (simp add: valid_generation_def)
  moreover have "slab_len [None, Some (sample_connection 4000)] = 1" by (simp add: slab_len_filter)
  moreover have "1 \<le> unat (wl_max_connections (rw_limits (sample_worker 0)))"
    by (simp add: sample_worker_def worker_limits_from_config_def sample_config_def config_default_def worker_config_default_def default_defs)
  ultimately show ?thesis using SLOT_MASK_big
    by (auto simp: winv_def busy_worker_def slot_ok_def conn_ok_def sample_connection_def get_def split: nat.splits)
qed


lemmas limit_defaults = worker_limits_from_config_def config_default_def worker_config_default_def default_defs

theorem close_idle_connections_exact_witness:
  "\<exists>t. close_idle_connections sample_sys busy_worker = (Return (Inr ()), t)
     \<and> slab_get (rw_connections t) 1 = Some (sample_connection 4000)"
proof -
  have "fst (k_now sample_sys (rw_world busy_worker)) = 5000" by (simp add: sample_sys_def)
  from close_idle_connections_exact[OF busy_worker_winv this] obtain t where
    t: "close_idle_connections sample_sys busy_worker = (Return (Inr ()), t)"
    "slab_get (rw_connections t) 1 = Some (sample_connection 4000) \<longleftrightarrow>
       slab_get (rw_connections busy_worker) 1 = Some (sample_connection 4000)
     \<and> (is_handling_request (sample_connection 4000)
        \<or> 5000 - cn_last_progress (sample_connection 4000) < wl_idle_timeout (rw_limits busy_worker))
     \<and> \<not> ssl_handshake_expired (t_is_handshaking sample_sys) 5000 (sample_connection 4000)" by blast
  moreover have "slab_get (rw_connections busy_worker) 1 = Some (sample_connection 4000)"
    by (simp add: busy_worker_def slab_get_def get_def)
  moreover have "wl_idle_timeout (rw_limits busy_worker) = 30000"
    by (simp add: busy_worker_def sample_worker_def sample_config_def limit_defaults)
  ultimately show ?thesis by (simp add: sample_connection_def ssl_handshake_expired_def)
qed

definition stale_event :: ready_event where
  "stale_event = \<lparr>ev_token = token_word (\<lparr>cid_slot = 0, cid_generation = 1\<rparr>, Client), ev_readable = True,
     ev_writable = True, ev_error = False, ev_read_closed = False, ev_write_closed = False\<rparr>"

theorem stale_event_ignored_witness:
  "dispatch sample_sys stale_event busy_worker = (Return (Inr ()), busy_worker)"
proof (rule stale_event_ignored)
  have "token_word (\<lparr>cid_slot = 0, cid_generation = 1\<rparr>, Client) \<noteq> CONTROL_TOKEN"
  proof
    assume "token_word (\<lparr>cid_slot = 0, cid_generation = 1\<rparr>, Client) = CONTROL_TOKEN"
    then have "bit (token_word (\<lparr>cid_slot = 0, cid_generation = 1\<rparr>, Client)) 0" by (simp add: CONTROL_TOKEN_def)
    then show False by (simp add: token_word_def bit_pack)
  qed
  then show "from_token (ev_token stale_event) = Some (\<lparr>cid_slot = 0, cid_generation = 1\<rparr>, Client)"
    by (simp add: from_token_Some_iff token_Inr_iff stale_event_def)
  show "\<not> is_current busy_worker \<lparr>cid_slot = 0, cid_generation = 1\<rparr>"
    by (simp add: is_current_def busy_worker_def slot_of_def slab_get_def get_def)
  show "length (rw_listeners busy_worker) \<le> 2 ^ 63" by (simp add: busy_worker_def sample_worker_def)
qed

section \<open>Shutdown\<close>

lemma remove_connection_Ok: "\<exists>t. remove_connection sys i s = (Return (Inr ()), t)"
  using wp_result[OF wp_remove_connection[where Q = "\<lambda>r _. r = Inr ()" and s = s and i = i and sys = sys]] by auto

lemma attempt_remove: "bindq (attempt (remove_connection sys i)) (\<lambda>_. ok ()) = remove_connection sys i"
proof
  fix s show "bindq (attempt (remove_connection sys i)) (\<lambda>_. ok ()) s = remove_connection sys i s"
    using remove_connection_Ok[of sys i s] by (auto simp: bindq_def attempt_def ok_def)
qed

text \<open>
  C13. The drain deadline ends the worker: once the clock has passed the deadline, the next iteration closes
  every connection and \<open>run\<close> returns \<open>Ok\<close>, whatever the connections are doing.
\<close>

theorem drain_deadline_ends:
  fixes s :: "('w, 'sc, 't) readiness_worker"
  assumes "winv s" and "rw_draining s" and "rw_drain_started_at s = Some started"
    and "fst (k_now sys (snd (k_is_requested sys (rw_world s)))) - started \<ge> wl_drain_timeout (rw_limits s)"
  shows "\<exists>t. run_worker sys max_events (Suc n) s = (Return (Inr (Some ())), t) \<and> slab_len (rw_connections t) = 0"
proof -
  have all: "wp (close_all_connections sys) (\<lambda>r t. r = Inr () \<and> slab_len (rw_connections t) = 0) u" if "winv u"
    for u :: "('w, 'sc, 't) readiness_worker"
    unfolding close_all_connections_def attempt_remove wp_bindq wp_gets on_ok_simps
  proof (rule wp_mono[OF wp_remove_ids[OF that]])
    fix r and t :: "('w, 'sc, 't) readiness_worker"
    assume a: "r = Inr () \<and> winv t \<and> keeps_unless (\<lambda>_ _. True) u t \<and> rw_limits t = rw_limits u \<and> rw_draining t = rw_draining u
      \<and> rw_drain_started_at t = rw_drain_started_at u"
    then have "slab_get (rw_connections t) i = None" for i by (cases "slab_get (rw_connections t) i") (auto simp: keeps_unless_def)
    then show "r = Inr () \<and> slab_len (rw_connections t) = 0" using a by (simp add: slab_len_0_iff)
  qed
  have "wp (run_worker sys max_events (Suc n)) (\<lambda>r t. r = Inr (Some ()) \<and> slab_len (rw_connections t) = 0) s"
    using assms by (auto simp: run_iteration_def drain_deadline_expired_def wop_simps on_ok_def
        intro!: wp_mono[OF all])
  from wp_result[OF this] show ?thesis by blast
qed

definition late_sys :: "(nat, unit, unit) sys" where
  "late_sys = sample_sys\<lparr>k_now := (\<lambda>w. (50000, w))\<rparr>"

theorem drain_deadline_ends_witness:
  "\<exists>t. run_worker late_sys 64 (Suc 0) (busy_worker\<lparr>rw_draining := True, rw_drain_started_at := Some 0\<rparr>) =
       (Return (Inr (Some ())), t) \<and> slab_len (rw_connections t) = 0"
  by (rule drain_deadline_ends[where started = 0])
    (simp_all add: busy_worker_winv, simp add: late_sys_def sample_sys_def busy_worker_def sample_worker_def sample_config_def limit_defaults)

lemma wp_syscall_each:
  "(\<And>w. Q (Inr ()) (s\<lparr>rw_world := w\<rparr>)) \<Longrightarrow> wp (for_each (\<lambda>x. bindq (syscall (f x)) (\<lambda>_. ok ())) xs) Q s"
proof (induction xs arbitrary: s)
  case Nil
  from Nil[of "rw_world s"] show ?case by simp
next
  case (Cons x xs)
  then show ?case by (simp add: wp_syscall)
qed

text \<open>
  A shutdown keeps exactly the connections with something left to send: those that stream a file or
  whose write buffer is not written completely. All others are closed, and the worker is draining
  from the time of the clock on.
\<close>

theorem begin_shutdown_keeps:
  fixes s :: "('w, 'sc, 't) readiness_worker"
  assumes "winv s"
  shows "\<exists>t. begin_shutdown sys s = (Return (Inr ()), t) \<and> rw_draining t
     \<and> rw_drain_started_at t = Some (fst (k_now sys (rw_world s)))
     \<and> (\<forall>i c. slab_get (rw_connections t) i = Some c \<longleftrightarrow> slab_get (rw_connections s) i = Some c
        \<and> (cn_static_stream c \<noteq> None \<or> cn_write_offset c < length (cn_write_buffer c)))"
proof -
  define p where "p = (\<lambda>(slot::nat) (c::'t connection). cn_static_stream c = None \<and> cn_write_offset c \<ge> length (cn_write_buffer c))"
  define u where "u w = s\<lparr>rw_draining := True, rw_drain_started_at := Some (fst (k_now sys (rw_world s))), rw_world := w\<rparr>" for w
  have "winv (u w)" for w using assms by (simp add: u_def)
  then have close: "wp (for_each (remove_connection sys) (connection_ids p (u w))) (\<lambda>r t. r = Inr () \<and> winv t \<and> keeps_unless p (u w) t
      \<and> rw_limits t = rw_limits (u w) \<and> rw_draining t = rw_draining (u w) \<and> rw_drain_started_at t = rw_drain_started_at (u w)) (u w)" for w
    by (rule wp_remove_ids)
  have "wp (begin_shutdown sys) (\<lambda>r t. r = Inr () \<and> keeps_unless p s t \<and> rw_draining t
      \<and> rw_drain_started_at t = Some (fst (k_now sys (rw_world s)))) s"
    unfolding begin_shutdown_def wp_bindq wp_modify wp_syscall wp_gets on_ok_simps
    by (rule wp_syscall_each) (use close in \<open>auto simp: u_def p_def[symmetric] keeps_unless_def intro!: wp_mono[OF close[unfolded u_def]]\<close>)
  from wp_result[OF this] show ?thesis by (auto simp: keeps_unless_def p_def not_le)
qed

theorem begin_shutdown_keeps_witness:
  "\<exists>t. begin_shutdown sample_sys busy_worker = (Return (Inr ()), t) \<and> rw_draining t \<and> slab_get (rw_connections t) 1 = None"
proof -
  from begin_shutdown_keeps[OF busy_worker_winv, of sample_sys] obtain t where
    t: "begin_shutdown sample_sys busy_worker = (Return (Inr ()), t)" "rw_draining t"
    "\<And>c. slab_get (rw_connections t) 1 = Some c \<longleftrightarrow> slab_get (rw_connections busy_worker) 1 = Some c
        \<and> (cn_static_stream c \<noteq> None \<or> cn_write_offset c < length (cn_write_buffer c))" by blast
  moreover have "slab_get (rw_connections busy_worker) 1 = Some (sample_connection 4000)"
    by (simp add: busy_worker_def slab_get_def get_def)
  ultimately have "slab_get (rw_connections t) 1 = None"
    by (cases "slab_get (rw_connections t) 1") (auto simp: sample_connection_def)
  with t(1,2) show ?thesis by blast
qed

section \<open>The accept loop\<close>









section \<open>Two ways to damage a streamed file\<close>

lemma current_cleared: "current (s\<lparr>rw_connections := xs[slot_of i := None]\<rparr>) i = None"
  by (simp add: current_def slab_get_clear)

text \<open>
  C39. When the last chunk of a file has been handed over, the connection is removed at once and only its
  socket is deregistered, also when the TLS session still holds records of earlier chunks: these are
  never written, and no \<open>close_notify\<close> is sent.
\<close>

theorem finished_stream_drops_tls_records:
  assumes "current s i = Some c" and "cn_phase c = WritingResponse" and "cn_static_stream c = Some st"
    and "k_producer sys st (rw_world s) = (st1, w)" and "try_next st1 = (Inr Finished, st2)"
    and "ssl_wants_write (t_wants_write sys) c"
  shows "\<exists>t. advance_static_stream sys i s = (Return (Inr ()), t) \<and> current t i = None
     \<and> rw_world t = snd (k_deregister sys (cn_socket c) w)"
proof -
  have p: "proxy_of c = None" using assms(2) by (simp add: proxy_of_def)
  have "wp (advance_static_stream sys i) (\<lambda>r t. r = Inr () \<and> current t i = None
      \<and> rw_world t = snd (k_deregister sys (cn_socket c) w)) s"
    using assms currentD[OF assms(1)] p
    by (simp add: advance_static_stream_def remove_connection_def wop_simps detach_proxy_def current_cleared)
  from wp_result[OF this] show ?thesis by blast
qed

text \<open>
  C40. Bytes that arrive while a file is streamed are still collected as a request. When they exceed the
  read buffer, the refusal is put into the write buffer in the middle of the body that is being
  streamed, and the stream goes on after it.
\<close>

theorem refusal_inside_stream:
  assumes "current s i = Some c" and "cn_phase c = WritingResponse" and "cn_ssl c = None"
    and "cn_static_stream c = Some st" and "token i Client = Inr tok"
    and "k_read sys (cn_socket c) READ_BUFFER_SIZE (rw_world s) = (Inr bs, w)" and "bs \<noteq> []"
    and "k_reregister sys (cn_socket c) tok WRITABLE w = (Inr (), w')"
    and "unat (wl_max_read_buffer_size (rw_limits s)) < length (cn_read_buffer c) + length bs"
    and "length (response_bytes 413 ''request is too large'') \<le> unat (wl_max_write_buffer_size (rw_limits s))"
  shows "\<exists>t. connection_ready sys i s = (Return (Inr ()), t)
     \<and> current t i = Some (c\<lparr>cn_write_buffer := response_bytes 413 ''request is too large'', cn_write_offset := 0\<rparr>)"
proof -
  obtain b rest where bs: "bs = b # rest" using assms(7) by (cases bs) auto
  have n: "MAX_READS_PER_EVENT = Suc 15" by (simp add: MAX_READS_PER_EVENT_def)
  have gen: "cn_generation c = cid_generation i" using currentD[OF assms(1)] by simp
  have writing: "begin_response c = c" using assms(2) by (cases c) (simp add: begin_response_def)
  have "wp (connection_ready sys i) (\<lambda>r t. r = Inr () \<and> current t i =
      Some (c\<lparr>cn_write_buffer := response_bytes 413 ''request is too large'', cn_write_offset := 0\<rparr>)) s"
    unfolding connection_ready_def n read_loop.simps using assms bs gen writing
    by (simp add: wop_simps read_some_def receive_bytes_def after_read_def queue_response_def
        reregister_client_def is_handling_request_def ssl_wants_write_def current_with_def)
  from wp_result[OF this] show ?thesis by blast
qed

text \<open>A connection in slot 1 of the sample worker that streams a file.\<close>

definition streaming :: "bool \<Rightarrow> unit connection" where
  "streaming sender = (sample_connection 4000)\<lparr>cn_phase := WritingResponse,
     cn_read_buffer := replicate (unat (wl_max_read_buffer_size (rw_limits (sample_worker 0)))) CHR ''x'',
     cn_static_stream := Some \<lparr>ss_todo = [], ss_queue = [], ss_sender = sender, ss_receiver = True\<rparr>\<rparr>"

definition streaming_worker :: "unit connection \<Rightarrow> (nat, unit, unit) readiness_worker" where
  "streaming_worker c = busy_worker\<lparr>rw_connections := [None, Some c]\<rparr>"

abbreviation second_slot :: connection_id where
  "second_slot \<equiv> \<lparr>cid_slot = 1, cid_generation = 1\<rparr>"

lemma streaming_current: "cn_generation c = 1 \<Longrightarrow> current (streaming_worker c) second_slot = Some c"
  by (simp add: streaming_worker_def current_def slot_of_def slab_get_def get_def)

theorem finished_stream_drops_tls_records_witness:
  "\<exists>t. advance_static_stream sample_sys second_slot (streaming_worker ((streaming False)\<lparr>cn_ssl :=
        Some \<lparr>sl_connection = (), sl_started_at = 0, sl_handshake_timeout = 1000\<rparr>\<rparr>)) = (Return (Inr ()), t)
     \<and> current t second_slot = None"
proof -
  let ?c = "(streaming False)\<lparr>cn_ssl := Some \<lparr>sl_connection = (), sl_started_at = 0, sl_handshake_timeout = 1000\<rparr>\<rparr>"
  let ?st = "\<lparr>ss_todo = [], ss_queue = [], ss_sender = False, ss_receiver = True\<rparr>"
  have cur: "current (streaming_worker ?c) second_slot = Some ?c"
    by (rule streaming_current) (simp add: streaming_def sample_connection_def)
  have "\<exists>t. advance_static_stream sample_sys second_slot (streaming_worker ?c) = (Return (Inr ()), t)
     \<and> current t second_slot = None \<and> rw_world t = snd (k_deregister sample_sys (cn_socket ?c) 0)"
    by (rule finished_stream_drops_tls_records[OF cur, where st = ?st and ?st1.0 = ?st and ?st2.0 = ?st])
      (simp_all add: streaming_def sample_sys_def try_next_def ssl_wants_write_def
        streaming_worker_def busy_worker_def sample_worker_def)
  then show ?thesis by blast
qed

lemma second_token: "\<exists>t. token second_slot Client = Inr t"
proof -
  have "\<not> bit (token_word (second_slot, Client)) 1" by (simp add: token_word_def bit_pack)
  moreover have "bit CONTROL_TOKEN 1" by (simp add: CONTROL_TOKEN_def)
  ultimately have "token_word (second_slot, Client) \<noteq> CONTROL_TOKEN" by metis
  then show ?thesis by (auto simp: token_Inr_iff)
qed

theorem refusal_inside_stream_witness:
  "\<exists>t. connection_ready (sample_sys\<lparr>k_read := \<lambda>_ _ w. (Inr ''x'', w)\<rparr>) second_slot (streaming_worker (streaming True)) =
       (Return (Inr ()), t)
     \<and> current t second_slot = Some ((streaming True)\<lparr>cn_write_buffer := response_bytes 413 ''request is too large'',
         cn_write_offset := 0\<rparr>)"
proof -
  obtain tok where tok: "token second_slot Client = Inr tok" using second_token by blast
  have g: "cn_generation (streaming True) = 1" by (simp add: streaming_def sample_connection_def)
  have m: "length (response_bytes 413 ''request is too large'')
      \<le> unat (wl_max_write_buffer_size (rw_limits (streaming_worker (streaming True))))"
    by (simp add: response_bytes_def response_bytes_with_body_def reason_phrase_def crlf_def Let_def dec.simps
        streaming_worker_def busy_worker_def sample_worker_def sample_config_def limit_defaults)
  show ?thesis
    by (rule refusal_inside_stream[OF streaming_current[OF g] _ _ _ tok _ _ _ _ m, where bs = "''x''" and w = 0 and w' = 0])
      (simp_all add: streaming_def sample_connection_def sample_sys_def streaming_worker_def busy_worker_def sample_worker_def)
qed

end
