(* ===== verification/Uring_Connection.thy ===== *)
theory Uring_Connection
  imports Operation Dns_Resolver Startup Static_Files Upstream_Proxy
begin

text \<open>
  The state of the io_uring runtime: the submissions it makes, its listeners
  (\<open>runtime/io_uring/listener.rs\<close>) and its connections with the upstream half of a proxied request
  (\<open>runtime/io_uring/connection.rs\<close>).

  A submission entry carries the operation, the descriptor and the bytes it points to, and the
  \<open>user_data\<close> word its completions carry. Operations that call \<open>Instant::now\<close> take its value. A rustls session is an
  opaque value of type \<open>'t\<close>.
\<close>

section \<open>Submissions\<close>

datatype submission =
    SubmitAccept socket
  | SubmitAcceptMulti socket
  | SubmitSend socket bytes
  | SubmitRecv socket u32
  | SubmitRead socket
  | SubmitConnect socket socket_addr
  | SubmitAsyncCancel u64

record sqe =
  sq_submission :: submission
  sq_user_data :: u64

section \<open>Listeners\<close>

datatype accept_mode = SingleShot | Multishot

record 'sc uring_listener =
  ul_socket :: socket
  ul_default_server :: nat
  ul_server_indices :: "nat list"
  ul_ssl :: "'sc loaded_ssl_config option"
  ul_generation :: u16
  ul_accept_mode :: accept_mode
  ul_accept_pending :: bool

definition uring_listener_new ::
  "socket \<Rightarrow> nat \<Rightarrow> nat list \<Rightarrow> 'sc loaded_ssl_config option \<Rightarrow> accept_mode \<Rightarrow> 'sc uring_listener" where
  "uring_listener_new socket default_server server_indices ssl_config mode = \<lparr>ul_socket = socket,
     ul_default_server = default_server, ul_server_indices = server_indices, ul_ssl = ssl_config,
     ul_generation = 1, ul_accept_mode = mode, ul_accept_pending = False\<rparr>"

text \<open>\<open>u32::try_from\<close> of an index.\<close>

definition operation_slot :: "bytes \<Rightarrow> nat \<Rightarrow> io_error + u32" where
  "operation_slot message n = (if n < 2 ^ 32 then Inr (of_nat n) else Inl (Custom KInvalidInput message))"

definition accept_operation :: "'sc uring_listener \<Rightarrow> nat \<Rightarrow> io_error + operation_id" where
  "accept_operation l listener_index =
     (case operation_slot ''listener index exceeds io_uring operation capacity'' listener_index of
        Inl e \<Rightarrow> Inl e
      | Inr slot \<Rightarrow> Inr (op_accept slot (ul_generation l)))"

definition accept_entry :: "'sc uring_listener \<Rightarrow> nat \<Rightarrow> io_error + sqe" where
  "accept_entry l listener_index =
     (case operation_slot ''listener index exceeds io_uring operation capacity'' listener_index of
        Inl e \<Rightarrow> Inl e
      | Inr slot \<Rightarrow>
          let entry = (case ul_accept_mode l of
                SingleShot \<Rightarrow> SubmitAccept (ul_socket l)
              | Multishot \<Rightarrow> SubmitAcceptMulti (ul_socket l))
          in Inr \<lparr>sq_submission = entry, sq_user_data = encode (op_accept slot (ul_generation l))\<rparr>)"

definition mark_accept_submitted :: "'sc uring_listener \<Rightarrow> 'sc uring_listener" where
  "mark_accept_submitted l = l\<lparr>ul_accept_pending := True\<rparr>"

definition record_completion :: "bool \<Rightarrow> 'sc uring_listener \<Rightarrow> 'sc uring_listener" where
  "record_completion has_more l = l\<lparr>ul_accept_pending := (ul_accept_mode l = Multishot \<and> has_more)\<rparr>"

definition fall_back_to_single_shot :: "'sc uring_listener \<Rightarrow> 'sc uring_listener" where
  "fall_back_to_single_shot l = l\<lparr>ul_accept_mode := SingleShot, ul_accept_pending := False\<rparr>"

section \<open>Connections\<close>

record uring_id =
  ui_slot :: u32
  ui_generation :: u16

record 't uring_ssl_session =
  us_connection :: 't
  us_started_at :: instant
  us_handshake_timeout :: nat
  us_closing :: bool

datatype uring_phase = Resolving | Connecting | WritingRequest | ReadingResponse

definition uring_timeout_message :: "uring_phase \<Rightarrow> bytes" where
  "uring_timeout_message p = (case p of
     Resolving \<Rightarrow> ''upstream DNS resolution timed out''
   | Connecting \<Rightarrow> ''upstream connect timed out''
   | WritingRequest \<Rightarrow> ''upstream request write timed out''
   | ReadingResponse \<Rightarrow> ''upstream response timed out'')"

record uring_proxy =
  up_upstream :: "socket option"
  up_address :: "socket_addr option"
  up_addresses :: "socket_addr list"
  up_request_buffer :: bytes
  up_request_offset :: nat
  up_response_started :: bool
  up_phase :: uring_phase
  up_progress_at :: instant
  up_operation_pending :: bool
  up_timed_out :: bool

definition resolving :: "instant \<Rightarrow> bytes \<Rightarrow> uring_proxy" where
  "resolving now request_buffer = \<lparr>up_upstream = None, up_address = None, up_addresses = [],
     up_request_buffer = request_buffer, up_request_offset = 0, up_response_started = False,
     up_phase = Resolving, up_progress_at = now, up_operation_pending = False, up_timed_out = False\<rparr>"

definition uring_transition :: "instant \<Rightarrow> uring_phase \<Rightarrow> uring_proxy \<Rightarrow> uring_proxy" where
  "uring_transition now p x = x\<lparr>up_phase := p, up_progress_at := now, up_timed_out := False\<rparr>"

definition uring_record_progress :: "instant \<Rightarrow> uring_proxy \<Rightarrow> uring_proxy" where
  "uring_record_progress now x = x\<lparr>up_progress_at := now\<rparr>"

record uring_pending_request =
  upr_head :: request_head
  upr_body_start :: usize
  upr_body_end :: usize

record completed_request =
  cr_head :: request_head
  cr_body :: bytes

record 't uring_connection =
  uc_socket :: socket
  uc_generation :: u16
  uc_listener_index :: nat
  uc_read_pending :: bool
  uc_request_buffer :: bytes
  uc_pending_request :: "uring_pending_request option"
  uc_request :: "completed_request option"
  uc_write_buffer :: bytes
  uc_write_offset :: nat
  uc_write_pending :: bool
  uc_ssl_write_buffer :: bytes
  uc_ssl_write_offset :: nat
  uc_proxy :: "uring_proxy option"
  uc_static_stream :: "static_stream option"
  uc_ssl :: "'t uring_ssl_session option"

text \<open>\<open>new_session\<close> is \<open>ServerConnection::new\<close>; its error is the rendered one. The buffer size is only a capacity.\<close>

definition uring_connection_new ::
  "('sc \<Rightarrow> bytes + 't) \<Rightarrow> instant \<Rightarrow> socket \<Rightarrow> u16 \<Rightarrow> nat \<Rightarrow> 'sc loaded_ssl_config option
   \<Rightarrow> io_error + 't uring_connection" where
  "uring_connection_new new_session now socket generation listener_index ssl_config =
     (case (case ssl_config of
              None \<Rightarrow> Inr None
            | Some config \<Rightarrow>
                (case new_session (ls_server_config config) of
                   Inl e \<Rightarrow> Inl (Custom KInvalidInput (''failed to create SSL session: '' @ e))
                 | Inr session \<Rightarrow> Inr (Some \<lparr>us_connection = session, us_started_at = now,
                     us_handshake_timeout = ls_handshake_timeout config, us_closing = False\<rparr>))) of
        Inl e \<Rightarrow> Inl e
      | Inr session \<Rightarrow> Inr \<lparr>uc_socket = socket, uc_generation = generation,
          uc_listener_index = listener_index, uc_read_pending = False, uc_request_buffer = [],
          uc_pending_request = None, uc_request = None, uc_write_buffer = [], uc_write_offset = 0,
          uc_write_pending = False, uc_ssl_write_buffer = [], uc_ssl_write_offset = 0,
          uc_proxy = None, uc_static_stream = None, uc_ssl = session\<rparr>)"

definition uring_queue_response :: "bytes \<Rightarrow> 't uring_connection \<Rightarrow> 't uring_connection" where
  "uring_queue_response response c = c\<lparr>uc_write_buffer := response, uc_write_offset := 0\<rparr>"

definition mark_read_submitted :: "'t uring_connection \<Rightarrow> 't uring_connection" where
  "mark_read_submitted c = c\<lparr>uc_read_pending := True\<rparr>"

definition mark_read_completed :: "'t uring_connection \<Rightarrow> 't uring_connection" where
  "mark_read_completed c = c\<lparr>uc_read_pending := False\<rparr>"

definition mark_write_submitted :: "'t uring_connection \<Rightarrow> 't uring_connection" where
  "mark_write_submitted c = c\<lparr>uc_write_pending := True\<rparr>"

definition mark_write_completed :: "'t uring_connection \<Rightarrow> 't uring_connection" where
  "mark_write_completed c = c\<lparr>uc_write_pending := False\<rparr>"

end
