(* ===== verification/Uring_Worker.thy ===== *)
theory Uring_Worker
  imports Uring_Connection Buffer_Ring Worker_Common
begin

text \<open>
  The event loop of the io_uring runtime, \<open>runtime/io_uring/worker.rs\<close>, as operations on the state of a
  worker, in the style of the readiness worker: every method of \<open>IoUringWorker\<close> is one definition, with
  the prefix \<open>uring_\<close> where the readiness worker has a method of the same name; \<open>?\<close> is \<open>bindq\<close>, and
  indexing or removing a vacant slot, a slice out of bounds, a subtraction below zero and a failed
  \<open>unwrap\<close> are panics.

  What lies outside is a record \<open>uring_sys\<close> of functions on a world: the ring (which submissions it
  accepts, and the completions it delivers), the operating system, the clock, rustls, the slab's next
  key, and how far the resolver and file threads have run. Messages on the standard streams and the
  closing of dropped descriptors are not represented.
\<close>

section \<open>The outside of a worker\<close>

text \<open>
  A completion, with its flags decoded: \<open>cq_more\<close> says that a multishot operation goes on, \<open>cq_buffer_id\<close> is
  the buffer the kernel selected.
\<close>

record cqe =
  cq_user_data :: u64
  cq_result :: int
  cq_more :: bool
  cq_buffer_id :: "u16 option"

text \<open>
  \<open>q_push\<close> says whether the submission queue had room. \<open>q_received\<close> gives what the kernel has written into the
  provided buffers by now. \<open>q_bound\<close> bounds the pushes that still find the queue full: it is the fuel of
  the loop of \<open>push_entry\<close>. System calls that return a descriptor or an error code return an integer.
\<close>

record ('w, 'sc, 't) uring_sys =
  q_build :: "u32 \<Rightarrow> u32 \<Rightarrow> 'w \<Rightarrow> (io_error + unit) \<times> 'w"
  q_register_probe :: "'w \<Rightarrow> (io_error + (opcode \<Rightarrow> bool)) \<times> 'w"
  q_register :: "'w \<Rightarrow> ring_env \<times> 'w"
  q_push :: "sqe \<Rightarrow> 'w \<Rightarrow> bool \<times> 'w"
  q_submit :: "'w \<Rightarrow> (io_error + unit) \<times> 'w"
  q_submit_and_wait :: "'w \<Rightarrow> (io_error + unit) \<times> 'w"
  q_completion :: "'w \<Rightarrow> cqe list \<times> 'w"
  q_received :: "bytes list \<Rightarrow> 'w \<Rightarrow> bytes list \<times> 'w"
  q_bound :: "'w \<Rightarrow> nat"
  q_eventfd :: "'w \<Rightarrow> int \<times> 'w"
  q_timerfd_create :: "'w \<Rightarrow> int \<times> 'w"
  q_timerfd_settime :: "socket \<Rightarrow> 'w \<Rightarrow> int \<times> 'w"
  q_socket :: "bool \<Rightarrow> 'w \<Rightarrow> int \<times> 'w"
  q_last_os_error :: "'w \<Rightarrow> io_error"
  q_install_eventfd :: "socket \<Rightarrow> 'w \<Rightarrow> 'w"
  q_spawn :: "nat \<Rightarrow> io_error + unit"
  q_now :: "'w \<Rightarrow> instant \<times> 'w"
  q_is_requested :: "'w \<Rightarrow> bool \<times> 'w"
  q_request :: "'w \<Rightarrow> 'w"
  q_vacant_key :: "bool list \<Rightarrow> 'w \<Rightarrow> nat \<times> 'w"
  q_threads :: "'w \<Rightarrow> thread_action list \<times> 'w"
  q_producer :: "static_stream \<Rightarrow> 'w \<Rightarrow> static_stream \<times> 'w"
  q_fs :: "'w \<Rightarrow> fs \<times> 'w"
  q_mime :: "bytes \<Rightarrow> mime"
  s_new :: "'sc \<Rightarrow> bytes + 't"
  s_wants_write :: "'t \<Rightarrow> bool"
  s_is_handshaking :: "'t \<Rightarrow> bool"
  s_read_tls :: "'t \<Rightarrow> bytes \<Rightarrow> (io_error + nat) \<times> 't"
  s_process_new_packets :: "'t \<Rightarrow> (bytes + unit) \<times> 't"
  s_read_to_end :: "'t \<Rightarrow> (bytes \<times> io_error option) \<times> 't"
  s_writer_write :: "'t \<Rightarrow> bytes \<Rightarrow> (io_error + nat) \<times> 't"
  s_write_tls :: "'t \<Rightarrow> ((io_error + nat) \<times> bytes) \<times> 't"
  s_send_close_notify :: "'t \<Rightarrow> 't"

section \<open>The state of a worker\<close>

record ('w, 'sc, 't) uring_worker =
  uw_buffer_ring :: buffer_ring
  uw_listeners :: "'sc uring_listener list"
  uw_servers :: "server list"
  uw_connections :: "'t uring_connection option list"
  uw_generations :: "u16 list"
  uw_buffer_size :: usize
  uw_limits :: worker_limits
  uw_proxy_limits :: proxy_limits
  uw_dns_limits :: dns_limits
  uw_shutdown_eventfd :: socket
  uw_shutting_down :: bool
  uw_shutdown_started :: "instant option"
  uw_cancellation_started :: bool
  uw_pending_cancellations :: nat
  uw_dns_eventfd :: socket
  uw_resolver :: "uring_id dns_resolver"
  uw_timerfd :: socket
  uw_metrics :: worker_metrics
  uw_balancer :: upstream_balancer
  uw_world :: 'w

type_synonym ('w, 'sc, 't, 'a) uop = "(io_error, ('w, 'sc, 't) uring_worker, 'a) op"

definition usyscall :: "('w \<Rightarrow> 'a \<times> 'w) \<Rightarrow> ('w, 'sc, 't, 'a) uop" where
  "usyscall f s = (let (r, w) = f (uw_world s) in (Return (Inr r), s\<lparr>uw_world := w\<rparr>))"

definition uslot :: "uring_id \<Rightarrow> nat" where
  "uslot i = unat (ui_slot i)"

definition uget :: "('w, 'sc, 't) uring_worker \<Rightarrow> uring_id \<Rightarrow> 't uring_connection option" where
  "uget s i = slab_get (uw_connections s) (uslot i)"

text \<open>The connection of an identity, when the generation matches.\<close>

definition ucurrent :: "('w, 'sc, 't) uring_worker \<Rightarrow> uring_id \<Rightarrow> 't uring_connection option" where
  "ucurrent s i = (case uget s i of
     Some c \<Rightarrow> if uc_generation c = ui_generation i then Some c else None
   | None \<Rightarrow> None)"

text \<open>\<open>self.connections[slot]\<close>, an assignment to it, and \<open>self.connections.remove(slot)\<close>.\<close>

definition index_uc :: "uring_id \<Rightarrow> ('w, 'sc, 't, 't uring_connection) uop" where
  "index_uc i s = (case uget s i of Some c \<Rightarrow> (Return (Inr c), s) | None \<Rightarrow> (Panic, s))"

definition update_uc :: "uring_id \<Rightarrow> ('t uring_connection \<Rightarrow> 't uring_connection) \<Rightarrow> ('w, 'sc, 't, unit) uop" where
  "update_uc i g s = (case uget s i of
     Some c \<Rightarrow> (Return (Inr ()), s\<lparr>uw_connections := (uw_connections s)[uslot i := Some (g c)]\<rparr>)
   | None \<Rightarrow> (Panic, s))"

definition remove_uc :: "uring_id \<Rightarrow> ('w, 'sc, 't, unit) uop" where
  "remove_uc i s = (case uget s i of
     Some _ \<Rightarrow> (Return (Inr ()), s\<lparr>uw_connections := (uw_connections s)[uslot i := None]\<rparr>)
   | None \<Rightarrow> (Panic, s))"

definition update_up :: "(uring_proxy \<Rightarrow> uring_proxy) \<Rightarrow> 't uring_connection \<Rightarrow> 't uring_connection" where
  "update_up g c = c\<lparr>uc_proxy := map_option g (uc_proxy c)\<rparr>"

definition umetric :: "(worker_metrics \<Rightarrow> worker_metrics) \<Rightarrow> ('w, 'sc, 't, unit) uop" where
  "umetric g = modify (\<lambda>s. s\<lparr>uw_metrics := g (uw_metrics s)\<rparr>)"

definition set_us :: "uring_id \<Rightarrow> 't \<Rightarrow> ('w, 'sc, 't, unit) uop" where
  "set_us i t = update_uc i (\<lambda>c. c\<lparr>uc_ssl := map_option (\<lambda>session. session\<lparr>us_connection := t\<rparr>) (uc_ssl c)\<rparr>)"

definition uring_ids ::
  "(nat \<Rightarrow> 't uring_connection \<Rightarrow> bool) \<Rightarrow> ('w, 'sc, 't) uring_worker \<Rightarrow> uring_id list" where
  "uring_ids p s = map (\<lambda>(slot, c). \<lparr>ui_slot = of_nat slot, ui_generation = uc_generation c\<rparr>)
     (filter (\<lambda>(slot, c). p slot c) (slab_iter (uw_connections s)))"

text \<open>\<open>if let Some(connection) = get(slot)\<close> with a matching generation; otherwise \<open>return Ok(())\<close>.\<close>

definition when_current ::
  "uring_id \<Rightarrow> ('t uring_connection \<Rightarrow> ('w, 'sc, 't, unit) uop) \<Rightarrow> ('w, 'sc, 't, unit) uop" where
  "when_current i f = bindq (gets (\<lambda>s. ucurrent s i)) (\<lambda>c. case c of None \<Rightarrow> ok () | Some c \<Rightarrow> f c)"

section \<open>Submissions\<close>

fun push_loop :: "('w, 'sc, 't) uring_sys \<Rightarrow> nat \<Rightarrow> sqe \<Rightarrow> ('w, 'sc, 't, unit) uop" where
  "push_loop sys 0 entry = panic"
| "push_loop sys (Suc fuel) entry =
     bindq (usyscall (q_push sys entry)) (\<lambda>pushed.
       if pushed then ok ()
       else bindq (usyscall (q_submit sys)) (\<lambda>r.
            bindq (of_result r) (\<lambda>_. push_loop sys fuel entry)))"

definition push_entry :: "('w, 'sc, 't) uring_sys \<Rightarrow> sqe \<Rightarrow> ('w, 'sc, 't, unit) uop" where
  "push_entry sys entry =
     bindq (gets (\<lambda>s. q_bound sys (uw_world s))) (\<lambda>bound. push_loop sys (Suc bound) entry)"

definition ring_submit :: "('w, 'sc, 't) uring_sys \<Rightarrow> ('w, 'sc, 't, unit) uop" where
  "ring_submit sys = bindq (usyscall (q_submit sys)) of_result"

definition submit_accept :: "('w, 'sc, 't) uring_sys \<Rightarrow> nat \<Rightarrow> ('w, 'sc, 't, unit) uop" where
  "submit_accept sys listener_idx =
     bindq (gets (\<lambda>s. get (uw_listeners s) listener_idx)) (\<lambda>l. case l of
       None \<Rightarrow> err (Custom KInvalidInput ''listener index is unavailable'')
     | Some l \<Rightarrow>
         if ul_accept_pending l then ok ()
         else bindq (of_result (accept_entry l listener_idx)) (\<lambda>entry.
              bindq (push_entry sys entry) (\<lambda>_.
              modify (\<lambda>s. s\<lparr>uw_listeners := (uw_listeners s)[listener_idx := mark_accept_submitted l]\<rparr>))))"

definition submit_initial_accepts :: "('w, 'sc, 't) uring_sys \<Rightarrow> ('w, 'sc, 't, unit) uop" where
  "submit_initial_accepts sys =
     bindq (gets (\<lambda>s. [0..<length (uw_listeners s)])) (\<lambda>listeners.
     bindq (for_each (submit_accept sys) listeners) (\<lambda>_. ring_submit sys))"

text \<open>
  Handing application bytes to the TLS session and taking its records, once the records taken
  before have been sent.
\<close>

definition take_records :: "('w, 'sc, 't) uring_sys \<Rightarrow> uring_id \<Rightarrow> ('w, 'sc, 't, unit) uop" where
  "take_records sys i =
     bindq (index_uc i) (\<lambda>c. case uc_ssl c of None \<Rightarrow> ok () | Some session \<Rightarrow>
       if s_wants_write sys (us_connection session)
       then (let ((r, records), t) = s_write_tls sys (us_connection session) in
             bindq (update_uc i (\<lambda>c. c\<lparr>uc_ssl_write_buffer := uc_ssl_write_buffer c @ records\<rparr>)) (\<lambda>_.
             bindq (set_us i t) (\<lambda>_. bindq (of_result r) (\<lambda>_. ok ()))))
       else ok ())"

definition fill_ssl_buffer :: "('w, 'sc, 't) uring_sys \<Rightarrow> uring_id \<Rightarrow> ('w, 'sc, 't, unit) uop" where
  "fill_ssl_buffer sys i =
     bindq (index_uc i) (\<lambda>c. case uc_ssl c of None \<Rightarrow> ok () | Some session \<Rightarrow>
       if uc_ssl_write_offset c = length (uc_ssl_write_buffer c)
       then bindq (update_uc i (\<lambda>c. c\<lparr>uc_ssl_write_buffer := [], uc_ssl_write_offset := 0\<rparr>)) (\<lambda>_.
            bindq (if uc_write_offset c < length (uc_write_buffer c)
              then (let (r, t) = s_writer_write sys (us_connection session)
                          (drop (uc_write_offset c) (uc_write_buffer c)) in
                    bindq (set_us i t) (\<lambda>_.
                    bindq (of_result r) (\<lambda>written.
                    update_uc i (\<lambda>c. c\<lparr>uc_write_offset := uc_write_offset c + written\<rparr>))))
              else ok ()) (\<lambda>_.
            take_records sys i))
       else ok ())"

text \<open>The bytes the next send points to, and where they start and end.\<close>

definition send_offset :: "'t uring_connection \<Rightarrow> nat" where
  "send_offset c = (if uc_ssl c \<noteq> None then uc_ssl_write_offset c else uc_write_offset c)"

definition send_buffer :: "'t uring_connection \<Rightarrow> bytes" where
  "send_buffer c = (if uc_ssl c \<noteq> None then uc_ssl_write_buffer c else uc_write_buffer c)"

definition send_entry :: "uring_id \<Rightarrow> 't uring_connection \<Rightarrow> sqe" where
  "send_entry i c = \<lparr>sq_submission = SubmitSend (uc_socket c) (drop (send_offset c) (send_buffer c)),
     sq_user_data = encode (op_write (ui_slot i) (ui_generation i))\<rparr>"

definition submit_send :: "('w, 'sc, 't) uring_sys \<Rightarrow> uring_id \<Rightarrow> ('w, 'sc, 't, unit) uop" where
  "submit_send sys i =
     bindq (gets (\<lambda>s. uget s i)) (\<lambda>c. case c of
       None \<Rightarrow> err (Custom KInvalidInput ''connection slot is unavailable'')
     | Some c \<Rightarrow>
         if uc_generation c \<noteq> ui_generation i \<or> uc_write_pending c then ok ()
         else bindq (fill_ssl_buffer sys i) (\<lambda>_.
              bindq (index_uc i) (\<lambda>c.
                if send_offset c > length (send_buffer c) then panic
                else if send_offset c = length (send_buffer c) then ok ()
                else if length (send_buffer c) - send_offset c \<ge> 2 ^ 32
                then err (Custom KInvalidInput ''response exceeds io_uring send length capacity'')
                else bindq (push_entry sys (send_entry i c)) (\<lambda>_. update_uc i mark_write_submitted))))"

definition recv_entry :: "socket \<Rightarrow> usize \<Rightarrow> operation_id \<Rightarrow> sqe" where
  "recv_entry fd buffer_size oper = \<lparr>sq_submission = SubmitRecv fd (ucast buffer_size),
     sq_user_data = encode oper\<rparr>"

definition submit_recv :: "('w, 'sc, 't) uring_sys \<Rightarrow> uring_id \<Rightarrow> ('w, 'sc, 't, unit) uop" where
  "submit_recv sys i =
     bindq (gets (\<lambda>s. uget s i)) (\<lambda>c. case c of
       None \<Rightarrow> err (Custom KInvalidInput ''connection slot is unavailable'')
     | Some c \<Rightarrow>
         if uc_generation c \<noteq> ui_generation i \<or> uc_read_pending c then ok ()
         else bindq (gets uw_buffer_size) (\<lambda>buffer_size.
           if unat buffer_size \<ge> 2 ^ 32 then panic
           else bindq (push_entry sys (recv_entry (uc_socket c) buffer_size
                  (op_read (ui_slot i) (ui_generation i)))) (\<lambda>_.
                update_uc i mark_read_submitted)))"

text \<open>The reads of the eventfds and of the timer.\<close>

definition value_read :: "socket \<Rightarrow> u64 \<Rightarrow> sqe" where
  "value_read fd user_data = \<lparr>sq_submission = SubmitRead fd, sq_user_data = user_data\<rparr>"

definition submit_dns_read :: "('w, 'sc, 't) uring_sys \<Rightarrow> ('w, 'sc, 't, unit) uop" where
  "submit_dns_read sys = bindq (gets uw_dns_eventfd) (\<lambda>fd. push_entry sys (value_read fd DNS_USER_DATA))"

definition submit_shutdown_read :: "('w, 'sc, 't) uring_sys \<Rightarrow> ('w, 'sc, 't, unit) uop" where
  "submit_shutdown_read sys =
     bindq (gets uw_shutdown_eventfd) (\<lambda>fd. push_entry sys (value_read fd CONTROL_USER_DATA))"

definition submit_timer_read :: "('w, 'sc, 't) uring_sys \<Rightarrow> ('w, 'sc, 't, unit) uop" where
  "submit_timer_read sys = bindq (gets uw_timerfd) (\<lambda>fd. push_entry sys (value_read fd TIMER_USER_DATA))"

definition cancel_entry :: "u64 \<Rightarrow> u64 \<Rightarrow> sqe" where
  "cancel_entry target user_data = \<lparr>sq_submission = SubmitAsyncCancel target, sq_user_data = user_data\<rparr>"

section \<open>The upstream side\<close>

definition submit_proxy_connect :: "('w, 'sc, 't) uring_sys \<Rightarrow> uring_id \<Rightarrow> ('w, 'sc, 't, unit) uop" where
  "submit_proxy_connect sys i =
     bindq (index_uc i) (\<lambda>c. case uc_proxy c of None \<Rightarrow> panic | Some x \<Rightarrow>
       (case (up_upstream x, up_address x) of
          (Some socket, Some address) \<Rightarrow>
            bindq (push_entry sys \<lparr>sq_submission = SubmitConnect socket address,
              sq_user_data = encode (op_proxy_connect (ui_slot i) (ui_generation i))\<rparr>) (\<lambda>_.
            update_uc i (update_up (\<lambda>x. x\<lparr>up_operation_pending := True\<rparr>)))
        | _ \<Rightarrow> panic))"

definition submit_proxy_write :: "('w, 'sc, 't) uring_sys \<Rightarrow> uring_id \<Rightarrow> ('w, 'sc, 't, unit) uop" where
  "submit_proxy_write sys i =
     bindq (index_uc i) (\<lambda>c. case uc_proxy c of None \<Rightarrow> panic | Some x \<Rightarrow>
       if up_request_offset x > length (up_request_buffer x) then panic
       else if length (up_request_buffer x) - up_request_offset x \<ge> 2 ^ 32
       then err (Custom KInvalidInput ''upstream request is too large'')
       else (case up_upstream x of
          Some socket \<Rightarrow>
            bindq (push_entry sys \<lparr>sq_submission = SubmitSend socket (drop (up_request_offset x) (up_request_buffer x)),
              sq_user_data = encode (op_proxy_write (ui_slot i) (ui_generation i))\<rparr>) (\<lambda>_.
            update_uc i (update_up (\<lambda>x. x\<lparr>up_operation_pending := True\<rparr>)))
        | None \<Rightarrow> panic))"

definition submit_proxy_read :: "('w, 'sc, 't) uring_sys \<Rightarrow> uring_id \<Rightarrow> ('w, 'sc, 't, unit) uop" where
  "submit_proxy_read sys i =
     bindq (index_uc i) (\<lambda>c. case uc_proxy c of None \<Rightarrow> panic | Some x \<Rightarrow>
       bindq (gets uw_buffer_size) (\<lambda>buffer_size.
         if unat buffer_size \<ge> 2 ^ 32 then panic
         else (case up_upstream x of
           Some socket \<Rightarrow>
             bindq (push_entry sys (recv_entry socket buffer_size
               (op_proxy_read (ui_slot i) (ui_generation i)))) (\<lambda>_.
             update_uc i (update_up (\<lambda>x. x\<lparr>up_operation_pending := True\<rparr>)))
         | None \<Rightarrow> panic)))"

definition queue_proxy_error ::
  "('w, 'sc, 't) uring_sys \<Rightarrow> uring_id \<Rightarrow> u16 \<Rightarrow> bytes \<Rightarrow> ('w, 'sc, 't, unit) uop" where
  "queue_proxy_error sys i status message =
     bindq (umetric metric_error) (\<lambda>_.
     when_current i (\<lambda>_.
     bindq (update_uc i (\<lambda>c. uring_queue_response (response_bytes status message) (c\<lparr>uc_proxy := None\<rparr>))) (\<lambda>_.
     submit_send sys i)))"

definition uring_fail_proxy ::
  "('w, 'sc, 't) uring_sys \<Rightarrow> uring_id \<Rightarrow> u16 \<Rightarrow> bytes \<Rightarrow> ('w, 'sc, 't, unit) uop" where
  "uring_fail_proxy sys i status message =
     bindq (gets (\<lambda>s. case uget s i of
         Some c \<Rightarrow> (case uc_proxy c of Some x \<Rightarrow> up_response_started x | None \<Rightarrow> False)
       | None \<Rightarrow> False)) (\<lambda>response_started.
       if response_started then remove_uc i else queue_proxy_error sys i status message)"

definition create_upstream_socket ::
  "('w, 'sc, 't) uring_sys \<Rightarrow> socket_addr \<Rightarrow> ('w, 'sc, 't, io_error + socket) uop" where
  "create_upstream_socket sys address =
     bindq (usyscall (q_socket sys (case address of SocketV4 _ _ \<Rightarrow> True | SocketV6 _ _ _ _ \<Rightarrow> False))) (\<lambda>fd.
     gets (\<lambda>s. if fd < 0 then Inl (q_last_os_error sys (uw_world s)) else Inr (nat fd)))"

text \<open>Every iteration takes one address, so one more iteration than there are addresses is enough.\<close>

fun address_loop :: "('w, 'sc, 't) uring_sys \<Rightarrow> uring_id \<Rightarrow> nat \<Rightarrow> ('w, 'sc, 't, unit) uop" where
  "address_loop sys i 0 = panic"
| "address_loop sys i (Suc fuel) =
     bindq (index_uc i) (\<lambda>c.
       case (case uc_proxy c of None \<Rightarrow> [] | Some x \<Rightarrow> up_addresses x) of
         [] \<Rightarrow> queue_proxy_error sys i 502 ''upstream connection failed''
       | address # rest \<Rightarrow>
           bindq (update_uc i (update_up (\<lambda>x. x\<lparr>up_addresses := rest\<rparr>))) (\<lambda>_.
           bindq (create_upstream_socket sys address) (\<lambda>r. case r of
             Inl _ \<Rightarrow> address_loop sys i fuel
           | Inr socket \<Rightarrow>
               bindq (usyscall (q_now sys)) (\<lambda>now.
               bindq (update_uc i (update_up (\<lambda>x. uring_record_progress now
                 (x\<lparr>up_upstream := Some socket, up_address := Some address\<rparr>)))) (\<lambda>_.
               submit_proxy_connect sys i)))))"

definition try_next_proxy_address :: "('w, 'sc, 't) uring_sys \<Rightarrow> uring_id \<Rightarrow> ('w, 'sc, 't, unit) uop" where
  "try_next_proxy_address sys i =
     bindq (index_uc i) (\<lambda>c. address_loop sys i
       (Suc (case uc_proxy c of None \<Rightarrow> 0 | Some x \<Rightarrow> length (up_addresses x))))"

definition uring_start_proxy ::
  "('w, 'sc, 't) uring_sys \<Rightarrow> uring_id \<Rightarrow> bytes \<Rightarrow> request_head \<Rightarrow> bytes \<Rightarrow> ('w, 'sc, 't, unit) uop" where
  "uring_start_proxy sys i upstream_url request body =
     (case parse upstream_url of
        Inl _ \<Rightarrow> queue_proxy_error sys i 502 ''upstream configuration failed''
      | Inr upstream \<Rightarrow>
          let request_buffer = request_bytes upstream request body in
          bindq (gets uw_limits) (\<lambda>limits.
            if length request_buffer > unat (wl_max_read_buffer_size limits)
            then queue_proxy_error sys i 502 ''upstream request is too large''
            else bindq (gets (\<lambda>s. uget s i)) (\<lambda>c. case c of None \<Rightarrow> ok () | Some _ \<Rightarrow>
              bindq (usyscall (q_now sys)) (\<lambda>now.
              bindq (update_uc i (\<lambda>c. c\<lparr>uc_proxy := Some (resolving now request_buffer)\<rparr>)) (\<lambda>_.
              bindq (gets (\<lambda>s. resolve i (connect_address upstream) (uw_resolver s))) (\<lambda>(r, resolver).
              bindq (modify (\<lambda>s. s\<lparr>uw_resolver := resolver\<rparr>)) (\<lambda>_.
                case r of
                  Inl _ \<Rightarrow> queue_proxy_error sys i 502 ''upstream DNS resolution failed''
                | Inr _ \<Rightarrow> ok ())))))))"

definition uring_finish_resolution ::
  "('w, 'sc, 't) uring_sys \<Rightarrow> uring_id resolve_result \<Rightarrow> ('w, 'sc, 't, unit) uop" where
  "uring_finish_resolution sys result =
     (let i = rr_connection_id result in
      when_current i (\<lambda>c.
        if (case uc_proxy c of None \<Rightarrow> True | Some x \<Rightarrow> up_phase x \<noteq> Resolving) then ok ()
        else (case rr_addresses result of
          Inl _ \<Rightarrow> queue_proxy_error sys i 502 ''upstream DNS resolution failed''
        | Inr [] \<Rightarrow> queue_proxy_error sys i 502 ''upstream has no address''
        | Inr addresses \<Rightarrow>
            bindq (usyscall (q_now sys)) (\<lambda>now.
            bindq (update_uc i (update_up (\<lambda>x. uring_transition now Connecting (x\<lparr>up_addresses := addresses\<rparr>)))) (\<lambda>_.
            try_next_proxy_address sys i)))))"

definition uring_process_dns_results :: "('w, 'sc, 't) uring_sys \<Rightarrow> ('w, 'sc, 't, unit) uop" where
  "uring_process_dns_results sys =
     bindq (usyscall (q_threads sys)) (\<lambda>actions.
     bindq (gets (\<lambda>s. drain (run_threads actions (uw_resolver s)))) (\<lambda>(results, resolver).
     bindq (modify (\<lambda>s. s\<lparr>uw_resolver := resolver\<rparr>)) (\<lambda>_.
     bindq (for_each (uring_finish_resolution sys) results) (\<lambda>_.
     bindq (gets uw_shutting_down) (\<lambda>shutting_down.
       if shutting_down then ok () else submit_dns_read sys)))))"

section \<open>Static files\<close>

definition uring_queue_static_response ::
  "('w, 'sc, 't) uring_sys \<Rightarrow> uring_id \<Rightarrow> static_stream_response \<Rightarrow> ('w, 'sc, 't, unit) uop" where
  "uring_queue_static_response sys i response =
     bindq (update_uc i (\<lambda>c. uring_queue_response (ssr_head response)
       (c\<lparr>uc_static_stream := ssr_stream response\<rparr>))) (\<lambda>_.
     submit_send sys i)"

definition uring_advance_static_stream ::
  "('w, 'sc, 't) uring_sys \<Rightarrow> uring_id \<Rightarrow> ('w, 'sc, 't, unit) uop" where
  "uring_advance_static_stream sys i =
     bindq (index_uc i) (\<lambda>c. case uc_static_stream c of
       None \<Rightarrow> panic
     | Some stream \<Rightarrow>
         bindq (usyscall (q_producer sys stream)) (\<lambda>stream.
           let (chunk, stream') = try_next stream in
           bindq (update_uc i (\<lambda>c. c\<lparr>uc_static_stream := Some stream'\<rparr>)) (\<lambda>_.
             case chunk of
               Inr (Data bs) \<Rightarrow> bindq (update_uc i (uring_queue_response bs)) (\<lambda>_. submit_send sys i)
             | Inr Pending \<Rightarrow> ok ()
             | Inr Finished \<Rightarrow> bindq (umetric metric_response) (\<lambda>_. remove_uc i)
             | Inl _ \<Rightarrow> bindq (umetric metric_error) (\<lambda>_. remove_uc i))))"

definition uring_pump_static_streams :: "('w, 'sc, 't) uring_sys \<Rightarrow> ('w, 'sc, 't, unit) uop" where
  "uring_pump_static_streams sys =
     bindq (gets (uring_ids (\<lambda>slot c. uc_static_stream c \<noteq> None \<and> \<not> uc_write_pending c
       \<and> uc_write_buffer c = []))) (for_each (uring_advance_static_stream sys))"

section \<open>Accept and write completions\<close>

definition id_of :: "operation_id \<Rightarrow> uring_id" where
  "id_of oper = \<lparr>ui_slot = op_slot oper, ui_generation = op_generation oper\<rparr>"

definition multishot_is_unsupported :: "int \<Rightarrow> bool" where
  "multishot_is_unsupported result \<longleftrightarrow> result < 0 \<and> - result \<in> {EINVAL, EOPNOTSUPP}"

definition uring_insert_connection ::
  "('w, 'sc, 't) uring_sys \<Rightarrow> socket \<Rightarrow> nat \<Rightarrow> ('w, 'sc, 't, uring_id) uop" where
  "uring_insert_connection sys socket listener_index =
     bindq (gets (\<lambda>s. slab_len (uw_connections s) \<ge> unat (wl_max_connections (uw_limits s)))) (\<lambda>full.
       if full then err (Custom KWouldBlock ''connection limit reached'') else
     bindq (gets (\<lambda>s. map (\<lambda>entry. entry \<noteq> None) (uw_connections s))) (\<lambda>occupied.
     bindq (usyscall (q_vacant_key sys occupied)) (\<lambda>slot.
     bindq (of_result (operation_slot ''connection index exceeds io_uring operation capacity'' slot)) (\<lambda>slot32.
     bindq (modify (\<lambda>s. if length (uw_generations s) \<le> slot
       then s\<lparr>uw_generations := uw_generations s @ replicate (slot + 1 - length (uw_generations s)) 0\<rparr>
       else s)) (\<lambda>_.
     bindq (gets (\<lambda>s. next_op_generation (uw_generations s ! slot))) (\<lambda>generation.
     bindq (modify (\<lambda>s. s\<lparr>uw_generations := (uw_generations s)[slot := generation]\<rparr>)) (\<lambda>_.
     bindq (gets (\<lambda>s. get (uw_listeners s) listener_index)) (\<lambda>l. case l of
       None \<Rightarrow> panic
     | Some l \<Rightarrow>
         bindq (case ul_ssl l of None \<Rightarrow> ok 0 | Some _ \<Rightarrow> usyscall (q_now sys)) (\<lambda>now.
         bindq (of_result (uring_connection_new (s_new sys) now socket generation listener_index (ul_ssl l))) (\<lambda>c.
         bindq (modify (\<lambda>s. s\<lparr>uw_connections := slab_insert slot c (uw_connections s)\<rparr>)) (\<lambda>_.
         ok \<lparr>ui_slot = slot32, ui_generation = generation\<rparr>)))))))))))"

text \<open>A new connection is kept when there is room for it; a failure is only logged.\<close>

definition retain_connection :: "('w, 'sc, 't) uring_sys \<Rightarrow> socket \<Rightarrow> nat \<Rightarrow> ('w, 'sc, 't, unit) uop" where
  "retain_connection sys accepted listener_idx =
     bindq (umetric metric_accepted) (\<lambda>_.
     bindq (attempt (uring_insert_connection sys accepted listener_idx)) (\<lambda>r. case r of
       Inr i \<Rightarrow> submit_recv sys i
     | Inl _ \<Rightarrow> ok ()))"

definition handle_accept_completion ::
  "('w, 'sc, 't) uring_sys \<Rightarrow> operation_id \<Rightarrow> int \<Rightarrow> bool \<Rightarrow> ('w, 'sc, 't, unit) uop" where
  "handle_accept_completion sys oper result has_more =
     (let listener_idx = unat (op_slot oper) in
      bindq (gets (\<lambda>s. get (uw_listeners s) listener_idx)) (\<lambda>l. case l of None \<Rightarrow> ok () | Some l \<Rightarrow>
        if ul_generation l \<noteq> op_generation oper then ok () else
        let l1 = record_completion has_more l;
            l2 = (if ul_accept_mode l = Multishot \<and> multishot_is_unsupported result
                  then fall_back_to_single_shot l1 else l1) in
        bindq (modify (\<lambda>s. s\<lparr>uw_listeners := (uw_listeners s)[listener_idx := l2]\<rparr>)) (\<lambda>_.
        bindq (gets uw_shutting_down) (\<lambda>shutting_down.
        bindq (if result \<ge> 0
            then (if shutting_down then ok () else retain_connection sys (nat result) listener_idx)
            else if \<not> (shutting_down \<and> - result = ECANCELED) \<and> \<not> multishot_is_unsupported result
            then umetric metric_error else ok ()) (\<lambda>_.
        bindq (usyscall (q_is_requested sys)) (\<lambda>requested.
        bindq (gets (\<lambda>s. get (uw_listeners s) listener_idx)) (\<lambda>l. case l of None \<Rightarrow> panic | Some l \<Rightarrow>
          if \<not> requested \<and> \<not> ul_accept_pending l then submit_accept sys listener_idx else ok ())))))))"

text \<open>Whether everything queued for the client has been sent, and what follows then.\<close>

definition output_drained :: "('w, 'sc, 't) uring_sys \<Rightarrow> 't uring_connection \<Rightarrow> bool" where
  "output_drained sys c \<longleftrightarrow> (case uc_ssl c of
     None \<Rightarrow> uc_write_offset c = length (uc_write_buffer c)
   | Some session \<Rightarrow> uc_ssl_write_offset c = length (uc_ssl_write_buffer c)
       \<and> uc_write_offset c = length (uc_write_buffer c)
       \<and> \<not> s_wants_write sys (us_connection session))"

definition after_output :: "('w, 'sc, 't) uring_sys \<Rightarrow> uring_id \<Rightarrow> ('w, 'sc, 't, unit) uop" where
  "after_output sys i =
     bindq (index_uc i) (\<lambda>c.
       if uc_static_stream c \<noteq> None
       then bindq (update_uc i (\<lambda>c. c\<lparr>uc_write_buffer := [], uc_write_offset := 0\<rparr>)) (\<lambda>_.
            uring_advance_static_stream sys i)
       else (case uc_proxy c of
         Some _ \<Rightarrow>
           bindq (update_uc i (\<lambda>c. c\<lparr>uc_write_buffer := [], uc_write_offset := 0\<rparr>)) (\<lambda>_.
           bindq (usyscall (q_now sys)) (\<lambda>now.
           bindq (update_uc i (update_up (uring_record_progress now))) (\<lambda>_.
           submit_proxy_read sys i)))
       | None \<Rightarrow>
           (case uc_ssl c of
              Some session \<Rightarrow>
                if \<not> us_closing session
                then bindq (update_uc i (\<lambda>c. c\<lparr>uc_ssl := Some (session\<lparr>
                       us_connection := s_send_close_notify sys (us_connection session), us_closing := True\<rparr>)\<rparr>)) (\<lambda>_.
                     submit_send sys i)
                else bindq (umetric metric_response) (\<lambda>_. remove_uc i)
            | None \<Rightarrow> bindq (umetric metric_response) (\<lambda>_. remove_uc i))))"

text \<open>Recording a send of \<open>written\<close> bytes.\<close>

definition record_sent :: "nat \<Rightarrow> 't uring_connection \<Rightarrow> 't uring_connection" where
  "record_sent written c = (if uc_ssl c \<noteq> None
     then c\<lparr>uc_ssl_write_offset := uc_ssl_write_offset c + written\<rparr>
     else c\<lparr>uc_write_offset := uc_write_offset c + written\<rparr>)"

definition handle_write_completion ::
  "('w, 'sc, 't) uring_sys \<Rightarrow> operation_id \<Rightarrow> int \<Rightarrow> ('w, 'sc, 't, unit) uop" where
  "handle_write_completion sys oper result =
     (let i = id_of oper in
      when_current i (\<lambda>_.
      bindq (update_uc i mark_write_completed) (\<lambda>_.
        if result < 0
        then (if - result \<in> {EAGAIN, EINTR} then submit_send sys i else remove_uc i)
        else if result = 0 then remove_uc i
        else
          bindq (umetric (metric_wrote_bytes (nat result))) (\<lambda>_.
          bindq (index_uc i) (\<lambda>c.
            if send_offset c > length (send_buffer c) then panic
            else if nat result > length (send_buffer c) - send_offset c then remove_uc i
            else
              bindq (update_uc i (record_sent (nat result))) (\<lambda>_.
              bindq (index_uc i) (\<lambda>c.
                if output_drained sys c then after_output sys i else submit_send sys i)))))))"

section \<open>Read completions\<close>

text \<open>Copying a received buffer out of the ring, after the kernel has written to the buffers.\<close>

definition release_buffer ::
  "('w, 'sc, 't) uring_sys \<Rightarrow> u16 \<Rightarrow> nat \<Rightarrow> ('w, 'sc, 't, bytes) uop" where
  "release_buffer sys buffer len s =
     (let (contents, w) = q_received sys (br_buffers (uw_buffer_ring s)) (uw_world s);
          (r, ring) = copy_and_release buffer len ((uw_buffer_ring s)\<lparr>br_buffers := contents\<rparr>)
      in (r, s\<lparr>uw_buffer_ring := ring, uw_world := w\<rparr>))"

definition take_received ::
  "('w, 'sc, 't) uring_sys \<Rightarrow> bytes \<Rightarrow> int \<Rightarrow> u16 option \<Rightarrow> ('w, 'sc, 't, bytes option) uop" where
  "take_received sys message result buffer_id =
     (if result > 0
      then (case buffer_id of
              None \<Rightarrow> err (Custom KInvalidData message)
            | Some buffer \<Rightarrow> bindq (release_buffer sys buffer (nat result)) (\<lambda>bs. ok (Some bs)))
      else (case buffer_id of
              None \<Rightarrow> ok None
            | Some buffer \<Rightarrow> bindq (release_buffer sys buffer 0) (\<lambda>_. ok None)))"

text \<open>
  The plaintext of received bytes; \<open>None\<close> when the connection has been removed. Records that the
  session wants to send are submitted.
\<close>

definition decrypt ::
  "('w, 'sc, 't) uring_sys \<Rightarrow> uring_id \<Rightarrow> bytes \<Rightarrow> ('w, 'sc, 't, bytes option) uop" where
  "decrypt sys i encrypted =
     bindq (index_uc i) (\<lambda>c. case uc_ssl c of
       None \<Rightarrow> ok (Some encrypted)
     | Some session \<Rightarrow>
         (case s_read_tls sys (us_connection session) encrypted of
            (Inl _, t) \<Rightarrow> bindq (set_us i t) (\<lambda>_. bindq (remove_uc i) (\<lambda>_. ok None))
          | (Inr _, t) \<Rightarrow>
              (case s_process_new_packets sys t of
                 (Inl _, t) \<Rightarrow> bindq (set_us i t) (\<lambda>_. bindq (remove_uc i) (\<lambda>_. ok None))
               | (Inr _, t) \<Rightarrow>
                   let ((plaintext, e), t) = s_read_to_end sys t in
                   bindq (set_us i t) (\<lambda>_.
                     if (case e of Some e \<Rightarrow> kind e \<noteq> KWouldBlock | None \<Rightarrow> False)
                     then bindq (remove_uc i) (\<lambda>_. ok None)
                     else bindq (if s_wants_write sys t then submit_send sys i else ok ()) (\<lambda>_.
                          ok (Some plaintext))))))"

definition queue_http_error ::
  "('w, 'sc, 't) uring_sys \<Rightarrow> operation_id \<Rightarrow> u16 \<Rightarrow> bytes \<Rightarrow> ('w, 'sc, 't, unit) uop" where
  "queue_http_error sys oper status message =
     bindq (umetric metric_error) (\<lambda>_.
     when_current (id_of oper) (\<lambda>_.
     bindq (update_uc (id_of oper) (\<lambda>c. uring_queue_response (response_bytes status message)
       (c\<lparr>uc_pending_request := None\<rparr>))) (\<lambda>_.
     submit_send sys (id_of oper))))"

text \<open>Recognising the head of the request; a result refuses the request.\<close>

definition uring_accept_head :: "uring_id \<Rightarrow> ('w, 'sc, 't, (u16 \<times> bytes) option) uop" where
  "uring_accept_head i =
     bindq (gets uw_limits) (\<lambda>limits.
     bindq (index_uc i) (\<lambda>c.
       if uc_pending_request c \<noteq> None then ok None
       else (case parse_request_head (uc_request_buffer c) of
         Inl _ \<Rightarrow> ok (Some (400, ''invalid HTTP request''))
       | Inr Incomplete \<Rightarrow> ok None
       | Inr (Complete request consumed) \<Rightarrow>
           (case body_length request of
              Inl UnsupportedTransferEncoding \<Rightarrow> ok (Some (501, ''transfer encoding is not supported''))
            | Inl _ \<Rightarrow> ok (Some (400, ''invalid content length''))
            | Inr body_len \<Rightarrow>
                (case checked_add (of_nat consumed) body_len of
                   None \<Rightarrow> ok (Some (413, ''request is too large''))
                 | Some body_end \<Rightarrow>
                     if body_end > wl_max_read_buffer_size limits
                     then ok (Some (413, ''request is too large''))
                     else bindq (update_uc i (\<lambda>c. c\<lparr>uc_pending_request := Some \<lparr>upr_head = request,
                            upr_body_start = of_nat consumed, upr_body_end = body_end\<rparr>\<rparr>)) (\<lambda>_. ok None))))))"

definition uring_select_upstream :: "action \<Rightarrow> ('w, 'sc, 't, balance_error + bytes) uop" where
  "uring_select_upstream a s = (case select a (uw_balancer s) of
     (Return r, b) \<Rightarrow> (Return (Inr r), s\<lparr>uw_balancer := b\<rparr>)
   | (Panic, b) \<Rightarrow> (Panic, s\<lparr>uw_balancer := b\<rparr>))"

text \<open>A response of the proxy itself, replaced when it is too large.\<close>

definition send_response :: "('w, 'sc, 't) uring_sys \<Rightarrow> uring_id \<Rightarrow> bytes \<Rightarrow> ('w, 'sc, 't, unit) uop" where
  "send_response sys i response =
     bindq (gets uw_limits) (\<lambda>limits.
     bindq (update_uc i (uring_queue_response
       (if length response > unat (wl_max_write_buffer_size limits)
        then response_bytes 500 ''response is too large'' else response))) (\<lambda>_.
     submit_send sys i))"

definition uring_perform_action ::
  "('w, 'sc, 't) uring_sys \<Rightarrow> uring_id \<Rightarrow> request_head \<Rightarrow> bytes \<Rightarrow> nat \<Rightarrow> ('w, 'sc, 't, unit) uop" where
  "uring_perform_action sys i request body server_index =
     bindq (gets uw_servers) (\<lambda>servers.
       case (case get servers server_index of
               Some server \<Rightarrow> route server (req_target request) | None \<Rightarrow> None) of
         Some (Response status text_body) \<Rightarrow> send_response sys i (response_bytes status text_body)
       | Some (Static directory) \<Rightarrow>
           bindq (usyscall (q_fs sys)) (\<lambda>fs.
             case static_stream_response fs (q_mime sys) directory request of
               Inr response \<Rightarrow> uring_queue_static_response sys i response
             | Inl e \<Rightarrow> bindq (update_uc i (uring_queue_response (static_error_response e))) (\<lambda>_.
                 submit_send sys i))
       | Some (Proxy u g es p) \<Rightarrow>
           bindq (uring_select_upstream (Proxy u g es p)) (\<lambda>r. case r of
             Inl _ \<Rightarrow> queue_proxy_error sys i 502 ''upstream configuration failed''
           | Inr upstream \<Rightarrow> uring_start_proxy sys i upstream request body)
       | None \<Rightarrow> send_response sys i
           (if get servers server_index = None
            then response_bytes 500 ''server configuration is unavailable''
            else response_bytes 404 ''not found''))"

definition prepare_response :: "('w, 'sc, 't) uring_sys \<Rightarrow> uring_id \<Rightarrow> ('w, 'sc, 't, unit) uop" where
  "prepare_response sys i =
     when_current i (\<lambda>c. case uc_request c of None \<Rightarrow> ok () | Some request \<Rightarrow>
       bindq (gets id) (\<lambda>s. case get (uw_listeners s) (uc_listener_index c) of
         None \<Rightarrow> remove_uc i
       | Some l \<Rightarrow> uring_perform_action sys i (cr_head request) (cr_body request)
           (select_server (ul_server_indices l) (ul_default_server l) (cr_head request) (uw_servers s))))"

text \<open>Handing the request over once its body is complete; otherwise more is received.\<close>

definition complete_request :: "('w, 'sc, 't) uring_sys \<Rightarrow> uring_id \<Rightarrow> ('w, 'sc, 't, unit) uop" where
  "complete_request sys i =
     bindq (index_uc i) (\<lambda>c. case uc_pending_request c of
       None \<Rightarrow> submit_recv sys i
     | Some pending \<Rightarrow>
         if length (uc_request_buffer c) < unat (upr_body_end pending) then submit_recv sys i
         else if unat (upr_body_start pending) > unat (upr_body_end pending) then panic
         else
           bindq (update_uc i (\<lambda>c. c\<lparr>uc_pending_request := None, uc_request := Some \<lparr>cr_head = upr_head pending,
             cr_body = drop (unat (upr_body_start pending)) (take (unat (upr_body_end pending)) (uc_request_buffer c))\<rparr>\<rparr>)) (\<lambda>_.
           bindq (umetric metric_request) (\<lambda>_.
           prepare_response sys i)))"

definition uring_receive_bytes ::
  "('w, 'sc, 't) uring_sys \<Rightarrow> operation_id \<Rightarrow> bytes \<Rightarrow> ('w, 'sc, 't, unit) uop" where
  "uring_receive_bytes sys oper incoming =
     (let i = id_of oper in
      when_current i (\<lambda>c.
      bindq (umetric (metric_read_bytes (length incoming))) (\<lambda>_.
      bindq (gets uw_limits) (\<lambda>limits.
        if length (uc_request_buffer c) + length incoming > unat (wl_max_read_buffer_size limits)
        then queue_http_error sys oper 413 ''request is too large''
        else
          bindq (update_uc i (\<lambda>c. c\<lparr>uc_request_buffer := uc_request_buffer c @ incoming\<rparr>)) (\<lambda>_.
          bindq (uring_accept_head i) (\<lambda>refused. case refused of
            Some (status, message) \<Rightarrow> queue_http_error sys oper status message
          | None \<Rightarrow> complete_request sys i))))))"

definition handle_read_completion ::
  "('w, 'sc, 't) uring_sys \<Rightarrow> operation_id \<Rightarrow> int \<Rightarrow> u16 option \<Rightarrow> ('w, 'sc, 't, unit) uop" where
  "handle_read_completion sys oper result buffer_id =
     (let i = id_of oper in
      bindq (take_received sys ''receive completed without a selected buffer'' result buffer_id) (\<lambda>selected.
      when_current i (\<lambda>_.
      bindq (update_uc i mark_read_completed) (\<lambda>_.
        if result < 0 \<and> - result \<in> {EAGAIN, EINTR, ENOBUFS} then submit_recv sys i
        else if result \<le> 0 then remove_uc i
        else (case selected of None \<Rightarrow> panic | Some bs \<Rightarrow>
          bindq (decrypt sys i bs) (\<lambda>plaintext. case plaintext of
            None \<Rightarrow> ok ()
          | Some [] \<Rightarrow> submit_recv sys i
          | Some plaintext \<Rightarrow> uring_receive_bytes sys oper plaintext))))))"

section \<open>Upstream completions\<close>

definition current_proxy :: "('w, 'sc, 't) uring_worker \<Rightarrow> uring_id \<Rightarrow> uring_proxy option" where
  "current_proxy s i = (case ucurrent s i of Some c \<Rightarrow> uc_proxy c | None \<Rightarrow> None)"

text \<open>\<open>let Some(proxy) = self.current_proxy_mut(id) else return\<close>, \<open>operation_pending = false\<close>, and the timeout.\<close>

definition completed_proxy ::
  "('w, 'sc, 't) uring_sys \<Rightarrow> uring_id \<Rightarrow> bytes \<Rightarrow> (uring_proxy \<Rightarrow> ('w, 'sc, 't, unit) uop) \<Rightarrow>
   ('w, 'sc, 't, unit) uop" where
  "completed_proxy sys i timeout_message f =
     bindq (gets (\<lambda>s. current_proxy s i)) (\<lambda>x. case x of None \<Rightarrow> ok () | Some x \<Rightarrow>
     bindq (update_uc i (update_up (\<lambda>x. x\<lparr>up_operation_pending := False\<rparr>))) (\<lambda>_.
       if up_timed_out x then uring_fail_proxy sys i 504 timeout_message else f x))"

definition handle_proxy_connect ::
  "('w, 'sc, 't) uring_sys \<Rightarrow> operation_id \<Rightarrow> int \<Rightarrow> ('w, 'sc, 't, unit) uop" where
  "handle_proxy_connect sys oper result =
     (let i = id_of oper in
      completed_proxy sys i ''upstream connect timed out'' (\<lambda>_.
        if result < 0 then try_next_proxy_address sys i
        else bindq (usyscall (q_now sys)) (\<lambda>now.
             bindq (update_uc i (update_up (uring_transition now WritingRequest))) (\<lambda>_.
             submit_proxy_write sys i))))"

definition handle_proxy_write ::
  "('w, 'sc, 't) uring_sys \<Rightarrow> operation_id \<Rightarrow> int \<Rightarrow> ('w, 'sc, 't, unit) uop" where
  "handle_proxy_write sys oper result =
     (let i = id_of oper in
      completed_proxy sys i ''upstream request write timed out'' (\<lambda>x.
        if result < 0 \<and> - result \<in> {EAGAIN, EINTR} then submit_proxy_write sys i
        else if result \<le> 0 then uring_fail_proxy sys i 502 ''upstream request write failed''
        else
          bindq (umetric (metric_wrote_bytes (nat result))) (\<lambda>_.
            if up_request_offset x > length (up_request_buffer x) then panic
            else if nat result > length (up_request_buffer x) - up_request_offset x
            then uring_fail_proxy sys i 502 ''invalid upstream write completion''
            else
              bindq (usyscall (q_now sys)) (\<lambda>now.
              bindq (update_uc i (update_up (\<lambda>x. uring_record_progress now
                (x\<lparr>up_request_offset := up_request_offset x + nat result\<rparr>)))) (\<lambda>_.
                if up_request_offset x + nat result = length (up_request_buffer x)
                then bindq (usyscall (q_now sys)) (\<lambda>now.
                     bindq (update_uc i (update_up (uring_transition now ReadingResponse))) (\<lambda>_.
                     submit_proxy_read sys i))
                else submit_proxy_write sys i)))))"

definition handle_proxy_read ::
  "('w, 'sc, 't) uring_sys \<Rightarrow> operation_id \<Rightarrow> int \<Rightarrow> u16 option \<Rightarrow> ('w, 'sc, 't, unit) uop" where
  "handle_proxy_read sys oper result buffer_id =
     (let i = id_of oper in
      bindq (take_received sys ''upstream receive completed without a selected buffer'' result buffer_id) (\<lambda>selected.
      bindq (gets uw_limits) (\<lambda>limits.
      completed_proxy sys i ''upstream response timed out'' (\<lambda>_.
        if result < 0 \<and> - result \<in> {EAGAIN, EINTR, ENOBUFS} then submit_proxy_read sys i
        else if result < 0 then uring_fail_proxy sys i 502 ''upstream response failed''
        else if result = 0 then bindq (umetric metric_response) (\<lambda>_. remove_uc i)
        else (case selected of None \<Rightarrow> panic | Some bs \<Rightarrow>
          bindq (umetric (metric_read_bytes (length bs))) (\<lambda>_.
            if length bs > unat (wl_max_write_buffer_size limits)
            then uring_fail_proxy sys i 502 ''upstream response chunk is too large''
            else
              bindq (usyscall (q_now sys)) (\<lambda>now.
              bindq (update_uc i (update_up (\<lambda>x. uring_record_progress now (x\<lparr>up_response_started := True\<rparr>)))) (\<lambda>_.
              bindq (update_uc i (uring_queue_response bs)) (\<lambda>_.
              submit_send sys i)))))))))"

section \<open>Timeouts and shutdown\<close>

definition uring_phase_timeout :: "('w, 'sc, 't) uring_worker \<Rightarrow> uring_phase \<Rightarrow> nat" where
  "uring_phase_timeout s p = (case p of
     Resolving \<Rightarrow> dl_timeout (uw_dns_limits s)
   | Connecting \<Rightarrow> pl_connect_timeout (uw_proxy_limits s)
   | WritingRequest \<Rightarrow> pl_write_timeout (uw_proxy_limits s)
   | ReadingResponse \<Rightarrow> pl_read_timeout (uw_proxy_limits s))"

definition uring_expired_proxies ::
  "instant \<Rightarrow> ('w, 'sc, 't) uring_worker \<Rightarrow> (uring_id \<times> uring_phase \<times> bool) list" where
  "uring_expired_proxies now s = List.map_filter (\<lambda>(slot, c).
     if uc_write_pending c then None
     else (case uc_proxy c of
       None \<Rightarrow> None
     | Some x \<Rightarrow>
         if up_timed_out x then None
         else if duration_since now (up_progress_at x) \<ge> uring_phase_timeout s (up_phase x)
         then Some (\<lparr>ui_slot = of_nat slot, ui_generation = uc_generation c\<rparr>, up_phase x, up_operation_pending x)
         else None))
     (slab_iter (uw_connections s))"

text \<open>The operation of a proxied request in a phase.\<close>

definition phase_operation :: "uring_id \<Rightarrow> uring_phase \<Rightarrow> operation_id option" where
  "phase_operation i p = (case p of
     Resolving \<Rightarrow> None
   | Connecting \<Rightarrow> Some (op_proxy_connect (ui_slot i) (ui_generation i))
   | WritingRequest \<Rightarrow> Some (op_proxy_write (ui_slot i) (ui_generation i))
   | ReadingResponse \<Rightarrow> Some (op_proxy_read (ui_slot i) (ui_generation i)))"

definition expire_proxy ::
  "('w, 'sc, 't) uring_sys \<Rightarrow> uring_id \<times> uring_phase \<times> bool \<Rightarrow> ('w, 'sc, 't, unit) uop" where
  "expire_proxy sys = (\<lambda>(i, phase, operation_pending).
     if \<not> operation_pending then uring_fail_proxy sys i 504 (uring_timeout_message phase)
     else bindq (index_uc i) (\<lambda>c. case uc_proxy c of None \<Rightarrow> panic | Some _ \<Rightarrow>
       bindq (update_uc i (update_up (\<lambda>x. x\<lparr>up_timed_out := True\<rparr>))) (\<lambda>_.
         case phase_operation i phase of
           None \<Rightarrow> ok ()
         | Some target \<Rightarrow> push_entry sys (cancel_entry (encode target) PROXY_CANCEL_USER_DATA))))"

definition uring_handshake_expired :: "('w, 'sc, 't) uring_sys \<Rightarrow> instant \<Rightarrow> 't uring_connection \<Rightarrow> bool" where
  "uring_handshake_expired sys now c = (case uc_ssl c of
     None \<Rightarrow> False
   | Some session \<Rightarrow> s_is_handshaking sys (us_connection session)
       \<and> duration_since now (us_started_at session) \<ge> us_handshake_timeout session)"

definition check_proxy_timeouts :: "('w, 'sc, 't) uring_sys \<Rightarrow> ('w, 'sc, 't, unit) uop" where
  "check_proxy_timeouts sys =
     bindq (usyscall (q_now sys)) (\<lambda>now.
     bindq (gets (uring_expired_proxies now)) (\<lambda>expired.
     bindq (for_each (expire_proxy sys) expired) (\<lambda>_.
     bindq (gets (uring_ids (\<lambda>slot c. uring_handshake_expired sys now c))) (\<lambda>handshake_expired.
     bindq (for_each remove_uc handshake_expired) (\<lambda>_.
     bindq (submit_timer_read sys) (\<lambda>_.
     uring_pump_static_streams sys))))))"

fun cancel_targets :: "nat \<Rightarrow> 'sc uring_listener list \<Rightarrow> io_error + u64 list" where
  "cancel_targets index [] = Inr []"
| "cancel_targets index (l # ls) =
     (case (if ul_accept_pending l then map_sum id (\<lambda>oper. [encode oper]) (accept_operation l index) else Inr []) of
        Inl e \<Rightarrow> Inl e
      | Inr target \<Rightarrow> (case cancel_targets (Suc index) ls of Inl e \<Rightarrow> Inl e | Inr targets \<Rightarrow> Inr (target @ targets)))"

definition uring_begin_shutdown :: "('w, 'sc, 't) uring_sys \<Rightarrow> ('w, 'sc, 't, unit) uop" where
  "uring_begin_shutdown sys =
     bindq (gets uw_cancellation_started) (\<lambda>started. if started then ok () else
     bindq (usyscall (q_now sys)) (\<lambda>now.
     bindq (modify (\<lambda>s. s\<lparr>uw_shutting_down := True, uw_shutdown_started := Some now, uw_cancellation_started := True\<rparr>)) (\<lambda>_.
     bindq (gets (\<lambda>s. cancel_targets 0 (uw_listeners s))) (\<lambda>r.
     bindq (of_result r) (\<lambda>targets.
     bindq (modify (\<lambda>s. s\<lparr>uw_pending_cancellations := length targets\<rparr>)) (\<lambda>_.
     bindq (for_each (\<lambda>target. push_entry sys (cancel_entry target CANCEL_USER_DATA)) targets) (\<lambda>_.
     ring_submit sys)))))))"

definition shutdown_drained :: "('w, 'sc, 't) uring_worker \<Rightarrow> bool" where
  "shutdown_drained s \<longleftrightarrow> uw_pending_cancellations s = 0
     \<and> list_all (\<lambda>l. \<not> ul_accept_pending l) (uw_listeners s) \<and> slab_len (uw_connections s) = 0"

definition shutdown_deadline_reached :: "('w, 'sc, 't) uring_sys \<Rightarrow> ('w, 'sc, 't, bool) uop" where
  "shutdown_deadline_reached sys =
     bindq (gets uw_shutdown_started) (\<lambda>started. case started of
       None \<Rightarrow> ok False
     | Some started \<Rightarrow>
         bindq (usyscall (q_now sys)) (\<lambda>now.
         gets (\<lambda>s. duration_since now started \<ge> wl_drain_timeout (uw_limits s))))"

section \<open>The event loop\<close>

definition dispatch_completion :: "('w, 'sc, 't) uring_sys \<Rightarrow> operation_id \<Rightarrow> cqe \<Rightarrow> ('w, 'sc, 't, unit) uop" where
  "dispatch_completion sys oper completion = (case op_kind oper of
     Accept \<Rightarrow> handle_accept_completion sys oper (cq_result completion) (cq_more completion)
   | Read \<Rightarrow> handle_read_completion sys oper (cq_result completion) (cq_buffer_id completion)
   | Write \<Rightarrow> handle_write_completion sys oper (cq_result completion)
   | ProxyConnect \<Rightarrow> handle_proxy_connect sys oper (cq_result completion)
   | ProxyWrite \<Rightarrow> handle_proxy_write sys oper (cq_result completion)
   | ProxyRead \<Rightarrow> handle_proxy_read sys oper (cq_result completion) (cq_buffer_id completion))"

definition handle_cqe :: "('w, 'sc, 't) uring_sys \<Rightarrow> cqe \<Rightarrow> ('w, 'sc, 't, unit) uop" where
  "handle_cqe sys completion =
     (let user_data = cq_user_data completion in
      if user_data = CONTROL_USER_DATA then modify (\<lambda>s. s\<lparr>uw_world := q_request sys (uw_world s)\<rparr>)
      else if user_data = CANCEL_USER_DATA
      then modify (\<lambda>s. s\<lparr>uw_pending_cancellations := uw_pending_cancellations s - 1\<rparr>)
      else if user_data = PROXY_CANCEL_USER_DATA then ok ()
      else if user_data = DNS_USER_DATA then uring_process_dns_results sys
      else if user_data = TIMER_USER_DATA then check_proxy_timeouts sys
      else (case decode user_data of
        None \<Rightarrow>
          (case cq_buffer_id completion of
             Some buffer \<Rightarrow> bindq (release_buffer sys buffer (nat (max (cq_result completion) 0))) (\<lambda>_. ok ())
           | None \<Rightarrow> ok ())
      | Some oper \<Rightarrow> dispatch_completion sys oper completion))"

text \<open>The start of \<open>run\<close>, one iteration of its loop (\<open>False\<close> when \<open>run\<close> returns \<open>Ok\<close>), and at most \<open>n\<close> of them.\<close>

definition uring_start :: "('w, 'sc, 't) uring_sys \<Rightarrow> ('w, 'sc, 't, unit) uop" where
  "uring_start sys =
     bindq (submit_initial_accepts sys) (\<lambda>_.
     bindq (submit_shutdown_read sys) (\<lambda>_.
     bindq (submit_dns_read sys) (\<lambda>_.
     bindq (submit_timer_read sys) (\<lambda>_.
     ring_submit sys))))"

definition uring_iteration :: "('w, 'sc, 't) uring_sys \<Rightarrow> ('w, 'sc, 't, bool) uop" where
  "uring_iteration sys =
     bindq (usyscall (q_is_requested sys)) (\<lambda>requested.
     bindq (if requested then uring_begin_shutdown sys else ok ()) (\<lambda>_.
     bindq (gets (\<lambda>s. uw_shutting_down s \<and> shutdown_drained s)) (\<lambda>finished. if finished then ok False else
     bindq (gets uw_shutting_down) (\<lambda>shutting_down.
     bindq (if shutting_down then shutdown_deadline_reached sys else ok False) (\<lambda>expired. if expired then ok False else
     bindq (usyscall (q_submit_and_wait sys)) (\<lambda>r.
     bindq (of_result r) (\<lambda>_.
     bindq (usyscall (q_completion sys)) (\<lambda>completions.
     bindq (for_each (handle_cqe sys) completions) (\<lambda>_.
     bindq (ring_submit sys) (\<lambda>_. ok True))))))))))"

fun uring_loop :: "('w, 'sc, 't) uring_sys \<Rightarrow> nat \<Rightarrow> ('w, 'sc, 't, unit option) uop" where
  "uring_loop sys 0 = ok None"
| "uring_loop sys (Suc n) =
     bindq (uring_iteration sys) (\<lambda>go_on. if go_on then uring_loop sys n else ok (Some ()))"

definition run_uring_worker :: "('w, 'sc, 't) uring_sys \<Rightarrow> nat \<Rightarrow> ('w, 'sc, 't, unit option) uop" where
  "run_uring_worker sys n = bindq (uring_start sys) (\<lambda>_. uring_loop sys n)"

section \<open>Building a worker\<close>

text \<open>The descriptors, from what the system calls return.\<close>

definition create_eventfd :: "('w, 'sc, 't) uring_sys \<Rightarrow> 'w \<Rightarrow> (io_error + socket) \<times> 'w" where
  "create_eventfd sys w = (case q_eventfd sys w of (fd, w') \<Rightarrow>
     if fd < 0 then (Inl (q_last_os_error sys w'), w') else (Inr (nat fd), w'))"

definition create_timerfd :: "('w, 'sc, 't) uring_sys \<Rightarrow> 'w \<Rightarrow> (io_error + socket) \<times> 'w" where
  "create_timerfd sys w = (case q_timerfd_create sys w of (fd, w') \<Rightarrow>
     if fd < 0 then (Inl (q_last_os_error sys w'), w')
     else (case q_timerfd_settime sys (nat fd) w' of (r, w'') \<Rightarrow>
       if r < 0 then (Inl (q_last_os_error sys w''), w'') else (Inr (nat fd), w'')))"

definition uring_listener_of ::
  "'sc loaded_ssl_config option list \<Rightarrow> socket bound_listener_group \<Rightarrow> 'sc uring_listener" where
  "uring_listener_of ssl_configs g = uring_listener_new (bl_socket g) (bl_default_server g) (bl_server_indices g)
     (case get ssl_configs (bl_default_server g) of Some c \<Rightarrow> c | None \<Rightarrow> None) Multishot"

definition uring_worker_of ::
  "(socket, 'sc) worker_context \<Rightarrow> usize \<Rightarrow> buffer_ring \<Rightarrow> socket \<Rightarrow> socket \<Rightarrow> uring_id dns_resolver \<Rightarrow> socket \<Rightarrow> 'w \<Rightarrow>
   ('w, 'sc, 't) uring_worker" where
  "uring_worker_of ctx buffer_size ring shutdown_eventfd dns_eventfd resolver timerfd w =
     \<lparr>uw_buffer_ring = ring, uw_listeners = map (uring_listener_of (ctx_ssl_configs ctx)) (ctx_listener_groups ctx),
      uw_servers = ctx_servers ctx, uw_connections = [], uw_generations = [], uw_buffer_size = buffer_size,
      uw_limits = ctx_limits ctx, uw_proxy_limits = ctx_proxy_limits ctx, uw_dns_limits = ctx_dns_limits ctx,
      uw_shutdown_eventfd = shutdown_eventfd, uw_shutting_down = False, uw_shutdown_started = None,
      uw_cancellation_started = False, uw_pending_cancellations = 0, uw_dns_eventfd = dns_eventfd,
      uw_resolver = resolver, uw_timerfd = timerfd, uw_metrics = ctx_metrics ctx,
      uw_balancer = with_groups (ctx_upstream_groups ctx), uw_world = w\<rparr>"

definition uring_resources ::
  "('w, 'sc, 't) uring_sys \<Rightarrow> (socket, 'sc) worker_context \<Rightarrow> usize \<Rightarrow> buffer_ring \<Rightarrow> 'w \<Rightarrow>
   (io_error + ('w, 'sc, 't) uring_worker) \<times> 'w" where
  "uring_resources sys ctx buffer_size ring w0 =
     (case create_eventfd sys w0 of (Inl e, w) \<Rightarrow> (Inl e, w) | (Inr shutdown_eventfd, w) \<Rightarrow>
      let w = q_install_eventfd sys shutdown_eventfd w in
     (case create_eventfd sys w of (Inl e, w) \<Rightarrow> (Inl e, w) | (Inr dns_eventfd, w) \<Rightarrow>
     (case dns_resolver_new (q_spawn sys) (unat (dl_resolver_threads (ctx_dns_limits ctx))) of
        Inl e \<Rightarrow> (Inl e, w) | Inr resolver \<Rightarrow>
     (case create_timerfd sys w of (Inl e, w) \<Rightarrow> (Inl e, w) | (Inr timerfd, w) \<Rightarrow>
      (Inr (uring_worker_of ctx buffer_size ring shutdown_eventfd dns_eventfd resolver timerfd w), w)))))"

definition uring_worker_new ::
  "('w, 'sc, 't) uring_sys \<Rightarrow> io_uring_runtime \<Rightarrow> (socket, 'sc) worker_context \<Rightarrow> 'w \<Rightarrow>
   (io_error + ('w, 'sc, 't) uring_worker) outcome \<times> 'w" where
  "uring_worker_new sys rt ctx w0 =
     (case q_build sys (iu_cq_entries rt) (iu_sq_entries rt) w0 of (Inl e, w) \<Rightarrow> (Return (Inl e), w) | (Inr _, w) \<Rightarrow>
     (case q_register_probe sys w of (supported, w) \<Rightarrow>
     (case capabilities_probe supported of Inl e \<Rightarrow> (Return (Inl e), w) | Inr caps \<Rightarrow>
     (case validate_required caps of Inl e \<Rightarrow> (Return (Inl e), w) | Inr _ \<Rightarrow>
     (case q_register sys w of (env, w) \<Rightarrow>
     (case register env (iu_buf_ring_size rt) (iu_buf_size rt) of
        Panic \<Rightarrow> (Panic, w)
      | Return (Inl e) \<Rightarrow> (Return (Inl e), w)
      | Return (Inr ring) \<Rightarrow>
          if length (ctx_ssl_configs ctx) \<noteq> length (ctx_servers ctx)
          then (Return (Inl (Custom KInvalidInput ''SSL configuration does not match the configured servers'')), w)
          else (case uring_resources sys ctx (iu_buf_size rt) ring w of (r, w) \<Rightarrow> (Return r, w))))))))"

end
