(* ===== verification/Uring_Frame.thy ===== *)
theory Uring_Frame
  imports Uring_Worker
begin

text \<open>
  What the operations of the io_uring worker leave alone. A frame is a reflexive and transitive relation
  between the states before and after. The locale \<open>worker_frame\<close> asks it of the few updates the worker
  is made of and derives it for every operation on a connection; \<open>whole_frame\<close> extends it to the
  operations on all of them, up to a completion.
\<close>

section \<open>Frames of the operations on a connection\<close>

definition framed :: "('s \<Rightarrow> 's \<Rightarrow> bool) \<Rightarrow> ('e, 's, 'a) op \<Rightarrow> bool" where
  "framed Q m \<longleftrightarrow> (\<forall>s. Q s (snd (m s)))"

lemma framedD: "framed Q m \<Longrightarrow> m s = (r, t) \<Longrightarrow> Q s t"
  unfolding framed_def by (metis snd_conv)

text \<open>The worlds in which a call of the worker can end, the completions of the ring apart.\<close>

definition call_ends :: "('w, 'sc, 't) uring_sys \<Rightarrow> 'w \<Rightarrow> 'w set" where
  "call_ends sys w = {snd (q_submit sys w), snd (q_submit_and_wait sys w), snd (q_now sys w), snd (q_is_requested sys w),
     q_request sys w, snd (q_threads sys w), snd (q_fs sys w)} \<union> range (\<lambda>e. snd (q_push sys e w))
   \<union> range (\<lambda>bs. snd (q_received sys bs w)) \<union> range (\<lambda>v4. snd (q_socket sys v4 w))
   \<union> range (\<lambda>occupied. snd (q_vacant_key sys occupied w)) \<union> range (\<lambda>st. snd (q_producer sys st w))"

lemma call_endsI [simp]:
  "snd (q_submit sys w) \<in> call_ends sys w" "snd (q_submit_and_wait sys w) \<in> call_ends sys w" "snd (q_now sys w) \<in> call_ends sys w"
  "snd (q_is_requested sys w) \<in> call_ends sys w" "q_request sys w \<in> call_ends sys w" "snd (q_threads sys w) \<in> call_ends sys w"
  "snd (q_fs sys w) \<in> call_ends sys w" "snd (q_push sys e w) \<in> call_ends sys w" "snd (q_received sys bs w) \<in> call_ends sys w"
  "snd (q_socket sys v4 w) \<in> call_ends sys w" "snd (q_vacant_key sys occupied w) \<in> call_ends sys w"
  "snd (q_producer sys st w) \<in> call_ends sys w"
  by (simp_all add: call_ends_def)

locale worker_frame =
  fixes sys :: "('w, 'sc, 't) uring_sys" and Q :: "('w, 'sc, 't) uring_worker \<Rightarrow> ('w, 'sc, 't) uring_worker \<Rightarrow> bool"
    and own :: "nat \<Rightarrow> bool"
  assumes frame_refl: "Q s s"
    and frame_trans: "Q s t \<Longrightarrow> Q t u \<Longrightarrow> Q s u"
    and frame_world: "w \<in> call_ends sys (uw_world s) \<Longrightarrow> Q s (s\<lparr>uw_world := w\<rparr>)"
    and frame_slot: "own k \<Longrightarrow> Q s (s\<lparr>uw_connections := (uw_connections s)[k := x]\<rparr>)"
    and frame_fields: "Q s (s\<lparr>uw_metrics := m\<rparr>)" "Q s (s\<lparr>uw_resolver := r\<rparr>)" "Q s (s\<lparr>uw_balancer := b\<rparr>)"
      "Q s (s\<lparr>uw_listeners := ls\<rparr>)" "Q s (s\<lparr>uw_buffer_ring := ring\<rparr>)"
begin

lemma framed_basic [simp]:
  "framed Q (ok x)" "framed Q (err e)" "framed Q panic" "framed Q (gets f)" "framed Q (of_result r)" "framed Q (umetric g)"
  "framed Q (index_uc i)"
  by (auto simp: framed_def ok_def err_def panic_def gets_def of_result_def umetric_def modify_def index_uc_def
      frame_refl frame_fields split: option.split)

lemma framed_call: "(\<And>w. snd (h w) \<in> call_ends sys w) \<Longrightarrow> framed Q (usyscall h)"
  by (auto simp: framed_def usyscall_def case_prod_unfold Let_def intro!: frame_world)

lemma framed_calls [simp]:
  "framed Q (usyscall (q_submit sys))" "framed Q (usyscall (q_submit_and_wait sys))" "framed Q (usyscall (q_now sys))"
  "framed Q (usyscall (q_is_requested sys))" "framed Q (usyscall (q_threads sys))" "framed Q (usyscall (q_fs sys))"
  "framed Q (usyscall (q_push sys e))" "framed Q (usyscall (q_socket sys v4))" "framed Q (usyscall (q_vacant_key sys occupied))"
  "framed Q (usyscall (q_producer sys st))"
  by (rule framed_call, simp)+

lemma framed_slot [simp]:
  "own (uslot i) \<Longrightarrow> framed Q (update_uc i f)" "own (uslot i) \<Longrightarrow> framed Q (remove_uc i)" "own (uslot i) \<Longrightarrow> framed Q (set_us i t)"
  by (auto simp: framed_def update_uc_def remove_uc_def set_us_def frame_refl frame_slot split: option.split)

lemma framed_modify: "(\<And>s. Q s (g s)) \<Longrightarrow> framed Q (modify g)"
  by (simp add: framed_def modify_def)

lemma framed_bindq [intro!]:
  assumes "framed Q m" and "\<And>x. framed Q (f x)"
  shows "framed Q (bindq m f)"
  unfolding framed_def
proof
  fix s
  obtain r t where m: "m s = (r, t)" by fastforce
  have "Q s t" using framedD[OF assms(1) m] .
  moreover have "Q t (snd (f x t))" for x using assms(2) by (simp add: framed_def)
  ultimately show "Q s (snd (bindq m f s))"
    using m frame_trans by (auto simp: bindq_def split: outcome.split sum.split)
qed

lemma framed_when_current [intro!]: "(\<And>c. framed Q (f c)) \<Longrightarrow> framed Q (when_current i f)"
  unfolding when_current_def by (auto split: option.split)

lemma framed_for_each [intro!]: "(\<And>x. x \<in> set xs \<Longrightarrow> framed Q (f x)) \<Longrightarrow> framed Q (for_each f xs)"
  by (induction xs) auto

lemma framed_attempt [intro!]: "framed Q m \<Longrightarrow> framed Q (attempt m)"
  by (auto simp: framed_def attempt_def case_prod_unfold split: outcome.split)

lemma framed_push_loop [simp]: "framed Q (push_loop sys fuel e)"
  by (induction fuel) auto

lemma framed_push_entry [simp]: "framed Q (push_entry sys e)"
  unfolding push_entry_def by (auto simp del: push_loop.simps)

lemma framed_submit [simp]:
  "framed Q (ring_submit sys)" "framed Q (submit_dns_read sys)" "framed Q (submit_timer_read sys)" "framed Q (submit_shutdown_read sys)"
  by (auto simp: ring_submit_def submit_dns_read_def submit_timer_read_def submit_shutdown_read_def)

lemma framed_submit_accept [simp]: "framed Q (submit_accept sys n)"
  unfolding submit_accept_def by (auto split: option.split intro!: framed_modify frame_fields)

lemma framed_fill [simp]: "own (uslot i) \<Longrightarrow> framed Q (fill_ssl_buffer sys i)"
  unfolding fill_ssl_buffer_def take_records_def Let_def by (auto simp: case_prod_unfold split: option.split)

lemma framed_sends [simp]:
  "own (uslot i) \<Longrightarrow> framed Q (submit_send sys i)" "own (uslot i) \<Longrightarrow> framed Q (submit_recv sys i)"
  "own (uslot i) \<Longrightarrow> framed Q (submit_proxy_connect sys i)" "own (uslot i) \<Longrightarrow> framed Q (submit_proxy_write sys i)"
  "own (uslot i) \<Longrightarrow> framed Q (submit_proxy_read sys i)"
  by (auto simp: submit_send_def submit_recv_def submit_proxy_connect_def submit_proxy_write_def submit_proxy_read_def
      split: option.split)

lemma framed_proxy_error [simp]:
  "own (uslot i) \<Longrightarrow> framed Q (queue_proxy_error sys i status message)"
  "own (uslot i) \<Longrightarrow> framed Q (uring_fail_proxy sys i status message)"
  by (auto simp: queue_proxy_error_def uring_fail_proxy_def)

lemma framed_address_loop [simp]: "own (uslot i) \<Longrightarrow> framed Q (address_loop sys i fuel)"
  by (induction fuel) (auto simp: create_upstream_socket_def split: list.split sum.split)

lemma framed_try_next [simp]: "own (uslot i) \<Longrightarrow> framed Q (try_next_proxy_address sys i)"
  unfolding try_next_proxy_address_def by (auto simp del: address_loop.simps)

lemma framed_proxy [simp]:
  "own (uslot i) \<Longrightarrow> framed Q (uring_start_proxy sys i upstream_url request body)"
  "own (uslot (rr_connection_id result)) \<Longrightarrow> framed Q (uring_finish_resolution sys result)"
  unfolding uring_start_proxy_def uring_finish_resolution_def Let_def
  by (auto simp: case_prod_unfold split: option.split sum.split list.split intro!: framed_modify frame_fields)

lemma framed_static [simp]:
  "own (uslot i) \<Longrightarrow> framed Q (uring_queue_static_response sys i response)"
  "own (uslot i) \<Longrightarrow> framed Q (uring_advance_static_stream sys i)"
  unfolding uring_queue_static_response_def uring_advance_static_stream_def Let_def
  by (auto simp: case_prod_unfold split: option.split sum.split static_chunk.split)

lemma framed_select [simp]: "framed Q (uring_select_upstream a)"
  by (auto simp: framed_def uring_select_upstream_def case_prod_unfold frame_fields split: outcome.split)

lemma framed_respond [simp]:
  "own (uslot i) \<Longrightarrow> framed Q (send_response sys i response)" "own (uslot i) \<Longrightarrow> framed Q (uring_accept_head i)"
  "own (uslot (id_of oper)) \<Longrightarrow> framed Q (queue_http_error sys oper status message)"
  unfolding send_response_def uring_accept_head_def queue_http_error_def
  by (auto split: sum.split request_head_parse.split body_framing_error.split option.split)

lemma framed_perform [simp]: "own (uslot i) \<Longrightarrow> framed Q (uring_perform_action sys i request body n)"
  unfolding uring_perform_action_def by (auto split: option.split action.split sum.split)

lemma framed_prepare [simp]: "own (uslot i) \<Longrightarrow> framed Q (prepare_response sys i)"
  unfolding prepare_response_def by (auto split: option.split)

lemma framed_complete [simp]:
  "own (uslot i) \<Longrightarrow> framed Q (complete_request sys i)" "own (uslot i) \<Longrightarrow> framed Q (decrypt sys i bs)"
  unfolding complete_request_def decrypt_def Let_def
  by (auto simp: case_prod_unfold split: option.split prod.split sum.split)

lemma framed_receive [simp]: "own (uslot (id_of oper)) \<Longrightarrow> framed Q (uring_receive_bytes sys oper incoming)"
  unfolding uring_receive_bytes_def Let_def by (auto split: option.split)

lemma framed_release [simp]: "framed Q (release_buffer sys buffer len)"
  unfolding framed_def
proof
  fix s :: "('w, 'sc, 't) uring_worker"
  obtain contents w where w: "q_received sys (br_buffers (uw_buffer_ring s)) (uw_world s) = (contents, w)" by fastforce
  obtain r ring where r: "copy_and_release buffer len ((uw_buffer_ring s)\<lparr>br_buffers := contents\<rparr>) = (r, ring)" by fastforce
  have "w \<in> call_ends sys (uw_world s)" using call_endsI(9)[of sys "br_buffers (uw_buffer_ring s)" "uw_world s"] w by simp
  then have "Q s ((s\<lparr>uw_buffer_ring := ring\<rparr>)\<lparr>uw_world := w\<rparr>)"
    using frame_trans[OF frame_fields(5) frame_world] by simp
  with w r show "Q s (snd (release_buffer sys buffer len s))" by (simp add: release_buffer_def)
qed

lemma framed_received [simp]: "framed Q (take_received sys message result buffer_id)"
  unfolding take_received_def by (auto split: option.split)

lemma framed_completed_proxy [intro!]:
  assumes "own (uslot i)" and "\<And>x. framed Q (f x)"
  shows "framed Q (completed_proxy sys i message f)"
  unfolding completed_proxy_def using assms by (auto split: option.split)

lemma framed_after_output [simp]: "own (uslot i) \<Longrightarrow> framed Q (after_output sys i)"
  unfolding after_output_def by (auto split: option.split)

text \<open>The completions of a connection, and its expiry.\<close>

lemma framed_completions [simp]:
  assumes "own (uslot (id_of oper))"
  shows "framed Q (handle_read_completion sys oper result buffer_id)" "framed Q (handle_write_completion sys oper result)"
    "framed Q (handle_proxy_connect sys oper result)" "framed Q (handle_proxy_write sys oper result)"
    "framed Q (handle_proxy_read sys oper result buffer_id)"
  unfolding handle_read_completion_def handle_write_completion_def handle_proxy_connect_def handle_proxy_write_def
    handle_proxy_read_def Let_def
  using assms by (auto split: option.split list.split)

lemma framed_expire [simp]: "own (uslot (fst p)) \<Longrightarrow> framed Q (expire_proxy sys p)"
  unfolding expire_proxy_def by (auto simp: case_prod_unfold split: option.split)

end

section \<open>Frames of the operations on all connections\<close>

locale whole_frame = worker_frame +
  assumes every_slot: "own k"
    and frame_insert: "Q s (s\<lparr>uw_connections := slab_insert k c (uw_connections s)\<rparr>)"
    and frame_counters: "Q s (s\<lparr>uw_generations := gs\<rparr>)" "Q s (s\<lparr>uw_pending_cancellations := n\<rparr>)"
      "Q s (s\<lparr>uw_shutting_down := True, uw_shutdown_started := x, uw_cancellation_started := True\<rparr>)"
begin

lemma framed_insert [simp]: "framed Q (uring_insert_connection sys socket n)"
  unfolding uring_insert_connection_def
  by (auto split: option.split intro!: framed_modify frame_insert frame_counters simp: frame_refl)

lemma framed_accept [simp]: "framed Q (handle_accept_completion sys oper result has_more)"
  unfolding handle_accept_completion_def retain_connection_def Let_def
  by (auto split: option.split sum.split intro!: framed_modify frame_fields simp: every_slot)

lemma framed_pump [simp]: "framed Q (uring_pump_static_streams sys)"
  unfolding uring_pump_static_streams_def by (auto simp: every_slot)

lemma framed_dns [simp]: "framed Q (uring_process_dns_results sys)"
  unfolding uring_process_dns_results_def
  by (auto simp: every_slot case_prod_unfold intro!: framed_modify frame_fields)

lemma framed_timeouts [simp]: "framed Q (check_proxy_timeouts sys)"
  unfolding check_proxy_timeouts_def by (auto simp: every_slot)

lemma framed_dispatch [simp]: "framed Q (dispatch_completion sys oper completion)"
  unfolding dispatch_completion_def by (auto simp: every_slot split: operation_kind.split)

lemma framed_handle_cqe [simp]: "framed Q (handle_cqe sys completion)"
  unfolding handle_cqe_def Let_def
  by (auto split: option.split intro!: framed_modify frame_counters frame_world)

lemma framed_begin_shutdown [simp]: "framed Q (uring_begin_shutdown sys)"
  unfolding uring_begin_shutdown_def by (auto intro!: framed_modify frame_counters)

lemma framed_deadline [simp]: "framed Q (shutdown_deadline_reached sys)"
  unfolding shutdown_deadline_reached_def by (auto split: option.split)

end

section \<open>The other connections stay as they are\<close>

definition same_slots :: "nat set \<Rightarrow> ('w, 'sc, 't) uring_worker \<Rightarrow> ('w, 'sc, 't) uring_worker \<Rightarrow> bool" where
  "same_slots K s t \<longleftrightarrow> (\<forall>j. j \<notin> K \<longrightarrow> slab_get (uw_connections t) j = slab_get (uw_connections s) j)"

lemma slab_get_update: "j \<noteq> k \<Longrightarrow> slab_get (xs[k := x]) j = slab_get xs j"
  by (cases x) (auto simp: slab_get_put slab_get_clear)

interpretation same: worker_frame sys "same_slots K" "\<lambda>k. k \<in> K" for sys K
  by unfold_locales (auto simp: same_slots_def intro!: slab_get_update)

end
