(* ===== verification/Uring_Invariant.thy ===== *)
theory Uring_Invariant
  imports Uring_Frame
begin

text \<open>
  What the io_uring worker guarantees on listeners without TLS. The contract of the outside
  (\<open>uring_ok\<close>) is the documented behaviour of the ring: the entries pushed and not yet completed are in
  flight, and every completion belongs to one of them. The invariant \<open>uinv\<close> ties the flags of the
  connections to the operations that are outstanding: every operation in flight belongs to a
  connection that waits for it, and the bytes it points to are still in the buffers of that
  connection.
\<close>

section \<open>The contract of the ring\<close>

text \<open>Which entries the completions use up: all but those of a multishot accept that goes on.\<close>

fun completes :: "sqe multiset \<Rightarrow> cqe list \<Rightarrow> sqe multiset \<Rightarrow> bool" where
  "completes I [] I' \<longleftrightarrow> I' = I"
| "completes I (c # cs) I' \<longleftrightarrow> (\<exists>e. e \<in># I \<and> sq_user_data e = cq_user_data c
     \<and> (cq_more c \<longrightarrow> (\<exists>fd. sq_submission e = SubmitAcceptMulti fd))
     \<and> completes (if cq_more c then I else I - {#e#}) cs I')"

definition keeps_inflight :: "('w \<Rightarrow> sqe multiset) \<Rightarrow> ('w \<Rightarrow> 'a \<times> 'w) \<Rightarrow> bool" where
  "keeps_inflight inflight f \<longleftrightarrow> (\<forall>w. inflight (snd (f w)) = inflight w)"

definition ring_ok_contract :: "('w \<Rightarrow> sqe multiset) \<Rightarrow> ('w, 'sc, 't) uring_sys \<Rightarrow> bool" where
  "ring_ok_contract inflight sys \<longleftrightarrow>
     (\<forall>e w w'. q_push sys e w = (True, w') \<longrightarrow> inflight w' = add_mset e (inflight w))
   \<and> (\<forall>e w w'. q_push sys e w = (False, w') \<longrightarrow> inflight w' = inflight w \<and> q_bound sys w' < q_bound sys w)
   \<and> (\<forall>w r w'. q_submit sys w = (r, w') \<longrightarrow> q_bound sys w' \<le> q_bound sys w)
   \<and> (\<forall>w cs w'. q_completion sys w = (cs, w') \<longrightarrow> completes (inflight w) cs (inflight w'))"

definition outside_ring :: "('w \<Rightarrow> sqe multiset) \<Rightarrow> ('w, 'sc, 't) uring_sys \<Rightarrow> bool" where
  "outside_ring inflight sys \<longleftrightarrow> keeps_inflight inflight (q_submit sys) \<and> keeps_inflight inflight (q_submit_and_wait sys)
   \<and> (\<forall>bs. keeps_inflight inflight (q_received sys bs)) \<and> (\<forall>v4. keeps_inflight inflight (q_socket sys v4))
   \<and> keeps_inflight inflight (q_now sys) \<and> keeps_inflight inflight (q_is_requested sys)
   \<and> (\<forall>w. inflight (q_request sys w) = inflight w) \<and> (\<forall>occ. keeps_inflight inflight (q_vacant_key sys occ))
   \<and> keeps_inflight inflight (q_threads sys) \<and> (\<forall>st. keeps_inflight inflight (q_producer sys st))
   \<and> keeps_inflight inflight (q_fs sys)"

definition uring_ok :: "('w \<Rightarrow> sqe multiset) \<Rightarrow> ('w, 'sc, 't) uring_sys \<Rightarrow> bool" where
  "uring_ok inflight sys \<longleftrightarrow> ring_ok_contract inflight sys \<and> outside_ring inflight sys
   \<and> (\<forall>occ w k w'. q_vacant_key sys occ w = (k, w') \<longrightarrow> k \<le> length occ \<and> (k < length occ \<longrightarrow> \<not> occ ! k))"

lemma inflight_calls [simp]:
  assumes "uring_ok inflight sys"
  shows "inflight (snd (q_submit sys w)) = inflight w" "inflight (snd (q_submit_and_wait sys w)) = inflight w"
    "inflight (snd (q_received sys bs w)) = inflight w" "inflight (snd (q_socket sys v4 w)) = inflight w"
    "inflight (snd (q_now sys w)) = inflight w" "inflight (snd (q_is_requested sys w)) = inflight w"
    "inflight (q_request sys w) = inflight w" "inflight (snd (q_vacant_key sys occ w)) = inflight w"
    "inflight (snd (q_threads sys w)) = inflight w" "inflight (snd (q_producer sys st w)) = inflight w"
    "inflight (snd (q_fs sys w)) = inflight w"
  using assms by (auto simp: uring_ok_def outside_ring_def keeps_inflight_def)

section \<open>The invariant\<close>

text \<open>Why an operation of a connection may be outstanding.\<close>

fun justified :: "'t uring_connection \<Rightarrow> operation_kind \<Rightarrow> submission \<Rightarrow> bool" where
  "justified c Accept sub = True"
| "justified c Read sub = uc_read_pending c"
| "justified c Write sub = (uc_write_pending c \<and> sub = SubmitSend (uc_socket c) (drop (send_offset c) (send_buffer c)))"
| "justified c ProxyConnect sub = (\<exists>x. uc_proxy c = Some x \<and> up_operation_pending x \<and> up_phase x = Connecting
     \<and> (\<exists>fd a. up_upstream x = Some fd \<and> up_address x = Some a \<and> sub = SubmitConnect fd a))"
| "justified c ProxyWrite sub = (\<exists>x. uc_proxy c = Some x \<and> up_operation_pending x \<and> up_phase x = WritingRequest
     \<and> (\<exists>fd. up_upstream x = Some fd \<and> sub = SubmitSend fd (drop (up_request_offset x) (up_request_buffer x))))"
| "justified c ProxyRead sub = (\<exists>x. uc_proxy c = Some x \<and> up_operation_pending x \<and> up_phase x = ReadingResponse)"

text \<open>The operations of connections, by their word; accepts and the reserved words are not among them.\<close>

definition connection_op :: "u64 \<Rightarrow> operation_id option" where
  "connection_op u = (case decode u of Some oper \<Rightarrow> if op_kind oper = Accept then None else Some oper | None \<Rightarrow> None)"

definition owned :: "'t uring_connection option list \<Rightarrow> sqe \<Rightarrow> bool" where
  "owned conns e \<longleftrightarrow> (\<forall>oper. connection_op (sq_user_data e) = Some oper \<longrightarrow>
     (\<exists>c. slab_get conns (unat (op_slot oper)) = Some c \<and> uc_generation c = op_generation oper
        \<and> justified c (op_kind oper) (sq_submission e)))"

definition at_most_once :: "sqe multiset \<Rightarrow> bool" where
  "at_most_once M \<longleftrightarrow> (\<forall>u. connection_op u \<noteq> None \<longrightarrow> size {#e \<in># M. sq_user_data e = u#} \<le> 1)"

definition accepts_marked :: "sqe multiset \<Rightarrow> bool" where
  "accepts_marked M \<longleftrightarrow> (\<forall>e fd. e \<in># M \<longrightarrow> sq_submission e = SubmitAcceptMulti fd \<longrightarrow>
     connection_op (sq_user_data e) = None)"

text \<open>The upstream half of a connection.\<close>

definition uproxy_ok :: "worker_limits \<Rightarrow> 't uring_connection \<Rightarrow> uring_proxy \<Rightarrow> bool" where
  "uproxy_ok limits c x \<longleftrightarrow> \<not> uc_read_pending c \<and> uc_static_stream c = None
     \<and> up_request_offset x \<le> length (up_request_buffer x)
     \<and> length (up_request_buffer x) \<le> unat (wl_max_read_buffer_size limits)
     \<and> (up_operation_pending x \<longrightarrow> \<not> uc_write_pending c \<and> up_phase x \<noteq> Resolving)
     \<and> (uc_write_pending c \<longrightarrow> up_phase x = ReadingResponse)
     \<and> (up_phase x \<in> {WritingRequest, ReadingResponse} \<or> up_operation_pending x \<longrightarrow> up_upstream x \<noteq> None)"

definition upending_ok :: "worker_limits \<Rightarrow> uring_pending_request option \<Rightarrow> bool" where
  "upending_ok limits p = (case p of None \<Rightarrow> True | Some r \<Rightarrow> unat (upr_body_start r) \<le> unat (upr_body_end r)
     \<and> unat (upr_body_end r) \<le> unat (wl_max_read_buffer_size limits))"

definition uconn_ok :: "worker_limits \<Rightarrow> 't uring_connection \<Rightarrow> bool" where
  "uconn_ok limits c \<longleftrightarrow> uc_ssl c = None \<and> uc_write_offset c \<le> length (uc_write_buffer c)
     \<and> length (uc_request_buffer c) \<le> unat (wl_max_read_buffer_size limits)
     \<and> upending_ok limits (uc_pending_request c)
     \<and> (uc_read_pending c \<longrightarrow> \<not> uc_write_pending c \<and> uc_static_stream c = None)
     \<and> (uc_write_pending c \<longrightarrow> uc_write_offset c < length (uc_write_buffer c))
     \<and> (\<forall>x. uc_proxy c = Some x \<longrightarrow> uproxy_ok limits c x)"

definition uslot_ok :: "u16 list \<Rightarrow> nat \<Rightarrow> 't uring_connection \<Rightarrow> bool" where
  "uslot_ok generations i c \<longleftrightarrow> i < 2 ^ 32 \<and> get generations i = Some (uc_generation c) \<and> uc_generation c \<noteq> 0"

text \<open>The operations a connection waits for, and that each of them is outstanding.\<close>

fun waits :: "'t uring_connection \<Rightarrow> operation_kind \<Rightarrow> bool" where
  "waits c Accept = False"
| "waits c Read = uc_read_pending c"
| "waits c Write = uc_write_pending c"
| "waits c ProxyConnect = (\<exists>x. uc_proxy c = Some x \<and> up_operation_pending x \<and> up_phase x = Connecting)"
| "waits c ProxyWrite = (\<exists>x. uc_proxy c = Some x \<and> up_operation_pending x \<and> up_phase x = WritingRequest)"
| "waits c ProxyRead = (\<exists>x. uc_proxy c = Some x \<and> up_operation_pending x \<and> up_phase x = ReadingResponse)"

definition backed :: "sqe multiset \<Rightarrow> nat \<Rightarrow> 't uring_connection \<Rightarrow> bool" where
  "backed M i c \<longleftrightarrow> (\<forall>k. waits c k \<longrightarrow>
     (\<exists>e. e \<in># M \<and> sq_user_data e = encode (operation k (of_nat i) (uc_generation c))))"

definition all_backed :: "sqe multiset \<Rightarrow> 't uring_connection option list \<Rightarrow> bool" where
  "all_backed M conns \<longleftrightarrow> (\<forall>i c. slab_get conns i = Some c \<longrightarrow> backed M i c)"

text \<open>The operations outstanding are those in flight, and those whose completions are at hand, \<open>R\<close>.\<close>

definition usound :: "('w \<Rightarrow> sqe multiset) \<Rightarrow> sqe multiset \<Rightarrow> ('w, 'sc, 't) uring_worker \<Rightarrow> bool" where
  "usound inflight R s \<longleftrightarrow>
     (\<forall>i c. slab_get (uw_connections s) i = Some c \<longrightarrow> uconn_ok (uw_limits s) c \<and> uslot_ok (uw_generations s) i c)
   \<and> slab_len (uw_connections s) \<le> unat (wl_max_connections (uw_limits s))
   \<and> config_known (uw_servers s) (uw_balancer s)
   \<and> unat (uw_buffer_size s) < 2 ^ 32
   \<and> (\<forall>l \<in> set (uw_listeners s). ul_ssl l = None)
   \<and> (\<forall>e. e \<in># inflight (uw_world s) + R \<longrightarrow> owned (uw_connections s) e)
   \<and> at_most_once (inflight (uw_world s) + R) \<and> accepts_marked (inflight (uw_world s) + R)"

definition uinv :: "('w \<Rightarrow> sqe multiset) \<Rightarrow> sqe multiset \<Rightarrow> ('w, 'sc, 't) uring_worker \<Rightarrow> bool" where
  "uinv inflight R s \<longleftrightarrow> usound inflight R s \<and> all_backed (inflight (uw_world s) + R) (uw_connections s)"

lemmas uinv_defs = uinv_def usound_def

lemma uinv_usound: "uinv inflight R s \<Longrightarrow> usound inflight R s"
  by (simp add: uinv_def)

text \<open>What stays as it is.\<close>

definition listener_config :: "'sc uring_listener \<Rightarrow> nat \<times> nat list" where
  "listener_config l = (ul_default_server l, ul_server_indices l)"

definition uevolves :: "('w, 'sc, 't) uring_worker \<Rightarrow> ('w, 'sc, 't) uring_worker \<Rightarrow> bool" where
  "uevolves s t \<longleftrightarrow> uw_limits t = uw_limits s \<and> uw_servers t = uw_servers s
     \<and> map listener_config (uw_listeners t) = map listener_config (uw_listeners s)
     \<and> (uw_shutting_down s \<longrightarrow> uw_shutting_down t)"

interpretation urg: guarded_steps "uinv inflight R" uevolves for inflight R
  by unfold_locales (auto simp: uevolves_def)

section \<open>Basic operations\<close>

definition put_uc :: "('w, 'sc, 't) uring_worker \<Rightarrow> uring_id \<Rightarrow> 't uring_connection \<Rightarrow> ('w, 'sc, 't) uring_worker" where
  "put_uc s i c = s\<lparr>uw_connections := (uw_connections s)[uslot i := Some c]\<rparr>"

lemma ucurrentD:
  "ucurrent s i = Some c \<Longrightarrow> slab_get (uw_connections s) (uslot i) = Some c \<and> uc_generation c = ui_generation i"
  by (auto simp: ucurrent_def uget_def split: option.splits if_splits)

lemma ucurrentI:
  "slab_get (uw_connections s) (uslot i) = Some c \<Longrightarrow> uc_generation c = ui_generation i \<Longrightarrow> ucurrent s i = Some c"
  by (auto simp: ucurrent_def uget_def)

lemma uget_current: "ucurrent s i = Some c \<Longrightarrow> uget s i = Some c"
  by (auto simp: ucurrent_def split: option.splits if_splits)

lemma wp_usyscall: "wp (usyscall f) Q s = Q (Inr (fst (f (uw_world s)))) (s\<lparr>uw_world := snd (f (uw_world s))\<rparr>)"
  by (simp add: wp_def usyscall_def case_prod_unfold Let_def)

lemma wp_umetric [simp]: "wp (umetric g) Q s = Q (Inr ()) (s\<lparr>uw_metrics := g (uw_metrics s)\<rparr>)"
  by (simp add: umetric_def)

lemma wp_index_uc: "ucurrent s i = Some c \<Longrightarrow> wp (index_uc i) Q s = Q (Inr c) s"
  by (drule uget_current) (simp add: wp_def index_uc_def)

lemma wp_update_uc: "ucurrent s i = Some c \<Longrightarrow> wp (update_uc i g) Q s = Q (Inr ()) (put_uc s i (g c))"
  by (drule uget_current) (simp add: wp_def update_uc_def put_uc_def)

lemma wp_remove_uc:
  "ucurrent s i = Some c \<Longrightarrow> wp (remove_uc i) Q s = Q (Inr ()) (s\<lparr>uw_connections := (uw_connections s)[uslot i := None]\<rparr>)"
  by (drule uget_current) (simp add: wp_def remove_uc_def)

lemma wp_when_current:
  "wp (when_current i f) Q s = (case ucurrent s i of None \<Rightarrow> Q (Inr ()) s | Some c \<Rightarrow> wp (f c) Q s)"
  by (simp add: when_current_def split: option.splits)

lemma ucurrent_put [simp]:
  "ucurrent s i = Some c \<Longrightarrow> ucurrent (put_uc s i c') i = (if uc_generation c' = ui_generation i then Some c' else None)"
  by (drule ucurrentD) (auto simp: ucurrent_def uget_def put_uc_def slab_get_put slab_get_Some_iff)

text \<open>A push that does not fail adds the entry to those in flight; a failed one adds nothing.\<close>

lemma wp_push_loop:
  assumes "uring_ok inflight sys" and "q_bound sys (uw_world s) < fuel"
    and "\<And>w. inflight w = add_mset e (inflight (uw_world s)) \<Longrightarrow> Q (Inr ()) (s\<lparr>uw_world := w\<rparr>)"
    and "\<And>x w. inflight w = inflight (uw_world s) \<Longrightarrow> Q (Inl x) (s\<lparr>uw_world := w\<rparr>)"
  shows "wp (push_loop sys fuel e) Q s"
  using assms(2-)
proof (induction fuel arbitrary: s)
  case (Suc fuel)
  obtain b w where p: "q_push sys e (uw_world s) = (b, w)" by fastforce
  obtain r w' where r: "q_submit sys w = (r, w')" by fastforce
  have contract: "ring_ok_contract inflight sys" using assms(1) by (simp add: uring_ok_def)
  have i: "inflight w' = inflight w" using inflight_calls(1)[OF assms(1), of w] r by simp
  show ?case
  proof (cases b)
    case True
    with p have "q_push sys e (uw_world s) = (True, w)" by simp
    with contract have "inflight w = add_mset e (inflight (uw_world s))" unfolding ring_ok_contract_def by blast
    with Suc.prems(2) p True show ?thesis by (simp add: wp_usyscall)
  next
    case False
    with p have "q_push sys e (uw_world s) = (False, w)" by simp
    with contract have w: "inflight w = inflight (uw_world s)" "q_bound sys w < q_bound sys (uw_world s)"
      unfolding ring_ok_contract_def by blast+
    have b': "q_bound sys w' \<le> q_bound sys w" using r contract unfolding ring_ok_contract_def by blast
    show ?thesis
    proof (cases r)
      case (Inl x)
      with Suc.prems(3) p r w i False show ?thesis by (simp add: wp_usyscall)
    next
      case (Inr u)
      have "wp (push_loop sys fuel e) Q (s\<lparr>uw_world := w'\<rparr>)"
        using Suc.prems w i b' by (intro Suc.IH) simp_all
      with p r False Inr show ?thesis by (simp add: wp_usyscall)
    qed
  qed
qed simp

lemma wp_push_entry:
  assumes "uring_ok inflight sys"
    and "\<And>w. inflight w = add_mset e (inflight (uw_world s)) \<Longrightarrow> Q (Inr ()) (s\<lparr>uw_world := w\<rparr>)"
    and "\<And>x w. inflight w = inflight (uw_world s) \<Longrightarrow> Q (Inl x) (s\<lparr>uw_world := w\<rparr>)"
  shows "wp (push_entry sys e) Q s"
  unfolding push_entry_def using assms by (simp add: wp_push_loop del: push_loop.simps)

section \<open>What keeps the invariant\<close>

text \<open>Whether no operation of a connection is outstanding.\<close>

definition idle :: "'t uring_connection \<Rightarrow> bool" where
  "idle c \<longleftrightarrow> \<not> uc_read_pending c \<and> \<not> uc_write_pending c \<and> (\<forall>x. uc_proxy c = Some x \<longrightarrow> \<not> up_operation_pending x)"

lemma idle_not_justified: "idle c \<Longrightarrow> k \<noteq> Accept \<Longrightarrow> \<not> justified c k sub"
  by (cases k) (auto simp: idle_def)

lemma justified_unique:
  assumes "uconn_ok limits c" and "justified c k sub" and "justified c k' sub'" and "k \<noteq> Accept" and "k' \<noteq> Accept"
  shows "k' = k"
proof -
  have "uc_read_pending c \<Longrightarrow> \<not> uc_write_pending c \<and> uc_proxy c = None"
    using assms(1) by (cases "uc_proxy c") (auto simp: uconn_ok_def uproxy_ok_def)
  moreover have "\<And>x. uc_proxy c = Some x \<Longrightarrow> up_operation_pending x \<Longrightarrow> \<not> uc_write_pending c"
    using assms(1) by (auto simp: uconn_ok_def uproxy_ok_def)
  ultimately show ?thesis using assms(2-) by (cases k; cases k') auto
qed

lemma connection_op_Some_iff:
  "connection_op u = Some oper \<longleftrightarrow> op_generation oper \<noteq> 0 \<and> encode oper = u \<and> op_kind oper \<noteq> Accept"
proof -
  have "connection_op u = Some oper \<longleftrightarrow> decode u = Some oper \<and> op_kind oper \<noteq> Accept"
    by (auto simp: connection_op_def split: option.splits)
  then show ?thesis by (auto simp: decode_Some_iff valid_operation_def)
qed

lemma usound_conn:
  assumes "usound inflight R s" and "ucurrent s i = Some c"
  shows "uconn_ok (uw_limits s) c" "uslot_ok (uw_generations s) (uslot i) c"
  using assms ucurrentD[OF assms(2)] by (auto simp: usound_def)

text \<open>
  No outstanding operation belongs to a connection: then it can be replaced by any sound one, or
  removed.
\<close>

definition quiet :: "sqe multiset \<Rightarrow> uring_id \<Rightarrow> bool" where
  "quiet M i \<longleftrightarrow> (\<forall>e oper. e \<in># M \<longrightarrow> connection_op (sq_user_data e) = Some oper \<longrightarrow> unat (op_slot oper) \<noteq> uslot i)"

lemma quiet_idle:
  assumes "usound inflight R s" and "ucurrent s i = Some c" and "idle c"
  shows "quiet (inflight (uw_world s) + R) i"
  unfolding quiet_def
proof (intro allI impI notI)
  fix e oper
  assume e: "e \<in># inflight (uw_world s) + R" "connection_op (sq_user_data e) = Some oper" "unat (op_slot oper) = uslot i"
  then have "owned (uw_connections s) e" using assms(1) by (auto simp: usound_def)
  with e(2,3) ucurrentD[OF assms(2)] have "justified c (op_kind oper) (sq_submission e)" by (auto simp: owned_def)
  with e(2) idle_not_justified[OF assms(3)] show False by (auto simp: connection_op_Some_iff)
qed

text \<open>The operation whose completion is at hand is the only one of its connection.\<close>

lemma quiet_settled:
  assumes "usound inflight (add_mset e R) s" and "connection_op (sq_user_data e) = Some oper"
  shows "quiet (inflight (uw_world s) + R) (id_of oper)"
  unfolding quiet_def
proof (intro allI impI notI)
  fix e' oper'
  assume e': "e' \<in># inflight (uw_world s) + R" "connection_op (sq_user_data e') = Some oper'"
    "unat (op_slot oper') = uslot (id_of oper)"
  let ?M = "inflight (uw_world s) + add_mset e R"
  have "owned (uw_connections s) e" "owned (uw_connections s) e'" using assms(1) e'(1) by (auto simp: usound_def)
  then obtain c where c: "slab_get (uw_connections s) (uslot (id_of oper)) = Some c"
    "uc_generation c = op_generation oper" "uc_generation c = op_generation oper'"
    "justified c (op_kind oper) (sq_submission e)" "justified c (op_kind oper') (sq_submission e')"
    using assms(2) e'(2,3) by (auto simp: owned_def uslot_def id_of_def)
  have "uconn_ok (uw_limits s) c" using assms(1) c(1) by (auto simp: usound_def)
  then have "op_kind oper' = op_kind oper"
    using justified_unique c(4,5) assms(2) e'(2) by (metis connection_op_Some_iff)
  moreover have "op_slot oper' = op_slot oper" using e'(3) by (simp add: uslot_def id_of_def word_unat_eq_iff)
  ultimately have "oper' = oper" using c(2,3) by simp
  with assms(2) e'(2) have u: "sq_user_data e' = sq_user_data e" by (auto simp: connection_op_Some_iff)
  have "size {#x \<in># ?M. sq_user_data x = sq_user_data e#} \<le> 1"
    using assms by (auto simp: usound_def at_most_once_def)
  moreover have "e' \<in># {#x \<in># inflight (uw_world s) + R. sq_user_data x = sq_user_data e#}" using e'(1) u by simp
  then have "size {#x \<in># inflight (uw_world s) + R. sq_user_data x = sq_user_data e#} \<noteq> 0" by (metis empty_iff set_mset_empty size_eq_0_iff_empty)
  ultimately show False by simp
qed

lemma at_most_once_mono: "at_most_once M \<Longrightarrow> N \<subseteq># M \<Longrightarrow> at_most_once N"
  unfolding at_most_once_def by (meson le_trans multiset_filter_mono size_mset_mono)

lemma accepts_marked_mono: "accepts_marked M \<Longrightarrow> N \<subseteq># M \<Longrightarrow> accepts_marked N"
  unfolding accepts_marked_def by (meson mset_subset_eqD)

lemma owned_put:
  assumes "owned conns e" and "\<And>oper. connection_op (sq_user_data e) = Some oper \<Longrightarrow> unat (op_slot oper) \<noteq> i"
  shows "owned (conns[i := x]) e"
  using assms by (cases x) (auto simp: owned_def slab_get_put slab_get_clear)

text \<open>Changing the connection of a slot to which no outstanding operation belongs.\<close>

lemma usound_slot:
  assumes s: "usound inflight R s" and "R' \<subseteq># R" and i: "ucurrent s i = Some c"
    and q: "quiet (inflight (uw_world s) + R') i"
    and x: "\<And>c'. x = Some c' \<Longrightarrow> uconn_ok (uw_limits s) c' \<and> uc_generation c' = uc_generation c"
  shows "usound inflight R' (s\<lparr>uw_connections := (uw_connections s)[uslot i := x]\<rparr>)"
proof -
  note c = ucurrentD[OF i]
  let ?M = "inflight (uw_world s) + R'"
  have sub: "?M \<subseteq># inflight (uw_world s) + R" using assms(2) by simp
  have "owned ((uw_connections s)[uslot i := x]) e" if "e \<in># ?M" for e
    using that s q mset_subset_eqD[OF sub that] by (intro owned_put) (auto simp: usound_def quiet_def)
  moreover have "at_most_once ?M" "accepts_marked ?M"
    using s sub at_most_once_mono accepts_marked_mono by (auto simp: usound_def)
  moreover have "slab_len ((uw_connections s)[uslot i := x]) \<le> slab_len (uw_connections s)"
    using c slab_len_clear by (cases x) (simp_all add: slab_len_put)
  moreover have "uconn_ok (uw_limits s) d \<and> uslot_ok (uw_generations s) j d"
    if "slab_get ((uw_connections s)[uslot i := x]) j = Some d" for j d
  proof (cases "j = uslot i")
    case True
    with that c have "x = Some d" by (cases x) (auto simp: slab_get_put slab_get_clear slab_get_Some_iff)
    with x True usound_conn(2)[OF s i] show ?thesis by (auto simp: uslot_ok_def)
  next
    case False
    with that have "slab_get (uw_connections s) j = Some d" by (cases x) (auto simp: slab_get_put slab_get_clear)
    with s show ?thesis by (auto simp: usound_def)
  qed
  ultimately show ?thesis using s by (auto simp: usound_def)
qed

lemma usound_put:
  assumes "usound inflight R s" and "ucurrent s i = Some c" and "idle c"
    and "uconn_ok (uw_limits s) c'" and "uc_generation c' = uc_generation c"
  shows "usound inflight R (put_uc s i c')"
  unfolding put_uc_def using assms usound_slot[OF assms(1) _ assms(2) quiet_idle[OF assms(1-3)]] by auto

lemma usound_settle:
  assumes "usound inflight (add_mset e R) s" and "connection_op (sq_user_data e) = Some oper"
    and "ucurrent s (id_of oper) = Some c"
    and "uconn_ok (uw_limits s) c'" and "uc_generation c' = uc_generation c"
  shows "usound inflight R (put_uc s (id_of oper) c')"
  unfolding put_uc_def using assms usound_slot[OF assms(1) _ assms(3) quiet_settled[OF assms(1,2)]] by auto

lemma usound_remove:
  assumes "usound inflight R s" and "ucurrent s i = Some c" and "idle c"
  shows "usound inflight R (s\<lparr>uw_connections := (uw_connections s)[uslot i := None]\<rparr>)"
  using usound_slot[OF assms(1) _ assms(2) quiet_idle[OF assms(1-3)]] by auto

text \<open>Every operation that a connection waits for stays outstanding.\<close>

lemma idle_backed: "idle c \<Longrightarrow> backed M i c"
proof -
  have "\<not> waits c k" if "idle c" for k using that by (cases k) (auto simp: idle_def)
  then show "idle c \<Longrightarrow> backed M i c" by (simp add: backed_def)
qed

lemma justified_waits: "justified c k sub \<Longrightarrow> k \<noteq> Accept \<Longrightarrow> waits c k"
  by (cases k) auto

lemma waits_unique:
  assumes "uconn_ok limits c" and "waits c k" and "waits c k'"
  shows "k' = k"
proof -
  have "uc_read_pending c \<Longrightarrow> \<not> uc_write_pending c \<and> uc_proxy c = None"
    using assms(1) by (cases "uc_proxy c") (auto simp: uconn_ok_def uproxy_ok_def)
  moreover have "\<And>x. uc_proxy c = Some x \<Longrightarrow> up_operation_pending x \<Longrightarrow> \<not> uc_write_pending c"
    using assms(1) by (auto simp: uconn_ok_def uproxy_ok_def)
  ultimately show ?thesis using assms(2-) by (cases k; cases k') auto
qed

lemma backed_mono: "backed M i c \<Longrightarrow> M \<subseteq># N \<Longrightarrow> backed N i c"
  unfolding backed_def by (meson mset_subset_eqD)

lemma all_backed_put:
  assumes "all_backed M conns" and "M \<subseteq># N" and "\<And>c. x = Some c \<Longrightarrow> backed N i c"
  shows "all_backed N (conns[i := x])"
  unfolding all_backed_def
proof (intro allI impI)
  fix j c assume j: "slab_get (conns[i := x]) j = Some c"
  show "backed N j c"
  proof (cases "j = i")
    case True
    with j have "x = Some c" by (cases x) (auto simp: slab_get_put slab_get_clear slab_get_Some_iff split: if_splits)
    with True assms(3) show ?thesis by simp
  next
    case False
    with j have "slab_get conns j = Some c" by (cases x) (auto simp: slab_get_put slab_get_clear)
    then show ?thesis using assms(1,2) backed_mono unfolding all_backed_def by blast
  qed
qed

lemma backed_settle:
  assumes "backed (add_mset e M) j c" and "connection_op (sq_user_data e) = Some oper" and "unat (op_slot oper) \<noteq> j"
    and "uslot_ok gens j c"
  shows "backed M j c"
  unfolding backed_def
proof (intro allI impI)
  fix k assume k: "waits c k"
  let ?o = "operation k (of_nat j) (uc_generation c)"
  obtain e' where e': "e' \<in># add_mset e M" "sq_user_data e' = encode ?o" using assms(1) k unfolding backed_def by blast
  have "unat (of_nat j :: u32) = j" using assms(4) by (simp add: uslot_ok_def unat_of_nat_small)
  moreover have "connection_op (encode ?o) = Some ?o"
    using k assms(4) by (cases k) (auto simp: connection_op_Some_iff operation_def uslot_ok_def)
  ultimately have "e' \<noteq> e" using e'(2) assms(2,3) by (auto simp: operation_def)
  with e' show "\<exists>e. e \<in># M \<and> sq_user_data e = encode ?o" by auto
qed

lemma uinv_conn:
  assumes "uinv inflight R s" and "ucurrent s i = Some c"
  shows "uconn_ok (uw_limits s) c" "uslot_ok (uw_generations s) (uslot i) c"
  using usound_conn[OF uinv_usound[OF assms(1)] assms(2)] .

lemma uinv_put:
  assumes "uinv inflight R s" and "ucurrent s i = Some c" and "idle c"
    and "uconn_ok (uw_limits s) c'" and "uc_generation c' = uc_generation c" and "idle c'"
  shows "uinv inflight R (put_uc s i c')"
  using assms usound_put[OF uinv_usound[OF assms(1)] assms(2-5)]
    all_backed_put[of "inflight (uw_world s) + R" "uw_connections s" _ "Some c'"] idle_backed[OF assms(6)]
  by (auto simp: uinv_def put_uc_def)

lemma uinv_settle:
  assumes s: "uinv inflight (add_mset e R) s" and e: "connection_op (sq_user_data e) = Some oper"
    and i: "ucurrent s (id_of oper) = Some c"
    and c': "uconn_ok (uw_limits s) c'" "uc_generation c' = uc_generation c" "idle c'"
  shows "uinv inflight R (put_uc s (id_of oper) c')"
proof -
  let ?M = "inflight (uw_world s) + R" and ?conns = "(uw_connections s)[uslot (id_of oper) := Some c']"
  have slot: "uslot (id_of oper) = unat (op_slot oper)" by (simp add: uslot_def id_of_def)
  have "backed ?M j d" if j: "slab_get ?conns j = Some d" for j d
  proof (cases "j = unat (op_slot oper)")
    case True
    with j ucurrentD[OF i] have "d = c'" by (auto simp: slot slab_get_put slab_get_Some_iff)
    with c'(3) show ?thesis by (simp add: idle_backed)
  next
    case False
    with j have "slab_get (uw_connections s) j = Some d" by (simp add: slot slab_get_put)
    then have "backed (add_mset e ?M) j d" "uslot_ok (uw_generations s) j d"
      using s by (auto simp: uinv_defs all_backed_def)
    with e False show ?thesis using backed_settle by metis
  qed
  then have "all_backed ?M ?conns" by (simp add: all_backed_def)
  with usound_settle[OF uinv_usound[OF s] e i c'(1,2)] show ?thesis by (simp add: uinv_def put_uc_def)
qed

lemma uinv_remove:
  assumes "uinv inflight R s" and "ucurrent s i = Some c" and "idle c"
  shows "uinv inflight R (s\<lparr>uw_connections := (uw_connections s)[uslot i := None]\<rparr>)"
  using assms usound_remove[OF uinv_usound[OF assms(1)] assms(2,3)]
    all_backed_put[of "inflight (uw_world s) + R" "uw_connections s" _ None]
  by (auto simp: uinv_def)

text \<open>Calls that leave the ring alone, and fields the invariant does not mention.\<close>

lemma uinv_world: "inflight w = inflight (uw_world s) \<Longrightarrow> uinv inflight R (s\<lparr>uw_world := w\<rparr>) = uinv inflight R s"
  by (simp add: uinv_defs)

lemma uinv_frame [simp]:
  "uinv inflight R (s\<lparr>uw_metrics := m\<rparr>) = uinv inflight R s"
  "uinv inflight R (s\<lparr>uw_resolver := r\<rparr>) = uinv inflight R s"
  "uinv inflight R (s\<lparr>uw_buffer_ring := b\<rparr>) = uinv inflight R s"
  "uinv inflight R (s\<lparr>uw_pending_cancellations := n\<rparr>) = uinv inflight R s"
  "uinv inflight R (s\<lparr>uw_cancellation_started := x\<rparr>) = uinv inflight R s"
  "uinv inflight R (s\<lparr>uw_shutting_down := x\<rparr>) = uinv inflight R s"
  "uinv inflight R (s\<lparr>uw_shutdown_started := t\<rparr>) = uinv inflight R s"
  by (simp_all add: uinv_defs)

text \<open>Pushing an entry that is not an operation of a connection.\<close>

lemma at_most_once_add:
  assumes "at_most_once M" and "connection_op (sq_user_data e) \<noteq> None \<Longrightarrow> sq_user_data e \<notin> sq_user_data ` set_mset M"
  shows "at_most_once (add_mset e M)"
  unfolding at_most_once_def
proof (intro allI impI)
  fix u assume u: "connection_op u \<noteq> None"
  show "size {#x \<in># add_mset e M. sq_user_data x = u#} \<le> 1"
  proof (cases "sq_user_data e = u")
    case True
    then have "{#x \<in># M. sq_user_data x = u#} = {#}" using assms(2) u by (auto simp: filter_mset_eq_conv image_iff)
    with True show ?thesis by simp
  next
    case False
    with u assms(1) show ?thesis by (simp add: at_most_once_def)
  qed
qed

lemma uinv_push_other:
  assumes "uinv inflight R s" and "inflight w = add_mset e (inflight (uw_world s))" and "connection_op (sq_user_data e) = None"
  shows "uinv inflight R (s\<lparr>uw_world := w\<rparr>)"
proof -
  have "backed (add_mset e (inflight (uw_world s) + R)) i c" if "slab_get (uw_connections s) i = Some c" for i c
    using assms(1) that backed_mono[of "inflight (uw_world s) + R" i c "add_mset e (inflight (uw_world s) + R)"]
    by (simp add: uinv_def all_backed_def)
  then show ?thesis
    using assms at_most_once_add[of "inflight (uw_world s) + R" e]
    by (auto simp: uinv_defs accepts_marked_def owned_def all_backed_def)
qed

text \<open>Pushing an operation of an idle connection and marking it as pending.\<close>

lemma uinv_push:
  assumes s: "uinv inflight R s" and i: "ucurrent s i = Some c" and "idle c"
    and w: "inflight w = add_mset e (inflight (uw_world s))"
    and u: "sq_user_data e = encode (operation k (ui_slot i) (ui_generation i))" and k: "k \<noteq> Accept"
    and c': "uconn_ok (uw_limits s) c'" "uc_generation c' = uc_generation c"
    and j: "justified c' k (sq_submission e)" and "\<And>fd. sq_submission e \<noteq> SubmitAcceptMulti fd"
  shows "uinv inflight R (put_uc (s\<lparr>uw_world := w\<rparr>) i c')"
proof -
  let ?M = "inflight (uw_world s) + R"
  note sound = uinv_usound[OF s]
  have t: "usound inflight R (put_uc s i c')" using usound_put[OF sound i assms(3) c'] .
  have g: "ui_generation i \<noteq> 0" using uinv_conn(2)[OF s i] ucurrentD[OF i] by (auto simp: uslot_ok_def)
  have oper: "connection_op (sq_user_data e) = Some (operation k (ui_slot i) (ui_generation i))"
    using u k g by (simp add: connection_op_Some_iff operation_def)
  have "slab_get (uw_connections (put_uc s i c')) (uslot i) = Some c'"
    using ucurrentD[OF i] by (auto simp: put_uc_def slab_get_put slab_get_Some_iff)
  then have own: "owned (uw_connections (put_uc s i c')) e"
    using oper j c'(2) ucurrentD[OF i] by (auto simp: owned_def uslot_def operation_def)
  have "sq_user_data e \<notin> sq_user_data ` set_mset ?M"
    using quiet_idle[OF sound i assms(3)] oper unfolding quiet_def image_iff
    by (metis operation_def operation_id.select_convs(1) uslot_def)
  then have once: "at_most_once (add_mset e ?M)" using s by (intro at_most_once_add) (auto simp: uinv_defs)
  have "k' = k" if "waits c' k'" for k' using waits_unique[OF c'(1) justified_waits[OF j k] that] .
  then have "backed (add_mset e ?M) (uslot i) c'"
    using u c'(2) ucurrentD[OF i] by (auto simp: backed_def uslot_def)
  then have "all_backed (add_mset e ?M) ((uw_connections s)[uslot i := Some c'])"
    using s by (intro all_backed_put[of ?M]) (auto simp: uinv_def)
  then have "uinv inflight R ((put_uc s i c')\<lparr>uw_world := w\<rparr>)"
    using t own w once assms(10) by (auto simp: uinv_defs put_uc_def accepts_marked_def)
  moreover have "put_uc (s\<lparr>uw_world := w\<rparr>) i c' = (put_uc s i c')\<lparr>uw_world := w\<rparr>" by (cases s) (simp add: put_uc_def)
  ultimately show ?thesis by simp
qed

section \<open>Rules for operations on a connection\<close>

text \<open>A later state of \<open>s0\<close> in which a connection is current.\<close>

definition serving ::
  "('w \<Rightarrow> sqe multiset) \<Rightarrow> sqe multiset \<Rightarrow> ('w, 'sc, 't) uring_worker \<Rightarrow> uring_id \<Rightarrow> 't uring_connection
   \<Rightarrow> ('w, 'sc, 't) uring_worker \<Rightarrow> bool" where
  "serving inflight R s0 i c s \<longleftrightarrow> urg.reached inflight R s0 s \<and> ucurrent s i = Some c"

lemma reached_limits: "urg.reached inflight R s0 s \<Longrightarrow> uw_limits s = uw_limits s0"
  by (simp add: urg.reached_def uevolves_def)

lemma servingD:
  assumes "serving inflight R s0 i c s"
  shows "urg.reached inflight R s0 s" "ucurrent s i = Some c" "uget s i = Some c" "uw_limits s = uw_limits s0"
    "uc_generation c = ui_generation i" "uconn_ok (uw_limits s0) c"
proof -
  show s: "urg.reached inflight R s0 s" and i: "ucurrent s i = Some c" using assms by (simp_all add: serving_def)
  show "uget s i = Some c" using i by (rule uget_current)
  show l: "uw_limits s = uw_limits s0" using s by (rule reached_limits)
  show "uc_generation c = ui_generation i" using ucurrentD[OF i] by simp
  show "uconn_ok (uw_limits s0) c" using uinv_conn(1)[OF urg.reached_inv[OF s] i] l by simp
qed

lemma serving_evolve:
  assumes "serving inflight R s0 i c s" and "uinv inflight R t" and "uevolves s t" and "ucurrent t i = Some d"
  shows "serving inflight R s0 i d t"
  using assms urg.reached_step unfolding serving_def by blast

text \<open>
  Whether something will happen on a connection: one of its operations is outstanding, its upstream is
  being looked up, or a file is streamed and its next chunk is awaited.
\<close>

definition attended :: "'t uring_connection \<Rightarrow> bool" where
  "attended c \<longleftrightarrow> uc_read_pending c \<or> uc_write_pending c
     \<or> (\<exists>x. uc_proxy c = Some x \<and> (up_operation_pending x \<or> up_phase x = Resolving))
     \<or> (uc_static_stream c \<noteq> None \<and> uc_write_buffer c = [])"

text \<open>
  An operation on a connection does not panic and keeps the invariant; when it succeeds, the
  connection is gone or attended.
\<close>

definition tended ::
  "('w \<Rightarrow> sqe multiset) \<Rightarrow> sqe multiset \<Rightarrow> ('w, 'sc, 't) uring_worker \<Rightarrow> uring_id \<Rightarrow> io_error + 'a
   \<Rightarrow> ('w, 'sc, 't) uring_worker \<Rightarrow> bool" where
  "tended inflight R s0 i r t \<longleftrightarrow> urg.reached inflight R s0 t
     \<and> (\<forall>x c. r = Inr x \<longrightarrow> uget t i = Some c \<longrightarrow> attended c)"

definition usafe ::
  "('w \<Rightarrow> sqe multiset) \<Rightarrow> sqe multiset \<Rightarrow> ('w, 'sc, 't) uring_worker \<Rightarrow> uring_id \<Rightarrow> ('w, 'sc, 't, 'a) uop
   \<Rightarrow> ('w, 'sc, 't) uring_worker \<Rightarrow> bool" where
  "usafe inflight R s0 i m s \<longleftrightarrow> wp m (tended inflight R s0 i) s"

lemma tended_Inl [simp]: "tended inflight R s0 i (Inl e) t = urg.reached inflight R s0 t"
  by (simp add: tended_def)

lemma tended_serving: "serving inflight R s0 i c t \<Longrightarrow> attended c \<Longrightarrow> tended inflight R s0 i r t"
  using servingD(1,3) by (fastforce simp: tended_def)

lemma usafe_ok: "serving inflight R s0 i c s \<Longrightarrow> attended c \<Longrightarrow> usafe inflight R s0 i (ok x) s"
  by (simp add: usafe_def tended_serving)

lemma usafe_err: "serving inflight R s0 i c s \<Longrightarrow> usafe inflight R s0 i (err e) s"
  using servingD(1) by (simp add: usafe_def)

lemma usafe_gets_bind [simp]: "usafe inflight R s0 i (bindq (gets g) f) s = usafe inflight R s0 i (f (g s)) s"
  by (simp add: usafe_def)

lemma safe_index:
  assumes "serving inflight R s0 i c s" and "usafe inflight R s0 i (f c) s"
  shows "usafe inflight R s0 i (bindq (index_uc i) f) s"
  using assms by (simp add: usafe_def wp_index_uc servingD(2))

lemma uevolves_put: "uevolves s (put_uc s i c)"
  by (simp add: uevolves_def put_uc_def)

lemma serving_put:
  assumes "serving inflight R s0 i c s" and "idle c" and "uconn_ok (uw_limits s0) c'" and "uc_generation c' = uc_generation c"
    and "idle c'"
  shows "serving inflight R s0 i c' (put_uc s i c')"
proof (rule serving_evolve[OF assms(1) _ uevolves_put])
  note s = servingD[OF assms(1)]
  show "uinv inflight R (put_uc s i c')"
    using uinv_put[OF urg.reached_inv[OF s(1)] s(2) assms(2)] assms(3-5) s(4) by simp
  show "ucurrent (put_uc s i c') i = Some c'" using s(2,5) assms(4) by simp
qed

lemma safe_update:
  assumes "serving inflight R s0 i c s" and "idle c" and "uconn_ok (uw_limits s0) (g c)"
    and "uc_generation (g c) = uc_generation c" and "idle (g c)"
    and "\<And>t. serving inflight R s0 i (g c) t \<Longrightarrow> usafe inflight R s0 i (f ()) t"
  shows "usafe inflight R s0 i (bindq (update_uc i g) f) s"
  using assms serving_put[OF assms(1-5)] by (simp add: usafe_def wp_update_uc servingD(2))

lemma safe_remove:
  assumes "serving inflight R s0 i c s" and "idle c"
  shows "usafe inflight R s0 i (remove_uc i) s"
proof -
  note s = servingD[OF assms(1)]
  let ?t = "s\<lparr>uw_connections := (uw_connections s)[uslot i := None]\<rparr>"
  have "urg.reached inflight R s0 ?t"
    using uinv_remove[OF urg.reached_inv[OF s(1)] s(2) assms(2)]
    by (intro urg.reached_step[OF s(1)]) (simp_all add: uevolves_def)
  then show ?thesis by (simp add: usafe_def tended_def wp_remove_uc[OF s(2)] uget_def slab_get_clear)
qed

text \<open>Frames: the metrics, the resolver, and calls that leave the ring alone.\<close>

lemma ureached_frame:
  assumes "urg.reached inflight R s0 s"
  shows "urg.reached inflight R s0 (s\<lparr>uw_metrics := m\<rparr>)" "urg.reached inflight R s0 (s\<lparr>uw_resolver := r\<rparr>)"
    "urg.reached inflight R s0 (s\<lparr>uw_pending_cancellations := n\<rparr>)"
    "inflight w = inflight (uw_world s) \<Longrightarrow> urg.reached inflight R s0 (s\<lparr>uw_world := w\<rparr>)"
    "inflight w = inflight (uw_world s) \<Longrightarrow> urg.reached inflight R s0 (s\<lparr>uw_buffer_ring := b, uw_world := w\<rparr>)"
  using assms by (auto simp: urg.reached_def uinv_world uevolves_def)

lemma ucurrent_frame [simp]:
  "ucurrent (s\<lparr>uw_metrics := m\<rparr>) i = ucurrent s i" "ucurrent (s\<lparr>uw_resolver := r\<rparr>) i = ucurrent s i"
  "ucurrent (s\<lparr>uw_world := w\<rparr>) i = ucurrent s i" "ucurrent (s\<lparr>uw_buffer_ring := b\<rparr>) i = ucurrent s i"
  "ucurrent (s\<lparr>uw_balancer := x\<rparr>) i = ucurrent s i"
  by (simp_all add: ucurrent_def uget_def)

lemma keeps_calls [simp]:
  assumes "uring_ok inflight sys"
  shows "keeps_inflight inflight (q_submit sys)" "keeps_inflight inflight (q_submit_and_wait sys)"
    "keeps_inflight inflight (q_socket sys v4)" "keeps_inflight inflight (q_now sys)"
    "keeps_inflight inflight (q_is_requested sys)" "keeps_inflight inflight (q_vacant_key sys occ)"
    "keeps_inflight inflight (q_threads sys)" "keeps_inflight inflight (q_producer sys st)"
    "keeps_inflight inflight (q_fs sys)"
  using assms by (auto simp: uring_ok_def outside_ring_def)

lemma safe_gets_bind [simp]: "urg.safe inflight R s0 (bindq (gets g) f) s = urg.safe inflight R s0 (f (g s)) s"
  by (simp add: urg.safe_def)

lemma safe_call_bind:
  assumes "keeps_inflight inflight h" and "urg.reached inflight R s0 s"
    and "\<And>r w. urg.reached inflight R s0 (s\<lparr>uw_world := w\<rparr>) \<Longrightarrow> urg.safe inflight R s0 (f r) (s\<lparr>uw_world := w\<rparr>)"
  shows "urg.safe inflight R s0 (bindq (usyscall h) f) s"
  using assms(3) ureached_frame(4)[OF assms(2)] assms(1)
  by (simp add: urg.safe_def wp_usyscall keeps_inflight_def)

lemma safe_call:
  assumes "keeps_inflight inflight h" and "serving inflight R s0 i c s"
    and "\<And>r t. serving inflight R s0 i c t \<Longrightarrow> usafe inflight R s0 i (f r) t"
  shows "usafe inflight R s0 i (bindq (usyscall h) f) s"
proof -
  have "serving inflight R s0 i c (s\<lparr>uw_world := snd (h (uw_world s))\<rparr>)"
    using assms(1,2) by (auto simp: serving_def keeps_inflight_def intro: ureached_frame(4))
  then show ?thesis using assms(3) by (simp add: usafe_def wp_usyscall)
qed

lemma safe_umetric:
  assumes "serving inflight R s0 i c s" and "\<And>t. serving inflight R s0 i c t \<Longrightarrow> usafe inflight R s0 i (f ()) t"
  shows "usafe inflight R s0 i (bindq (umetric g) f) s"
proof -
  have "serving inflight R s0 i c (s\<lparr>uw_metrics := g (uw_metrics s)\<rparr>)"
    using assms(1) by (simp add: serving_def ureached_frame(1))
  then show ?thesis using assms(2) by (simp add: usafe_def)
qed

lemma safe_when:
  assumes "serving inflight R' s0 i c s" and "usafe inflight R s0 i (f c) s"
  shows "usafe inflight R s0 i (when_current i f) s"
  using assms(2) servingD(2)[OF assms(1)] by (simp add: usafe_def wp_when_current)

lemma safe_push_other:
  assumes "uring_ok inflight sys" and "urg.reached inflight R s0 s" and "connection_op (sq_user_data e) = None"
  shows "urg.safe inflight R s0 (push_entry sys e) s"
  unfolding urg.safe_def
proof (rule wp_push_entry[OF assms(1)])
  fix w assume "inflight w = add_mset e (inflight (uw_world s))"
  then show "urg.reached inflight R s0 (s\<lparr>uw_world := w\<rparr>)"
    using uinv_push_other[OF urg.reached_inv[OF assms(2)] _ assms(3)]
    by (intro urg.reached_step[OF assms(2)]) (simp_all add: uevolves_def)
qed (rule ureached_frame(4)[OF assms(2)])

text \<open>Submitting an operation of an idle connection.\<close>

lemma safe_submit:
  assumes sys: "uring_ok inflight sys" and "serving inflight R s0 i c s" and "idle c"
    and "sq_user_data e = encode (operation k (ui_slot i) (ui_generation i))" and "k \<noteq> Accept"
    and "uconn_ok (uw_limits s0) (g c)" and "uc_generation (g c) = uc_generation c"
    and "justified (g c) k (sq_submission e)" and "attended (g c)" and "\<And>fd. sq_submission e \<noteq> SubmitAcceptMulti fd"
  shows "usafe inflight R s0 i (bindq (push_entry sys e) (\<lambda>_. update_uc i g)) s"
  unfolding usafe_def wp_bindq
proof (rule wp_push_entry[OF sys])
  note s = servingD[OF assms(2)]
  fix w
  assume w: "inflight w = add_mset e (inflight (uw_world s))"
  let ?t = "put_uc (s\<lparr>uw_world := w\<rparr>) i (g c)"
  have "uinv inflight R ?t"
    using uinv_push[OF urg.reached_inv[OF s(1)] s(2) assms(3) w assms(4,5) _ assms(7,8,10)] assms(6) s(4) by simp
  moreover have "uevolves s ?t" by (simp add: uevolves_def put_uc_def)
  moreover have "ucurrent ?t i = Some (g c)" using s(2,5) assms(7) by simp
  ultimately have "serving inflight R s0 i (g c) ?t" using serving_evolve[OF assms(2)] by blast
  then have "tended inflight R s0 i (Inr ()) ?t" using assms(9) by (rule tended_serving)
  then show "on_ok (\<lambda>x. wp (update_uc i g) (tended inflight R s0 i)) (\<lambda>e. tended inflight R s0 i (Inl e)) (Inr ())
     (s\<lparr>uw_world := w\<rparr>)"
    using s(2) by (simp add: wp_update_uc)
next
  fix x :: io_error and w assume "inflight w = inflight (uw_world s)"
  then show "on_ok (\<lambda>x. wp (update_uc i g) (tended inflight R s0 i)) (\<lambda>e. tended inflight R s0 i (Inl e)) (Inl x)
     (s\<lparr>uw_world := w\<rparr>)"
    using ureached_frame(4)[OF servingD(1)[OF assms(2)]] by simp
qed

end
