(* ===== verification/Uring_Safety.thy ===== *)
theory Uring_Safety
  imports Uring_Invariant
begin

text \<open>
  The operations of the io_uring worker, one by one: run on a worker without TLS that satisfies \<open>uinv\<close>
  and under the contract \<open>uring_ok\<close>, none of them panics and each ends in a state that satisfies it.
\<close>

section \<open>Sends and receives\<close>

lemmas uconn_defs = uconn_ok_def uproxy_ok_def upending_ok_def idle_def

lemma uconn_plain: "uconn_ok limits c \<Longrightarrow> uc_ssl c = None"
  by (simp add: uconn_ok_def)

lemma serving_plain: "serving inflight R s0 i c s \<Longrightarrow> uc_ssl c = None"
  using servingD(6) uconn_plain by blast

text \<open>A connection from which a send may be submitted.\<close>

definition sendable :: "'t uring_connection \<Rightarrow> bool" where
  "sendable c \<longleftrightarrow> idle c \<and> (\<forall>x. uc_proxy c = Some x \<longrightarrow> up_phase x = ReadingResponse)"

definition to_send :: "'t uring_connection \<Rightarrow> bool" where
  "to_send c \<longleftrightarrow> uc_write_offset c < length (uc_write_buffer c) \<or> attended c"

lemma safe_fill:
  assumes "serving inflight R s0 i c s" and "usafe inflight R s0 i (f ()) s"
  shows "usafe inflight R s0 i (bindq (fill_ssl_buffer sys i) f) s"
  using assms serving_plain[OF assms(1)] by (simp add: usafe_def fill_ssl_buffer_def wp_index_uc servingD(2))

lemma submit_send_safe:
  assumes sys: "uring_ok inflight sys" and s: "serving inflight R s0 i c s" and c: "sendable c" "to_send c"
  shows "usafe inflight R s0 i (submit_send sys i) s"
proof -
  note facts = servingD[OF s]
  have b: "send_buffer c = uc_write_buffer c" "send_offset c = uc_write_offset c" "uc_write_offset c \<le> length (uc_write_buffer c)"
    using facts(6) by (simp_all add: send_buffer_def send_offset_def uconn_ok_def)
  have "usafe inflight R s0 i (bindq (push_entry sys (send_entry i c)) (\<lambda>_. update_uc i mark_write_submitted)) s"
    if "uc_write_offset c < length (uc_write_buffer c)"
    using that c(1) facts(6)
    by (intro safe_submit[OF sys s, where k = Write])
       (auto simp: sendable_def send_entry_def mark_write_submitted_def uconn_defs send_buffer_def send_offset_def attended_def)
  moreover have "attended c" if "uc_write_offset c = length (uc_write_buffer c)" using that c(2) by (simp add: to_send_def)
  ultimately have "usafe inflight R s0 i (bindq (fill_ssl_buffer sys i) (\<lambda>_. bindq (index_uc i) (\<lambda>c.
      if send_offset c > length (send_buffer c) then panic
      else if send_offset c = length (send_buffer c) then ok ()
      else if length (send_buffer c) - send_offset c \<ge> 2 ^ 32
      then err (Custom KInvalidInput ''response exceeds io_uring send length capacity'')
      else bindq (push_entry sys (send_entry i c)) (\<lambda>_. update_uc i mark_write_submitted)))) s"
    using b by (intro safe_fill[OF s] safe_index[OF s]) (simp add: usafe_ok[OF s] usafe_err[OF s])
  then show ?thesis using facts(3,5) c(1) unfolding submit_send_def by (simp add: sendable_def idle_def)
qed

lemma reached_buffer_size: "urg.reached inflight R s0 s \<Longrightarrow> unat (uw_buffer_size s) < 2 ^ 32"
  using urg.reached_inv by (fastforce simp: uinv_defs)

lemma submit_recv_safe:
  assumes "uring_ok inflight sys" and s: "serving inflight R s0 i c s" and "idle c"
    and "uc_proxy c = None" and "uc_static_stream c = None"
  shows "usafe inflight R s0 i (submit_recv sys i) s"
proof -
  note facts = servingD[OF s]
  have "usafe inflight R s0 i (bindq (push_entry sys (recv_entry (uc_socket c) (uw_buffer_size s)
      (op_read (ui_slot i) (ui_generation i)))) (\<lambda>_. update_uc i mark_read_submitted)) s"
    using assms(3-) facts(6)
    by (intro safe_submit[OF assms(1) s, where k = Read])
       (auto simp: recv_entry_def mark_read_submitted_def uconn_defs attended_def)
  then show ?thesis
    using facts(1,3,5) assms(3) reached_buffer_size[OF facts(1)] unfolding submit_recv_def
    by (simp add: idle_def)
qed

section \<open>The upstream side\<close>

text \<open>An idle connection of a proxied request in a phase.\<close>

definition proxied :: "uring_phase \<Rightarrow> uring_proxy \<Rightarrow> 't uring_connection \<Rightarrow> bool" where
  "proxied p x c \<longleftrightarrow> idle c \<and> uc_proxy c = Some x \<and> up_phase x = p"

lemma submit_proxy_connect_safe:
  assumes "uring_ok inflight sys" and s: "serving inflight R s0 i c s" and "proxied Connecting x c"
    and "up_upstream x = Some fd" and "up_address x = Some a"
  shows "usafe inflight R s0 i (submit_proxy_connect sys i) s"
proof -
  note facts = servingD[OF s]
  have "usafe inflight R s0 i (bindq (push_entry sys \<lparr>sq_submission = SubmitConnect fd a,
      sq_user_data = encode (op_proxy_connect (ui_slot i) (ui_generation i))\<rparr>)
      (\<lambda>_. update_uc i (update_up (\<lambda>x. x\<lparr>up_operation_pending := True\<rparr>)))) s"
    using assms(3-) facts(6)
    by (intro safe_submit[OF assms(1) s, where k = ProxyConnect]) (auto simp: proxied_def update_up_def uconn_defs attended_def)
  then show ?thesis using assms(3-) unfolding submit_proxy_connect_def
    by (auto simp: proxied_def intro!: safe_index[OF s])
qed

lemma submit_proxy_write_safe:
  assumes "uring_ok inflight sys" and s: "serving inflight R s0 i c s" and "proxied WritingRequest x c"
  shows "usafe inflight R s0 i (submit_proxy_write sys i) s"
proof -
  note facts = servingD[OF s]
  obtain fd where fd: "up_upstream x = Some fd" and x: "uc_proxy c = Some x"
    and off: "up_request_offset x \<le> length (up_request_buffer x)"
    using assms(3) facts(6) by (auto simp: proxied_def uconn_defs)
  have "usafe inflight R s0 i (bindq (push_entry sys \<lparr>sq_submission = SubmitSend fd (drop (up_request_offset x) (up_request_buffer x)),
      sq_user_data = encode (op_proxy_write (ui_slot i) (ui_generation i))\<rparr>)
      (\<lambda>_. update_uc i (update_up (\<lambda>x. x\<lparr>up_operation_pending := True\<rparr>)))) s"
    using assms(3-) facts(6) fd
    by (intro safe_submit[OF assms(1) s, where k = ProxyWrite]) (auto simp: proxied_def update_up_def uconn_defs attended_def)
  then show ?thesis using x off fd usafe_err[OF s] unfolding submit_proxy_write_def by (auto intro!: safe_index[OF s])
qed

lemma submit_proxy_read_safe:
  assumes "uring_ok inflight sys" and s: "serving inflight R s0 i c s" and "proxied ReadingResponse x c"
  shows "usafe inflight R s0 i (submit_proxy_read sys i) s"
proof -
  note facts = servingD[OF s]
  obtain fd where fd: "up_upstream x = Some fd" and x: "uc_proxy c = Some x"
    using assms(3) facts(6) by (auto simp: proxied_def uconn_defs)
  have "usafe inflight R s0 i (bindq (push_entry sys (recv_entry fd (uw_buffer_size s)
      (op_proxy_read (ui_slot i) (ui_generation i))))
      (\<lambda>_. update_uc i (update_up (\<lambda>x. x\<lparr>up_operation_pending := True\<rparr>)))) s"
    using assms(3-) facts(6) fd
    by (intro safe_submit[OF assms(1) s, where k = ProxyRead]) (auto simp: recv_entry_def proxied_def update_up_def uconn_defs attended_def)
  then show ?thesis using x fd reached_buffer_size[OF facts(1)] unfolding submit_proxy_read_def
    by (auto intro!: safe_index[OF s])
qed

lemma safe_refused:
  assumes "uring_ok inflight sys" and "serving inflight R s0 i c s" and "idle c"
    and "g c = uring_queue_response bs (c\<lparr>uc_proxy := None, uc_pending_request := p\<rparr>)" and "p = None \<or> p = uc_pending_request c" and "bs \<noteq> []"
  shows "usafe inflight R s0 i (bindq (update_uc i g) (\<lambda>_. submit_send sys i)) s"
  using assms(3-) servingD(6)[OF assms(2)]
  by (intro safe_update[OF assms(2,3)] submit_send_safe[OF assms(1)])
     (auto simp: uconn_defs uring_queue_response_def sendable_def to_send_def)

lemma response_bytes_nonempty [simp]: "response_bytes status message \<noteq> []"
  by (simp add: response_bytes_def response_bytes_with_body_def Let_def)

lemma queue_proxy_error_safe:
  assumes "uring_ok inflight sys" and s: "serving inflight R s0 i c s" and "idle c"
  shows "usafe inflight R s0 i (queue_proxy_error sys i status message) s"
  unfolding queue_proxy_error_def
proof (rule safe_umetric[OF s])
  fix t assume t: "serving inflight R s0 i c t"
  have "usafe inflight R s0 i (bindq (update_uc i (\<lambda>c. uring_queue_response (response_bytes status message) (c\<lparr>uc_proxy := None\<rparr>)))
     (\<lambda>_. submit_send sys i)) t"
    using assms(3) by (intro safe_refused[OF assms(1) t, where p = "uc_pending_request c"]) auto
  then show "usafe inflight R s0 i (when_current i (\<lambda>_. bindq (update_uc i (\<lambda>c. uring_queue_response (response_bytes status message) (c\<lparr>uc_proxy := None\<rparr>)))
     (\<lambda>_. submit_send sys i))) t"
    by (rule safe_when[OF t])
qed

lemma uring_fail_proxy_safe:
  assumes "uring_ok inflight sys" and s: "serving inflight R s0 i c s" and "idle c"
  shows "usafe inflight R s0 i (uring_fail_proxy sys i status message) s"
  unfolding uring_fail_proxy_def
  using safe_remove[OF s assms(3)] queue_proxy_error_safe[OF assms] by simp

text \<open>An update of the upstream half.\<close>

lemma safe_update_up:
  assumes s: "serving inflight R s0 i c s" and c: "proxied p x c"
    and "up_phase (g x) \<in> {p, q}" and "\<not> up_operation_pending (g x)"
    and "up_request_buffer (g x) = up_request_buffer x" and "up_request_offset (g x) \<le> length (up_request_buffer x)"
    and "up_phase (g x) \<in> {WritingRequest, ReadingResponse} \<Longrightarrow> up_upstream (g x) \<noteq> None"
    and "\<And>t d. serving inflight R s0 i d t \<Longrightarrow> d = update_up g c \<Longrightarrow> proxied (up_phase (g x)) (g x) d \<Longrightarrow>
      usafe inflight R s0 i (f ()) t"
  shows "usafe inflight R s0 i (bindq (update_uc i (update_up g)) f) s"
proof (rule safe_update[OF s])
  note facts = servingD[OF s]
  show "idle c" using c by (simp add: proxied_def)
  show "uconn_ok (uw_limits s0) (update_up g c)"
    using c facts(6) assms(3-7) by (auto simp: proxied_def update_up_def uconn_defs attended_def)
  show "uc_generation (update_up g c) = uc_generation c" by (simp add: update_up_def)
  show "idle (update_up g c)" using c assms(4) by (auto simp: proxied_def update_up_def idle_def)
  show "usafe inflight R s0 i (f ()) t" if "serving inflight R s0 i (update_up g c) t" for t
    using that c assms(4) by (intro assms(8)) (auto simp: proxied_def update_up_def idle_def)
qed

lemma safe_create_socket:
  assumes "uring_ok inflight sys" and "serving inflight R s0 i c s"
    and "\<And>r t. serving inflight R s0 i c t \<Longrightarrow> usafe inflight R s0 i (f r) t"
  shows "usafe inflight R s0 i (bindq (create_upstream_socket sys address) f) s"
  unfolding create_upstream_socket_def bindq_assoc
  using assms by (auto intro!: safe_call[OF _ assms(2)])

lemma connect_to_safe:
  assumes sys: "uring_ok inflight sys" and s: "serving inflight R s0 i c s" and c: "proxied Connecting x c"
  shows "usafe inflight R s0 i (bindq (usyscall (q_now sys)) (\<lambda>now.
     bindq (update_uc i (update_up (\<lambda>x. uring_record_progress now
       (x\<lparr>up_upstream := Some socket, up_address := Some address\<rparr>)))) (\<lambda>_.
     submit_proxy_connect sys i))) s"
proof (rule safe_call[OF _ s])
  fix now t assume t: "serving inflight R s0 i c t"
  let ?g = "\<lambda>x. uring_record_progress now (x\<lparr>up_upstream := Some socket, up_address := Some address\<rparr>)"
  have "up_request_offset x \<le> length (up_request_buffer x)"
    using servingD(6)[OF s] c by (auto simp: uconn_defs proxied_def)
  moreover have "usafe inflight R s0 i (submit_proxy_connect sys i) u"
    if "serving inflight R s0 i d u" "proxied (up_phase (?g x)) (?g x) d" for u d
    using submit_proxy_connect_safe[OF sys that(1), of "?g x"] that(2) c
    by (auto simp: uring_record_progress_def proxied_def)
  ultimately show "usafe inflight R s0 i (bindq (update_uc i (update_up ?g)) (\<lambda>_. submit_proxy_connect sys i)) t"
    using c by (intro safe_update_up[OF t c, where q = Connecting]) (auto simp: uring_record_progress_def proxied_def idle_def)
qed (use sys in simp)

lemma address_loop_safe:
  assumes sys: "uring_ok inflight sys" and "serving inflight R s0 i c s" and "proxied Connecting x c"
    and "length (up_addresses x) < fuel"
  shows "usafe inflight R s0 i (address_loop sys i fuel) s"
  using assms(2-)
proof (induction fuel arbitrary: s c x)
  case (Suc fuel)
  note s = Suc.prems(1) and c = Suc.prems(2)
  have x: "uc_proxy c = Some x" and idle: "idle c" using c by (simp_all add: proxied_def)
  have off: "up_request_offset x \<le> length (up_request_buffer x)"
    using servingD(6)[OF s] x by (auto simp: uconn_defs)
  show ?case
  proof (cases "up_addresses x")
    case Nil
    then show ?thesis using x queue_proxy_error_safe[OF sys s idle] by (auto intro!: safe_index[OF s])
  next
    case (Cons address rest)
    let ?x = "x\<lparr>up_addresses := rest\<rparr>"
    have next_address: "usafe inflight R s0 i (case r of Inl _ \<Rightarrow> address_loop sys i fuel | Inr socket \<Rightarrow>
        bindq (usyscall (q_now sys)) (\<lambda>now.
        bindq (update_uc i (update_up (\<lambda>x. uring_record_progress now
          (x\<lparr>up_upstream := Some socket, up_address := Some address\<rparr>)))) (\<lambda>_.
        submit_proxy_connect sys i))) u"
      if "serving inflight R s0 i d u" "proxied (up_phase ?x) ?x d" for d r u
    proof -
      from that(2) have "proxied Connecting ?x d" using c by (simp add: proxied_def)
      then show ?thesis
        using Suc.IH[OF that(1)] connect_to_safe[OF sys that(1)] Suc.prems(3) Cons by (cases r) auto
    qed
    show ?thesis using x Cons idle off c
      by (auto simp: proxied_def idle_def intro!: safe_index[OF s] safe_update_up[OF s c, where q = Connecting]
          safe_create_socket[OF sys] next_address)
  qed
qed simp

lemma try_next_proxy_address_safe:
  assumes "uring_ok inflight sys" and "serving inflight R s0 i c s" and "proxied Connecting x c"
  shows "usafe inflight R s0 i (try_next_proxy_address sys i) s"
  unfolding try_next_proxy_address_def
  using assms(3) by (intro safe_index[OF assms(2)] address_loop_safe[OF assms]) (simp add: proxied_def)

lemma safe_resolver:
  assumes "serving inflight R s0 i c s" and "\<And>t. serving inflight R s0 i c t \<Longrightarrow> usafe inflight R s0 i (f ()) t"
  shows "usafe inflight R s0 i (bindq (modify (\<lambda>s. s\<lparr>uw_resolver := r\<rparr>)) f) s"
proof -
  have "serving inflight R s0 i c (s\<lparr>uw_resolver := r\<rparr>)" using assms(1) by (simp add: serving_def ureached_frame(2))
  then show ?thesis using assms(2) by (simp add: usafe_def)
qed

lemma uring_start_proxy_safe:
  assumes sys: "uring_ok inflight sys" and s: "serving inflight R s0 i c s" and c: "idle c" "uc_static_stream c = None"
  shows "usafe inflight R s0 i (uring_start_proxy sys i upstream_url request body) s"
proof (cases "parse upstream_url")
  case (Inl e)
  then show ?thesis using queue_proxy_error_safe[OF sys s c(1)] by (simp add: uring_start_proxy_def)
next
  case (Inr upstream)
  let ?buffer = "request_bytes upstream request body"
  have started: "usafe inflight R s0 i (bindq (update_uc i (\<lambda>c. c\<lparr>uc_proxy := Some (resolving now ?buffer)\<rparr>)) f) t"
    if t: "serving inflight R s0 i c t" and "length ?buffer \<le> unat (wl_max_read_buffer_size (uw_limits s0))"
      and "\<And>u d. serving inflight R s0 i d u \<Longrightarrow> idle d \<Longrightarrow> attended d \<Longrightarrow> usafe inflight R s0 i (f ()) u" for now f t
    using that c servingD(6)[OF t] by (intro safe_update[OF t]) (auto simp: uconn_defs resolving_def attended_def)
  have looked_up: "usafe inflight R s0 i (bindq (gets (\<lambda>s. resolve i (connect_address upstream) (uw_resolver s))) (\<lambda>(r, resolver).
      bindq (modify (\<lambda>s. s\<lparr>uw_resolver := resolver\<rparr>)) (\<lambda>_. case r of
        Inl _ \<Rightarrow> queue_proxy_error sys i 502 ''upstream DNS resolution failed'' | Inr _ \<Rightarrow> ok ()))) u"
    if u: "serving inflight R s0 i d u" and "idle d" and "attended d" for d u
    using queue_proxy_error_safe[OF sys _ that(2)] usafe_ok[OF _ that(3)]
    by (auto simp: case_prod_unfold split: sum.split intro!: safe_resolver[OF u])
  show ?thesis
    using Inr servingD[OF s] sys queue_proxy_error_safe[OF sys s c(1)] looked_up
    by (auto simp: uring_start_proxy_def Let_def not_less intro!: safe_call[OF _ s] started)
qed

section \<open>Static files\<close>

lemma safe_queue:
  assumes "uring_ok inflight sys" and s: "serving inflight R s0 i c s" and "idle c"
    and "g c = uring_queue_response bs (c\<lparr>uc_static_stream := st\<rparr>)"
    and "uc_proxy c = None \<or> st = uc_static_stream c \<and> sendable c" and "bs \<noteq> [] \<or> st \<noteq> None"
  shows "usafe inflight R s0 i (bindq (update_uc i g) (\<lambda>_. submit_send sys i)) s"
  using assms(3-) servingD(6)[OF s]
  by (intro safe_update[OF s] submit_send_safe[OF assms(1)])
     (auto simp: uconn_defs uring_queue_response_def sendable_def to_send_def attended_def)

lemma uring_queue_static_response_safe:
  assumes "uring_ok inflight sys" and "serving inflight R s0 i c s" and "idle c" and "uc_proxy c = None"
    and "ssr_head response \<noteq> []"
  shows "usafe inflight R s0 i (uring_queue_static_response sys i response) s"
  unfolding uring_queue_static_response_def using assms by (intro safe_queue) auto

lemma safe_finish:
  assumes "serving inflight R s0 i c s" and "idle c"
  shows "usafe inflight R s0 i (bindq (umetric g) (\<lambda>_. remove_uc i)) s"
  using assms by (auto intro: safe_umetric safe_remove)

lemma streaming_no_proxy: "uconn_ok limits c \<Longrightarrow> uc_static_stream c \<noteq> None \<Longrightarrow> uc_proxy c = None"
  by (cases "uc_proxy c") (auto simp: uconn_defs)

lemma uring_advance_static_stream_safe:
  assumes sys: "uring_ok inflight sys" and s: "serving inflight R s0 i c s" and c: "idle c" "uc_static_stream c = Some st" "uc_write_buffer c = []"
  shows "usafe inflight R s0 i (uring_advance_static_stream sys i) s"
proof -
  have p: "uc_proxy c = None" using streaming_no_proxy[OF servingD(6)[OF s]] c(2) by simp
  have "usafe inflight R s0 i (bindq (update_uc i (\<lambda>c. c\<lparr>uc_static_stream := Some st'\<rparr>)) (\<lambda>_.
             case chunk of
               Inr (Data bs) \<Rightarrow> bindq (update_uc i (uring_queue_response bs)) (\<lambda>_. submit_send sys i)
             | Inr Pending \<Rightarrow> ok ()
             | Inr Finished \<Rightarrow> bindq (umetric metric_response) (\<lambda>_. remove_uc i)
             | Inl _ \<Rightarrow> bindq (umetric metric_error) (\<lambda>_. remove_uc i))) t"
    if t: "serving inflight R s0 i c t" for t chunk st'
  proof (rule safe_update[OF t c(1)])
    let ?d = "c\<lparr>uc_static_stream := Some st'\<rparr>"
    have d: "idle ?d" "uc_proxy ?d = None" using c(1) p by (simp_all add: idle_def)
    fix u assume u: "serving inflight R s0 i ?d u"
    have "usafe inflight R s0 i (bindq (update_uc i (uring_queue_response bs)) (\<lambda>_. submit_send sys i)) u" for bs
      using d by (intro safe_queue[OF sys u, where st = "Some st'"]) auto
    then show "usafe inflight R s0 i (case chunk of
               Inr (Data bs) \<Rightarrow> bindq (update_uc i (uring_queue_response bs)) (\<lambda>_. submit_send sys i)
             | Inr Pending \<Rightarrow> ok ()
             | Inr Finished \<Rightarrow> bindq (umetric metric_response) (\<lambda>_. remove_uc i)
             | Inl _ \<Rightarrow> bindq (umetric metric_error) (\<lambda>_. remove_uc i)) u"
      using safe_finish[OF u d(1)] c(3) by (simp add: usafe_ok[OF u] attended_def split: sum.split static_chunk.split)
  qed (use c(1) p servingD(6)[OF t] in \<open>auto simp: uconn_defs\<close>)
  then show ?thesis unfolding uring_advance_static_stream_def
    using c(2) sys by (auto simp: case_prod_unfold Let_def intro!: safe_index[OF s] safe_call[OF _ s])
qed

section \<open>Operations over several connections\<close>

text \<open>Between operations every connection is attended; an error ends the run.\<close>

definition steady ::
  "('w \<Rightarrow> sqe multiset) \<Rightarrow> sqe multiset \<Rightarrow> ('w, 'sc, 't) uring_worker \<Rightarrow> ('w, 'sc, 't) uring_worker \<Rightarrow> bool" where
  "steady inflight R s0 t \<longleftrightarrow> urg.reached inflight R s0 t
     \<and> (\<forall>j c. slab_get (uw_connections t) j = Some c \<longrightarrow> attended c)"

definition settled ::
  "('w \<Rightarrow> sqe multiset) \<Rightarrow> sqe multiset \<Rightarrow> ('w, 'sc, 't) uring_worker \<Rightarrow> io_error + 'a \<Rightarrow> ('w, 'sc, 't) uring_worker \<Rightarrow> bool" where
  "settled inflight R s0 r t \<longleftrightarrow> (\<exists>R'. urg.reached inflight R' s0 t) \<and> (\<forall>x. r = Inr x \<longrightarrow> steady inflight R s0 t)"

lemma steady_reached: "steady inflight R s0 t \<Longrightarrow> urg.reached inflight R s0 t"
  by (simp add: steady_def)

lemma settledI: "steady inflight R s0 t \<Longrightarrow> settled inflight R s0 r t"
  by (auto simp: settled_def steady_def)

lemma settled_Inl: "urg.reached inflight R' s0 t \<Longrightarrow> settled inflight R s0 (Inl e) t"
  by (auto simp: settled_def)

lemma settled_error: "steady inflight R' s0 t \<Longrightarrow> settled inflight R s0 (Inl e) t"
  by (auto simp: settled_def steady_def)

lemma settled_bind:
  fixes m :: "('w, 'sc, 't, 'a) uop"
  assumes "wp m (settled inflight R s0) s" and "\<And>x t. steady inflight R s0 t \<Longrightarrow> wp (f x) (settled inflight R' s0) t"
  shows "wp (bindq m f) (settled inflight R' s0) s"
  unfolding wp_bindq
proof (rule wp_mono[OF assms(1)])
  fix r :: "io_error + 'a" and t assume "settled inflight R s0 r t"
  then show "on_ok (\<lambda>x. wp (f x) (settled inflight R' s0)) (\<lambda>e. settled inflight R' s0 (Inl e)) r t"
    using assms(2) by (cases r) (auto simp: settled_def)
qed

lemma settled_for_each:
  assumes "\<And>x s. x \<in> set xs \<Longrightarrow> steady inflight R s0 s \<Longrightarrow> wp (f x) (settled inflight R s0) s" and "steady inflight R s0 s"
  shows "wp (for_each f xs) (settled inflight R s0) s"
  using assms by (induction xs arbitrary: s) (auto simp: settledI simp del: wp_bindq intro!: settled_bind)

lemma wp_gets_bind: "wp (bindq (gets g) f) Q s = wp (f (g s)) Q s"
  by simp

lemma settled_slot:
  assumes "usafe inflight R s0 i m s" and "framed (same_slots {uslot i}) m"
    and "\<And>j c. j \<noteq> uslot i \<Longrightarrow> slab_get (uw_connections s) j = Some c \<Longrightarrow> attended c"
  shows "wp m (settled inflight R s0) s"
proof -
  obtain r t where t: "m s = (Return r, t)" "tended inflight R s0 i r t" using assms(1) wp_result by (fastforce simp: usafe_def)
  have "slab_get (uw_connections t) j = slab_get (uw_connections s) j" if "j \<noteq> uslot i" for j
    using framedD[OF assms(2) t(1)] that by (simp add: same_slots_def)
  then have "steady inflight R s0 t" if "r = Inr x" for x
    using t(2) assms(3) that unfolding steady_def tended_def uget_def by metis
  then show ?thesis using t by (auto simp: wp_def settled_def tended_def)
qed

lemma settled_kept:
  assumes "urg.safe inflight R s0 m s" and "framed (same_slots {}) m" and "steady inflight R s0 s"
  shows "wp m (settled inflight R s0) s"
proof -
  obtain r t where t: "m s = (Return r, t)" "urg.reached inflight R s0 t" using assms(1) wp_result by (fastforce simp: urg.safe_def)
  have "slab_get (uw_connections t) j = slab_get (uw_connections s) j" for j
    using framedD[OF assms(2) t(1)] by (simp add: same_slots_def)
  then have "steady inflight R s0 t" using t(2) assms(3) by (simp add: steady_def)
  then show ?thesis using t by (simp add: wp_def settledI)
qed

text \<open>One operation for each of several slots, under a condition on the slot.\<close>

lemma each_slot_settled:
  assumes step: "\<And>a s. a \<in> set xs \<Longrightarrow> steady inflight R s0 s \<Longrightarrow> P a (slab_get (uw_connections s) (key a)) \<Longrightarrow>
      wp (f a) (settled inflight R s0) s"
    and frame: "\<And>a. a \<in> set xs \<Longrightarrow> framed (same_slots {key a}) (f a)"
    and "distinct (map key xs)" and "steady inflight R s0 s"
    and "\<forall>a \<in> set xs. P a (slab_get (uw_connections s) (key a))"
  shows "wp (for_each f xs) (settled inflight R s0) s"
  using assms
proof (induction xs arbitrary: s)
  case (Cons a xs)
  obtain r t where t: "f a s = (Return r, t)" "settled inflight R s0 r t"
    using wp_result[OF Cons.prems(1)[of a s]] Cons.prems(4,5) by auto
  have kept: "slab_get (uw_connections t) j = slab_get (uw_connections s) j" if "j \<noteq> key a" for j
    using framedD[OF Cons.prems(2)[of a] t(1)] that by (simp add: same_slots_def)
  have rest: "wp (for_each f xs) (settled inflight R s0) t" if "steady inflight R s0 t"
  proof (rule Cons.IH)
    have "key b \<noteq> key a" if "b \<in> set xs" for b
      using Cons.prems(3) that by (metis distinct.simps(2) image_eqI list.map(2) set_map)
    then show "\<forall>b \<in> set xs. P b (slab_get (uw_connections t) (key b))" using kept Cons.prems(5) by simp
  qed (use Cons.prems that in auto)
  show ?case
  proof (cases r)
    case (Inl e)
    then obtain R' where "urg.reached inflight R' s0 t" using t(2) by (auto simp: settled_def)
    with Inl t(1) show ?thesis by (simp add: wp_def bindq_def settled_Inl)
  next
    case (Inr x)
    then have "steady inflight R s0 t" using t(2) by (simp add: settled_def)
    from rest[OF this] Inr t(1) show ?thesis by (simp add: wp_def bindq_def)
  qed
qed (simp add: settledI)

lemma distinct_slab_iter: "distinct (map fst (slab_iter xs))"
proof -
  have "distinct (map fst (slab_iter_from n xs)) \<and> (\<forall>i \<in> fst ` set (slab_iter_from n xs). n \<le> i)" for n
    by (induction n xs rule: slab_iter_from.induct) fastforce+
  then show ?thesis by (simp add: slab_iter_def)
qed

lemma reached_slot:
  assumes "urg.reached inflight R s0 s" and "slab_get (uw_connections s) j = Some c"
  shows "serving inflight R s0 \<lparr>ui_slot = of_nat j, ui_generation = uc_generation c\<rparr> c s" "unat (of_nat j :: u32) = j"
proof -
  have "j < 2 ^ 32" using assms urg.reached_inv[OF assms(1)] by (auto simp: uinv_defs uslot_ok_def)
  then show j: "unat (of_nat j :: u32) = j" by (simp add: unat_of_nat_small)
  then show "serving inflight R s0 \<lparr>ui_slot = of_nat j, ui_generation = uc_generation c\<rparr> c s"
    using assms by (auto simp: serving_def uslot_def intro!: ucurrentI)
qed

text \<open>The slots an iteration over the connections selects.\<close>

lemma uring_ids_slots:
  assumes "urg.reached inflight R s0 s"
  shows "distinct (map uslot (uring_ids p s))"
    "\<forall>i \<in> set (uring_ids p s). \<exists>c. slab_get (uw_connections s) (uslot i) = Some c \<and> p (uslot i) c \<and> uc_generation c = ui_generation i"
proof -
  let ?xs = "filter (\<lambda>(slot, c). p slot c) (slab_iter (uw_connections s))"
  have u: "unat (of_nat j :: u32) = j" if "(j, c) \<in> set ?xs" for j c
    using that reached_slot(2)[OF assms] by auto
  then have m: "map uslot (uring_ids p s) = map fst ?xs"
    by (auto simp: uring_ids_def uslot_def)
  show "distinct (map uslot (uring_ids p s))"
    unfolding m using distinct_slab_iter by (rule distinct_map_filter)
  show "\<forall>i \<in> set (uring_ids p s). \<exists>c. slab_get (uw_connections s) (uslot i) = Some c \<and> p (uslot i) c \<and> uc_generation c = ui_generation i"
    using u by (fastforce simp: uring_ids_def uslot_def)
qed

lemma uring_pump_static_streams_safe:
  assumes sys: "uring_ok inflight sys" and s: "steady inflight R s0 s"
  shows "wp (uring_pump_static_streams sys) (settled inflight R s0) s"
proof -
  let ?p = "\<lambda>slot c. uc_static_stream c \<noteq> None \<and> \<not> uc_write_pending c \<and> uc_write_buffer c = []"
  have step: "wp (uring_advance_static_stream sys i) (settled inflight R s0) t"
    if t: "steady inflight R s0 t" "\<exists>c. slab_get (uw_connections t) (uslot i) = Some c \<and> ?p (uslot i) c \<and> uc_generation c = ui_generation i" for i t
  proof (rule settled_slot)
    from t(2) obtain c st where c: "slab_get (uw_connections t) (uslot i) = Some c" "uc_static_stream c = Some st"
      "\<not> uc_write_pending c" "uc_write_buffer c = []" "uc_generation c = ui_generation i" by auto
    have v: "serving inflight R s0 i c t" using steady_reached[OF t(1)] c by (auto simp: serving_def intro!: ucurrentI)
    have "idle c" using c(2,3) servingD(6)[OF v] streaming_no_proxy[OF servingD(6)[OF v]] by (auto simp: uconn_defs)
    then show "usafe inflight R s0 i (uring_advance_static_stream sys i) t"
      using uring_advance_static_stream_safe[OF sys v] c(2,4) by simp
  qed (use t(1) in \<open>auto simp: steady_def\<close>)
  show ?thesis unfolding uring_pump_static_streams_def wp_gets_bind
    using uring_ids_slots(1)[OF steady_reached[OF s], of ?p] uring_ids_slots(2)[OF steady_reached[OF s], of ?p] s step
    by (intro each_slot_settled[where key = uslot and P = "\<lambda>i x. \<exists>c. x = Some c \<and> ?p (uslot i) c \<and> uc_generation c = ui_generation i"]) auto
qed

section \<open>Answers of the resolver\<close>

lemma resolving_idle: "uconn_ok limits c \<Longrightarrow> uc_proxy c = Some x \<Longrightarrow> up_phase x = Resolving \<Longrightarrow> idle c"
  by (auto simp: uconn_defs)

lemma uring_finish_resolution_safe:
  assumes sys: "uring_ok inflight sys" and s: "steady inflight R s0 s"
  shows "wp (uring_finish_resolution sys result) (settled inflight R s0) s"
proof (cases "\<exists>c x. ucurrent s (rr_connection_id result) = Some c \<and> uc_proxy c = Some x \<and> up_phase x = Resolving")
  case True
  let ?i = "rr_connection_id result"
  obtain c x where c: "serving inflight R s0 ?i c s" and "uc_proxy c = Some x" "up_phase x = Resolving"
    using True steady_reached[OF s] by (auto simp: serving_def)
  then have x: "proxied Resolving x c" using resolving_idle[OF servingD(6)[OF c]] by (simp add: proxied_def)
  have "up_request_offset x \<le> length (up_request_buffer x)" using servingD(6)[OF c] x by (auto simp: proxied_def uconn_defs)
  then have connect: "usafe inflight R s0 ?i (bindq (usyscall (q_now sys)) (\<lambda>now.
        bindq (update_uc ?i (update_up (\<lambda>x. uring_transition now Connecting (x\<lparr>up_addresses := addresses\<rparr>)))) (\<lambda>_.
        try_next_proxy_address sys ?i))) s" for addresses
    using x sys
    by (intro safe_call[OF _ c] safe_update_up[OF _ x, where q = Connecting] try_next_proxy_address_safe[OF sys])
       (auto simp: proxied_def idle_def uring_transition_def)
  have "usafe inflight R s0 ?i (uring_finish_resolution sys result) s"
    unfolding uring_finish_resolution_def Let_def
    using x connect queue_proxy_error_safe[OF sys c]
    by (intro safe_when[OF c]) (simp add: proxied_def split: sum.split list.split)
  moreover have "framed (same_slots {uslot ?i}) (uring_finish_resolution sys result)"
    unfolding uring_finish_resolution_def Let_def by (auto split: option.split sum.split list.split)
  ultimately show ?thesis using s by (intro settled_slot) (auto simp: steady_def)
next
  case False
  then show ?thesis unfolding uring_finish_resolution_def Let_def
    using s by (auto simp: wp_when_current settledI split: option.split)
qed

lemma reserved_not_connection [simp]:
  "connection_op DNS_USER_DATA = None" "connection_op TIMER_USER_DATA = None" "connection_op CONTROL_USER_DATA = None"
  "connection_op CANCEL_USER_DATA = None" "connection_op PROXY_CANCEL_USER_DATA = None"
  by (simp_all add: connection_op_def decode_reserved reserved_user_data_def)

lemma submit_dns_read_safe:
  assumes "uring_ok inflight sys" and "urg.reached inflight R s0 s"
  shows "urg.safe inflight R s0 (submit_dns_read sys) s"
  unfolding submit_dns_read_def using assms by (simp add: safe_push_other value_read_def)

lemma submit_timer_read_safe:
  assumes "uring_ok inflight sys" and "urg.reached inflight R s0 s"
  shows "urg.safe inflight R s0 (submit_timer_read sys) s"
  unfolding submit_timer_read_def using assms by (simp add: safe_push_other value_read_def)

lemma submit_shutdown_read_safe:
  assumes "uring_ok inflight sys" and "urg.reached inflight R s0 s"
  shows "urg.safe inflight R s0 (submit_shutdown_read sys) s"
  unfolding submit_shutdown_read_def using assms by (simp add: safe_push_other value_read_def)

lemma ring_submit_safe:
  assumes "uring_ok inflight sys" and "urg.reached inflight R s0 s"
  shows "urg.safe inflight R s0 (ring_submit sys) s"
  unfolding ring_submit_def using assms by (intro safe_call_bind) simp_all

lemma settled_world:
  assumes "keeps_inflight inflight h" and "steady inflight R s0 s"
  shows "wp (usyscall h) (settled inflight R s0) s"
  using assms ureached_frame(4)[OF steady_reached[OF assms(2)]]
  by (simp add: wp_usyscall settled_def steady_def keeps_inflight_def) blast

lemma settled_gets: "steady inflight R s0 s \<Longrightarrow> wp (gets g) (settled inflight R s0) s"
  by (simp add: settledI)

lemma uring_process_dns_results_safe:
  assumes sys: "uring_ok inflight sys" and s: "steady inflight R s0 s"
  shows "wp (uring_process_dns_results sys) (settled inflight R s0) s"
proof -
  have resolver: "wp (modify (\<lambda>s. s\<lparr>uw_resolver := r\<rparr>)) (settled inflight R s0) t" if "steady inflight R s0 t" for t r
    using that ureached_frame(2)[OF steady_reached[OF that]] by (simp add: settledI steady_def)
  have answers: "wp (for_each (uring_finish_resolution sys) results) (settled inflight R s0) t" if "steady inflight R s0 t" for results t
    using that by (intro settled_for_each uring_finish_resolution_safe[OF sys])
  have rearm: "wp (bindq (gets uw_shutting_down) (\<lambda>shutting_down. if shutting_down then ok () else submit_dns_read sys)) (settled inflight R s0) t"
    if "steady inflight R s0 t" for t
    using settled_kept[OF submit_dns_read_safe[OF sys steady_reached[OF that]] _ that] that
    by (simp add: wp_gets_bind settledI del: wp_bindq)
  show ?thesis unfolding uring_process_dns_results_def
  proof (rule settled_bind[OF settled_world[OF keeps_calls(7)[OF sys] s]], unfold wp_gets_bind)
    fix actions t assume t: "steady inflight R s0 t"
    show "wp (case drain (run_threads actions (uw_resolver t)) of (results, resolver) \<Rightarrow>
       bindq (modify (\<lambda>s. s\<lparr>uw_resolver := resolver\<rparr>)) (\<lambda>_.
       bindq (for_each (uring_finish_resolution sys) results) (\<lambda>_.
       bindq (gets uw_shutting_down) (\<lambda>shutting_down.
         if shutting_down then ok () else submit_dns_read sys)))) (settled inflight R s0) t"
      unfolding case_prod_unfold
      by (rule settled_bind[OF resolver[OF t]], rule settled_bind[OF answers], assumption, rule rearm)
  qed
qed

section \<open>Listeners\<close>

lemma encode_kind: "encode i = encode j \<Longrightarrow> op_kind i = op_kind j"
  unfolding encode_pack by (metis decode_kind_iff op_pack_fields(1) option.inject)

lemma accept_entry_not_connection:
  assumes "accept_entry l n = Inr e" shows "connection_op (sq_user_data e) = None"
proof (rule ccontr)
  assume "connection_op (sq_user_data e) \<noteq> None"
  then obtain oper where "encode oper = sq_user_data e" "op_kind oper \<noteq> Accept" by (auto simp: connection_op_Some_iff)
  moreover obtain slot where "sq_user_data e = encode (op_accept slot (ul_generation l))"
    using assms by (auto simp: accept_entry_def Let_def split: sum.splits)
  ultimately show False using encode_kind[of oper] by (simp add: operation_def)
qed

lemma reached_listener:
  assumes "urg.reached inflight R s0 s" and "get (uw_listeners s) k = Some l" and "listener_config l' = listener_config l"
    and "ul_ssl l' = ul_ssl l"
  shows "urg.reached inflight R s0 (s\<lparr>uw_listeners := (uw_listeners s)[k := l']\<rparr>)"
proof (rule urg.reached_step[OF assms(1)])
  have k: "k < length (uw_listeners s)" "uw_listeners s ! k = l" using assms(2) by auto
  then have "l \<in> set (uw_listeners s)" by auto
  then have "ul_ssl l' = None" using assms(4) urg.reached_inv[OF assms(1)] by (auto simp: uinv_defs)
  then show "uinv inflight R (s\<lparr>uw_listeners := (uw_listeners s)[k := l']\<rparr>)"
    using urg.reached_inv[OF assms(1)] set_update_subset_insert[of "uw_listeners s" k l'] by (auto simp: uinv_defs)
  show "uevolves s (s\<lparr>uw_listeners := (uw_listeners s)[k := l']\<rparr>)"
    using k assms(3) by (simp add: uevolves_def map_update list_update_same_conv)
qed

lemma submit_accept_safe:
  assumes "uring_ok inflight sys" and s: "urg.reached inflight R s0 s"
  shows "urg.safe inflight R s0 (submit_accept sys k) s"
proof (cases "get (uw_listeners s) k")
  case (Some l)
  have "urg.safe inflight R s0 (bindq (push_entry sys e) (\<lambda>_.
      modify (\<lambda>s. s\<lparr>uw_listeners := (uw_listeners s)[k := mark_accept_submitted l]\<rparr>))) s"
    if "accept_entry l k = Inr e" for e
    unfolding urg.safe_def wp_bindq
  proof (rule wp_push_entry[OF assms(1)])
    fix w assume w: "inflight w = add_mset e (inflight (uw_world s))"
    have "urg.reached inflight R s0 (s\<lparr>uw_world := w\<rparr>)"
      using uinv_push_other[OF urg.reached_inv[OF s] w accept_entry_not_connection[OF that]]
      by (intro urg.reached_step[OF s]) (simp_all add: uevolves_def)
    from reached_listener[OF this, of k l "mark_accept_submitted l"] Some
    show "on_ok (\<lambda>x. wp (modify (\<lambda>s. s\<lparr>uw_listeners := (uw_listeners s)[k := mark_accept_submitted l]\<rparr>))
        (\<lambda>_. urg.reached inflight R s0)) (\<lambda>x. urg.reached inflight R s0) (Inr ()) (s\<lparr>uw_world := w\<rparr>)"
      by (simp add: mark_accept_submitted_def listener_config_def)
  qed (simp add: ureached_frame(4)[OF s])
  with Some s show ?thesis unfolding submit_accept_def
    by (cases "accept_entry l k") (auto simp: urg.safe_def simp del: get_Some_iff)
qed (simp add: submit_accept_def s del: get_None_iff)

lemma submit_initial_accepts_safe:
  assumes sys: "uring_ok inflight sys" and s: "steady inflight R s0 s"
  shows "wp (submit_initial_accepts sys) (settled inflight R s0) s"
proof -
  have accepts: "wp (for_each (submit_accept sys) xs) (settled inflight R s0) s" for xs
    using s settled_kept[OF submit_accept_safe[OF sys steady_reached]] by (intro settled_for_each) auto
  show ?thesis unfolding submit_initial_accepts_def wp_gets_bind
    by (rule settled_bind[OF accepts], rule settled_kept[OF ring_submit_safe[OF sys]]) (auto dest: steady_reached)
qed

section \<open>New connections\<close>

lemma uinv_insert:
  assumes s: "uinv inflight R s" and "slab_len (uw_connections s) < unat (wl_max_connections (uw_limits s))"
    and k: "k \<le> length (uw_connections s)" "slab_get (uw_connections s) k = None" "k < 2 ^ 32"
    and c: "uconn_ok (uw_limits s) c" "uc_generation c \<noteq> 0" "idle c"
    and g: "gens = (resized (uw_generations s) k)[k := uc_generation c]"
  shows "uinv inflight R (s\<lparr>uw_generations := gens, uw_connections := slab_insert k c (uw_connections s)\<rparr>)"
proof -
  have get: "slab_get (slab_insert k c (uw_connections s)) j = (if j = k then Some c else slab_get (uw_connections s) j)" for j
    using k(1) by (rule slab_get_insert)
  have "uslot_ok gens j d" if "slab_get (slab_insert k c (uw_connections s)) j = Some d" for j d
  proof (cases "j = k")
    case True
    then show ?thesis using that get c(2) k(3) resized_facts(1)[where gs = "uw_generations s" and slot = k] g
      by (auto simp: uslot_ok_def)
  next
    case False
    then have "uslot_ok (uw_generations s) j d" using that get s by (auto simp: uinv_defs)
    with False show ?thesis
      using g resized_facts(2)[where gs = "uw_generations s" and slot = k and i = j]
        resized_facts(4)[where gs = "uw_generations s" and slot = k]
      by (auto simp: uslot_ok_def)
  qed
  moreover have "owned (slab_insert k c (uw_connections s)) e" if "owned (uw_connections s) e" for e
    using that k(2) by (fastforce simp: owned_def get)
  moreover have "uconn_ok (uw_limits s) d" if "slab_get (slab_insert k c (uw_connections s)) j = Some d" for j d
    using that s c(1) by (auto simp: get uinv_defs split: if_splits)
  moreover have "all_backed (inflight (uw_world s) + R) (slab_insert k c (uw_connections s))"
    using s idle_backed[OF c(3)] by (auto simp: all_backed_def get uinv_def)
  ultimately show ?thesis using s assms(2) slab_len_insert[OF k(1,2), of c] by (auto simp: uinv_defs)
qed

definition fresh_connection :: "'t uring_connection \<Rightarrow> bool" where
  "fresh_connection c \<longleftrightarrow> idle c \<and> uc_proxy c = None \<and> uc_static_stream c = None"

lemma extend_generations:
  "(if length (uw_generations s) \<le> k then s\<lparr>uw_generations := uw_generations s @ replicate (k + 1 - length (uw_generations s)) 0\<rparr> else s)
   = s\<lparr>uw_generations := resized (uw_generations s) k\<rparr>"
  by (simp add: resized_def)

lemma next_op_generation_nonzero: "next_op_generation g \<noteq> 0"
  by (simp add: next_op_generation_def Let_def)

lemma vacant_slot:
  assumes "uring_ok inflight sys" and "q_vacant_key sys (map (\<lambda>entry. entry \<noteq> None) conns) w = (k, w')"
  shows "k \<le> length conns" "slab_get conns k = None"
proof -
  let ?occ = "map (\<lambda>entry. entry \<noteq> None) conns"
  have "k \<le> length ?occ \<and> (k < length ?occ \<longrightarrow> \<not> ?occ ! k)" using assms unfolding uring_ok_def by blast
  then show "k \<le> length conns" "slab_get conns k = None" by (auto simp: slab_get_def get_def)
qed

lemma wp_uring_insert_connection:
  assumes sys: "uring_ok inflight sys" and s: "urg.reached inflight R s0 s" and l: "n < length (uw_listeners s)"
  shows "wp (uring_insert_connection sys socket n) (\<lambda>r t. urg.reached inflight R s0 t
     \<and> (\<forall>i. r = Inr i \<longrightarrow> (\<exists>c. serving inflight R s0 i c t \<and> fresh_connection c))
     \<and> (\<forall>j. (\<forall>i. r = Inr i \<longrightarrow> j \<noteq> uslot i) \<longrightarrow> slab_get (uw_connections t) j = slab_get (uw_connections s) j)) s"
proof (cases "slab_len (uw_connections s) \<ge> unat (wl_max_connections (uw_limits s))")
  case True
  then show ?thesis using s by (simp add: uring_insert_connection_def)
next
  case room: False
  let ?occ = "map (\<lambda>entry. entry \<noteq> None) (uw_connections s)"
  obtain k w where kw: "q_vacant_key sys ?occ (uw_world s) = (k, w)" by fastforce
  note k = vacant_slot[OF sys kw]
  have ssl: "ul_ssl (uw_listeners s ! n) = None" using l urg.reached_inv[OF s] by (auto simp: uinv_defs)
  have lg: "get (uw_listeners s) n = Some (uw_listeners s ! n)" using l by (simp add: get_def)
  have w: "inflight w = inflight (uw_world s)" using inflight_calls(8)[OF sys, of ?occ "uw_world s"] kw by simp
  note s' = ureached_frame(4)[OF s w]
  show ?thesis
  proof (cases "k < 2 ^ 32")
    case False
    with room kw s' show ?thesis
      by (simp add: uring_insert_connection_def wp_usyscall operation_slot_def)
  next
    case True
    let ?g = "next_op_generation (resized (uw_generations s) k ! k)"
    let ?c = "\<lparr>uc_socket = socket, uc_generation = ?g,
          uc_listener_index = n, uc_read_pending = False, uc_request_buffer = [],
          uc_pending_request = None, uc_request = None, uc_write_buffer = [], uc_write_offset = 0,
          uc_write_pending = False, uc_ssl_write_buffer = [], uc_ssl_write_offset = 0,
          uc_proxy = None, uc_static_stream = None, uc_ssl = None\<rparr> :: 't uring_connection"
    let ?t = "s\<lparr>uw_world := w, uw_generations := (resized (uw_generations s) k)[k := ?g],
       uw_connections := slab_insert k ?c (uw_connections s)\<rparr>"
    have "uinv inflight R ?t"
      using uinv_insert[OF urg.reached_inv[OF s'], of k ?c] room k True
      by (simp add: uconn_defs next_op_generation_nonzero)
    moreover have "uevolves (s\<lparr>uw_world := w\<rparr>) ?t" by (simp add: uevolves_def)
    ultimately have t: "urg.reached inflight R s0 ?t" using urg.reached_step[OF s'] by blast
    have "serving inflight R s0 \<lparr>ui_slot = of_nat k, ui_generation = ?g\<rparr> ?c ?t"
      using reached_slot(1)[OF t, of k ?c] k(1) by (simp add: slab_get_insert)
    moreover have "fresh_connection ?c" by (simp add: fresh_connection_def idle_def)
    moreover have "slab_get (slab_insert k ?c (uw_connections s)) j = slab_get (uw_connections s) j" if "j \<noteq> k" for j
      using that k(1) by (simp add: slab_get_insert)
    moreover have "uslot \<lparr>ui_slot = of_nat k, ui_generation = ?g\<rparr> = k" using True by (simp add: uslot_def unat_of_nat_small)
    ultimately show ?thesis using room kw t lg ssl True
      by (auto simp del: get_Some_iff simp: uring_insert_connection_def wp_usyscall operation_slot_def extend_generations uring_connection_new_def)
  qed
qed

lemma retain_connection_safe:
  assumes sys: "uring_ok inflight sys" and s: "steady inflight R s0 s" and l: "n < length (uw_listeners s)"
  shows "wp (retain_connection sys accepted n) (settled inflight R s0) s"
proof -
  let ?s = "s\<lparr>uw_metrics := metric_accepted (uw_metrics s)\<rparr>"
  have att: "attended c" if "slab_get (uw_connections s) j = Some c" for j c using that s by (simp add: steady_def)
  have "wp (uring_insert_connection sys accepted n) (\<lambda>r. wp (case r of Inr i \<Rightarrow> submit_recv sys i | Inl _ \<Rightarrow> ok ())
      (settled inflight R s0)) ?s"
  proof (rule wp_mono[OF wp_uring_insert_connection[OF sys ureached_frame(1)[OF steady_reached[OF s]]]])
    fix r t assume t: "urg.reached inflight R s0 t
      \<and> (\<forall>i. r = Inr i \<longrightarrow> (\<exists>c. serving inflight R s0 i c t \<and> fresh_connection c))
      \<and> (\<forall>j. (\<forall>i. r = Inr i \<longrightarrow> j \<noteq> uslot i) \<longrightarrow> slab_get (uw_connections t) j = slab_get (uw_connections ?s) j)"
    show "wp (case r of Inr i \<Rightarrow> submit_recv sys i | Inl _ \<Rightarrow> ok ()) (settled inflight R s0) t"
    proof (cases r)
      case (Inl e)
      with t att have "steady inflight R s0 t" by (simp add: steady_def)
      with Inl show ?thesis by (simp add: settledI)
    next
      case (Inr i)
      with t obtain c where "serving inflight R s0 i c t" "fresh_connection c" by blast
      then have "usafe inflight R s0 i (submit_recv sys i) t"
        by (intro submit_recv_safe[OF sys]) (auto simp: fresh_connection_def)
      then have "wp (submit_recv sys i) (settled inflight R s0) t" using t Inr att by (intro settled_slot) auto
      with Inr show ?thesis by simp
    qed
  qed (use l in simp)
  then show ?thesis by (simp add: retain_connection_def)
qed

lemma steady_listeners: "steady inflight R s0 s \<Longrightarrow> length (uw_listeners s) = length (uw_listeners s0)"
  by (auto simp: steady_def urg.reached_def uevolves_def dest: map_eq_imp_length_eq)

lemma completion_config:
  "listener_config (fall_back_to_single_shot l) = listener_config l" "ul_ssl (fall_back_to_single_shot l) = ul_ssl l"
  "listener_config (record_completion b l) = listener_config l" "ul_ssl (record_completion b l) = ul_ssl l"
  by (simp_all add: fall_back_to_single_shot_def record_completion_def listener_config_def)

text \<open>What follows a recorded accept completion: the connection, and the next accept.\<close>

lemma accepted_safe:
  assumes sys: "uring_ok inflight sys" and s: "steady inflight R s0 s" and "n < length (uw_listeners s)"
  shows "wp (if result \<ge> 0
      then (if shutting_down then ok () else retain_connection sys (nat result) n)
      else if \<not> (shutting_down \<and> - result = ECANCELED) \<and> \<not> multishot_is_unsupported result
      then umetric metric_error else ok ()) (settled inflight R s0) s"
proof -
  have "wp (umetric metric_error) (settled inflight R s0) s"
    using s ureached_frame(1)[OF steady_reached[OF s]] by (intro settled_kept) (auto simp: urg.safe_def)
  then show ?thesis using retain_connection_safe[OF assms] by (simp add: settledI[OF s])
qed

lemma rearm_accept_safe:
  assumes sys: "uring_ok inflight sys" and s: "steady inflight R s0 s" and n: "n < length (uw_listeners s)"
  shows "wp (bindq (usyscall (q_is_requested sys)) (\<lambda>requested.
        bindq (gets (\<lambda>s. get (uw_listeners s) n)) (\<lambda>l. case l of None \<Rightarrow> panic | Some l \<Rightarrow>
          if \<not> requested \<and> \<not> ul_accept_pending l then submit_accept sys n else ok ()))) (settled inflight R s0) s"
proof (rule settled_bind[OF settled_world[OF keeps_calls(5)[OF sys] s]], unfold wp_gets_bind)
  fix requested t assume t: "steady inflight R s0 t"
  have "get (uw_listeners t) n = Some (uw_listeners t ! n)" using n steady_listeners[OF t] steady_listeners[OF s] by (simp add: get_def)
  then show "wp (case get (uw_listeners t) n of None \<Rightarrow> panic | Some l \<Rightarrow>
      if \<not> requested \<and> \<not> ul_accept_pending l then submit_accept sys n else ok ()) (settled inflight R s0) t"
    using settled_kept[OF submit_accept_safe[OF sys steady_reached[OF t]] _ t] t by (simp add: settledI del: get_Some_iff)
qed

lemma handle_accept_completion_safe:
  assumes sys: "uring_ok inflight sys" and s: "steady inflight R s0 s"
  shows "wp (handle_accept_completion sys oper result has_more) (settled inflight R s0) s"
proof (cases "get (uw_listeners s) (unat (op_slot oper))")
  case None
  then show ?thesis using s by (simp add: handle_accept_completion_def Let_def settledI del: get_None_iff)
next
  case (Some l)
  let ?n = "unat (op_slot oper)"
  let ?l1 = "record_completion has_more l"
  let ?l2 = "if ul_accept_mode l = Multishot \<and> multishot_is_unsupported result then fall_back_to_single_shot ?l1 else ?l1"
  let ?t = "s\<lparr>uw_listeners := (uw_listeners s)[?n := ?l2]\<rparr>"
  have t: "steady inflight R s0 ?t"
    using reached_listener[OF steady_reached[OF s] Some, of ?l2] s by (simp add: completion_config steady_def)
  have n: "?n < length (uw_listeners u)" if "steady inflight R s0 u" for u
    using Some steady_listeners[OF that] steady_listeners[OF s] by simp
  note both = settled_bind[OF accepted_safe[OF sys t n[OF t]] rearm_accept_safe[OF sys _ n]]
  show ?thesis using both Some unfolding handle_accept_completion_def Let_def
    by (simp add: settledI[OF s] del: get_Some_iff)
qed

end
