(* ===== verification/Uring_Completions.thy ===== *)
theory Uring_Completions
  imports Uring_Safety
begin

text \<open>
  The completions of the io_uring worker without TLS and its event loop: each completion finds the
  connection that waits for it, no handler panics, and every connection that remains is attended.
\<close>

section \<open>Completions of sends\<close>

text \<open>
  A completion of a connection at hand finds its connection, and clearing the flag of the operation
  settles it.
\<close>

lemma at_hand:
  assumes "urg.reached inflight (add_mset e R) s0 s" and "connection_op (sq_user_data e) = Some oper"
  obtains c where "serving inflight (add_mset e R) s0 (id_of oper) c s" "justified c (op_kind oper) (sq_submission e)"
proof -
  have "owned (uw_connections s) e" using urg.reached_inv[OF assms(1)] by (simp add: uinv_defs)
  then obtain c where "slab_get (uw_connections s) (unat (op_slot oper)) = Some c" "uc_generation c = op_generation oper"
    "justified c (op_kind oper) (sq_submission e)" using assms(2) by (auto simp: owned_def)
  moreover from this have "ucurrent s (id_of oper) = Some c" by (intro ucurrentI) (simp_all add: uslot_def id_of_def)
  ultimately show ?thesis using that[of c] assms(1) by (simp add: serving_def)
qed

lemma safe_settle:
  assumes s: "serving inflight (add_mset e R) s0 (id_of oper) c s" and "connection_op (sq_user_data e) = Some oper"
    and "uconn_ok (uw_limits s0) (g c)" and "uc_generation (g c) = uc_generation c" and "idle (g c)"
    and "\<And>t. serving inflight R s0 (id_of oper) (g c) t \<Longrightarrow> usafe inflight R s0 (id_of oper) (f ()) t"
  shows "usafe inflight R s0 (id_of oper) (bindq (update_uc (id_of oper) g) f) s"
proof -
  note facts = servingD[OF s]
  let ?t = "put_uc s (id_of oper) (g c)"
  have "uinv inflight R ?t"
    using uinv_settle[OF urg.reached_inv[OF facts(1)] assms(2) facts(2)] assms(3-5) facts(4) by simp
  moreover have "uevolves s0 ?t"
    using facts(1) uevolves_put urg.evolves_trans unfolding urg.reached_def by blast
  ultimately have "serving inflight R s0 (id_of oper) (g c) ?t"
    using facts(2,5) assms(4) by (simp add: serving_def urg.reached_def)
  then show ?thesis using assms(6) by (simp add: usafe_def wp_update_uc[OF facts(2)])
qed

lemma after_output_safe:
  assumes sys: "uring_ok inflight sys" and s: "serving inflight R s0 i c s" and c: "sendable c"
  shows "usafe inflight R s0 i (after_output sys i) s"
proof -
  let ?g = "\<lambda>c :: 't uring_connection. c\<lparr>uc_write_buffer := [], uc_write_offset := 0\<rparr>"
  note ok = servingD(6)[OF s]
  have idle: "idle c" "idle (?g c)" using c by (auto simp: sendable_def idle_def)
  have cleared: "usafe inflight R s0 i (bindq (update_uc i ?g) f) s"
    if "\<And>t. serving inflight R s0 i (?g c) t \<Longrightarrow> usafe inflight R s0 i (f ()) t" for f
    using that ok idle(1) by (intro safe_update[OF s]) (auto simp: uconn_defs)
  have upstream: "usafe inflight R s0 i (bindq (usyscall (q_now sys)) (\<lambda>now.
        bindq (update_uc i (update_up (uring_record_progress now))) (\<lambda>_. submit_proxy_read sys i))) t"
    if t: "serving inflight R s0 i (?g c) t" and x: "uc_proxy c = Some x" for t x
  proof -
    have p: "proxied ReadingResponse x (?g c)" using x c idle(2) by (simp add: proxied_def sendable_def)
    show ?thesis using p ok x sys
      by (intro safe_call[OF _ t] safe_update_up[OF _ p, where q = ReadingResponse] submit_proxy_read_safe[OF sys])
         (auto simp: uconn_defs uring_record_progress_def proxied_def)
  qed
  have stream: "usafe inflight R s0 i (uring_advance_static_stream sys i) t"
    if "serving inflight R s0 i (?g c) t" "uc_static_stream c = Some st" for t st
    using uring_advance_static_stream_safe[OF sys that(1) idle(2)] that(2) by simp
  show ?thesis unfolding after_output_def
    using safe_finish[OF s idle(1)] serving_plain[OF s]
    by (intro safe_index[OF s]) (auto split: option.split intro!: cleared intro: upstream stream)
qed

text \<open>A send of \<open>n\<close> bytes is recorded.\<close>

lemma uconn_ok_offset:
  assumes "uconn_ok limits c" and "idle c" and "n \<le> length (uc_write_buffer c)"
  shows "uconn_ok limits (c\<lparr>uc_write_offset := n\<rparr>)"
proof -
  have "uproxy_ok limits (c\<lparr>uc_write_offset := n\<rparr>) x = uproxy_ok limits c x" for x by (simp add: uproxy_ok_def)
  with assms show ?thesis by (simp add: uconn_ok_def idle_def)
qed

lemma sent_safe:
  assumes sys: "uring_ok inflight sys" and s: "serving inflight R s0 i c s" and c: "sendable c"
    and n: "n \<le> length (uc_write_buffer c) - uc_write_offset c"
  shows "usafe inflight R s0 i (bindq (update_uc i (record_sent n)) (\<lambda>_. bindq (index_uc i) (\<lambda>c.
     if output_drained sys c then after_output sys i else submit_send sys i))) s"
proof (rule safe_update[OF s])
  let ?d = "record_sent n c"
  note ok = servingD(6)[OF s]
  show "idle c" using c by (simp add: sendable_def)
  show "uc_generation ?d = uc_generation c" by (simp add: record_sent_def)
  have r: "?d = c\<lparr>uc_write_offset := uc_write_offset c + n\<rparr>" using uconn_plain[OF ok] by (simp add: record_sent_def)
  have "uc_write_offset c \<le> length (uc_write_buffer c)" using ok by (simp add: uconn_ok_def)
  with n have "uc_write_offset c + n \<le> length (uc_write_buffer c)" by linarith
  with ok \<open>idle c\<close> show "uconn_ok (uw_limits s0) ?d" unfolding r by (intro uconn_ok_offset)
  have d: "sendable ?d" using c by (auto simp: record_sent_def sendable_def idle_def)
  then show "idle ?d" by (simp add: sendable_def)
  have left: "to_send ?d" if "\<not> output_drained sys ?d"
    using that uconn_plain[OF ok] \<open>uc_write_offset c + n \<le> _\<close> unfolding r by (auto simp: output_drained_def to_send_def)
  fix t assume t: "serving inflight R s0 i ?d t"
  show "usafe inflight R s0 i (bindq (index_uc i) (\<lambda>c. if output_drained sys c then after_output sys i else submit_send sys i)) t"
    using after_output_safe[OF sys t d] submit_send_safe[OF sys t d left] by (intro safe_index[OF t]) simp
qed

lemma write_settled_safe:
  assumes sys: "uring_ok inflight sys" and s: "serving inflight R s0 i c s" and c: "sendable c"
  shows "usafe inflight R s0 i (bindq (index_uc i) (\<lambda>c.
      if send_offset c > length (send_buffer c) then panic
      else if n > length (send_buffer c) - send_offset c then remove_uc i
      else bindq (update_uc i (record_sent n)) (\<lambda>_. bindq (index_uc i) (\<lambda>c.
             if output_drained sys c then after_output sys i else submit_send sys i)))) s"
proof (rule safe_index[OF s])
  have "send_offset c = uc_write_offset c" "send_buffer c = uc_write_buffer c" "uc_write_offset c \<le> length (uc_write_buffer c)"
    using servingD(6)[OF s] by (auto simp: send_offset_def send_buffer_def uconn_ok_def)
  moreover have "idle c" using c by (simp add: sendable_def)
  ultimately show "usafe inflight R s0 i (if send_offset c > length (send_buffer c) then panic
      else if n > length (send_buffer c) - send_offset c then remove_uc i
      else bindq (update_uc i (record_sent n)) (\<lambda>_. bindq (index_uc i) (\<lambda>c.
             if output_drained sys c then after_output sys i else submit_send sys i))) s"
    using sent_safe[OF sys s c, of n] safe_remove[OF s] by simp
qed

lemma handle_write_completion_safe:
  assumes sys: "uring_ok inflight sys" and s: "urg.reached inflight (add_mset e R) s0 s"
    and e: "connection_op (sq_user_data e) = Some oper" "op_kind oper = Write"
  shows "usafe inflight R s0 (id_of oper) (handle_write_completion sys oper result) s"
proof -
  obtain c where c: "serving inflight (add_mset e R) s0 (id_of oper) c s" and "justified c Write (sq_submission e)"
    using at_hand[OF s e(1)] e(2) by metis
  then have "uc_write_pending c" by simp
  let ?d = "mark_write_completed c"
  have d: "uconn_ok (uw_limits s0) ?d" "sendable ?d" "idle ?d" "uc_generation ?d = uc_generation c" "to_send ?d"
    using servingD(6)[OF c] \<open>uc_write_pending c\<close> by (auto simp: mark_write_completed_def uconn_defs sendable_def to_send_def)
  show ?thesis
    unfolding handle_write_completion_def Let_def
    by (rule safe_when[OF c], rule safe_settle[OF c e(1), where g = mark_write_completed, OF d(1,4,3)])
       (auto intro: submit_send_safe[OF sys _ d(2,5)] safe_remove[OF _ d(3)] safe_umetric write_settled_safe[OF sys _ d(2)])
qed

section \<open>Completions of receives\<close>

lemma copy_and_release_returns:
  "\<exists>r ring'. copy_and_release buffer len ring = (Return r, ring') \<and> (\<forall>bs. r = Inr bs \<longrightarrow> length bs = len)"
  by (auto simp: copy_and_release_def publish_def Let_def get_def split: option.splits)

lemma wp_release_buffer:
  assumes sys: "uring_ok inflight sys"
    and "\<And>r ring w. inflight w = inflight (uw_world s) \<Longrightarrow> (\<And>bs. r = Inr bs \<Longrightarrow> length bs = len) \<Longrightarrow>
      Q r (s\<lparr>uw_buffer_ring := ring, uw_world := w\<rparr>)"
  shows "wp (release_buffer sys buffer len) Q s"
proof -
  obtain contents w where w: "q_received sys (br_buffers (uw_buffer_ring s)) (uw_world s) = (contents, w)" by fastforce
  obtain r ring where r: "copy_and_release buffer len ((uw_buffer_ring s)\<lparr>br_buffers := contents\<rparr>) = (Return r, ring)"
    "\<And>bs. r = Inr bs \<Longrightarrow> length bs = len"
    using copy_and_release_returns by blast
  have "inflight w = inflight (uw_world s)"
    using inflight_calls(3)[OF sys, of "br_buffers (uw_buffer_ring s)" "uw_world s"] w by simp
  from assms(2)[OF this r(2)] show ?thesis by (simp add: wp_def release_buffer_def w r(1))
qed

text \<open>The bytes of a positive completion are taken out of the ring of buffers, or the run ends.\<close>

lemma wp_take_received:
  fixes f :: "bytes option \<Rightarrow> ('w, 'sc, 't, 'a) uop"
  assumes sys: "uring_ok inflight sys" and s: "steady inflight R0 s0 s"
    and f: "\<And>bs t. steady inflight R0 s0 t \<Longrightarrow> (result > 0 \<Longrightarrow> bs \<notin> {None, Some []}) \<Longrightarrow> wp (f bs) (settled inflight R s0) t"
  shows "wp (bindq (take_received sys message result buffer_id) f) (settled inflight R s0) s"
proof -
  have released: "wp (release_buffer sys buffer len) (on_ok (\<lambda>x. wp (f (g x)) (settled inflight R s0)) (\<lambda>e. settled inflight R s0 (Inl e))) s"
    if "\<And>x. result > 0 \<Longrightarrow> length x = len \<Longrightarrow> g x \<notin> {None, Some []}" for buffer len g
  proof (rule wp_release_buffer[OF sys])
    fix r :: "io_error + bytes" and ring w
    let ?t = "s\<lparr>uw_buffer_ring := ring, uw_world := w\<rparr>"
    assume "inflight w = inflight (uw_world s)" and len: "\<And>bs. r = Inr bs \<Longrightarrow> length bs = len"
    then have t: "steady inflight R0 s0 ?t" using s ureached_frame(5)[OF steady_reached[OF s]] by (simp add: steady_def)
    then show "on_ok (\<lambda>x. wp (f (g x)) (settled inflight R s0)) (\<lambda>e. settled inflight R s0 (Inl e)) r ?t"
      using f[OF t] that len by (cases r) (auto simp: settled_error[OF t])
  qed
  have bytes: "wp (release_buffer sys buffer (nat result)) (on_ok (\<lambda>x. wp (f (Some x)) (settled inflight R s0)) (\<lambda>e. settled inflight R s0 (Inl e))) s"
    for buffer by (rule released) auto
  have none: "settled inflight R s0 (Inl e :: io_error + 'a) s" for e using s by (rule settled_error)
  have ok_fun: "wp (ok x) Q = Q (Inr x)" for x :: "bytes option" and Q by (rule ext) simp
  show ?thesis
    using bytes released[of 0 "\<lambda>_. None"] f[OF s, of None] none
    by (cases buffer_id; cases "result > 0") (auto simp: take_received_def ok_fun)
qed

lemma queue_http_error_safe:
  assumes sys: "uring_ok inflight sys" and s: "serving inflight R s0 (id_of oper) c s" and c: "idle c" "uc_proxy c = None"
  shows "usafe inflight R s0 (id_of oper) (queue_http_error sys oper status message) s"
  unfolding queue_http_error_def
proof (rule safe_umetric[OF s])
  fix t assume t: "serving inflight R s0 (id_of oper) c t"
  have "usafe inflight R s0 (id_of oper) (bindq (update_uc (id_of oper) (\<lambda>c. uring_queue_response (response_bytes status message)
       (c\<lparr>uc_pending_request := None\<rparr>))) (\<lambda>_. submit_send sys (id_of oper))) t"
  proof (rule safe_refused[OF sys t c(1), where p = None])
    have "c\<lparr>uc_pending_request := None\<rparr> = c\<lparr>uc_proxy := None, uc_pending_request := None\<rparr>" using c(2) by (cases c) simp
    then show "uring_queue_response (response_bytes status message) (c\<lparr>uc_pending_request := None\<rparr>)
      = uring_queue_response (response_bytes status message) (c\<lparr>uc_proxy := None, uc_pending_request := None\<rparr>)" by (rule arg_cong)
  qed simp_all
  then show "usafe inflight R s0 (id_of oper) (when_current (id_of oper) (\<lambda>_. bindq (update_uc (id_of oper) (\<lambda>c.
       uring_queue_response (response_bytes status message) (c\<lparr>uc_pending_request := None\<rparr>))) (\<lambda>_. submit_send sys (id_of oper)))) t"
    by (rule safe_when[OF t])
qed

section \<open>Requests\<close>

text \<open>A connection that has received bytes and has nothing outstanding.\<close>

definition receptive ::
  "('w \<Rightarrow> sqe multiset) \<Rightarrow> sqe multiset \<Rightarrow> ('w, 'sc, 't) uring_worker \<Rightarrow> uring_id \<Rightarrow> ('w, 'sc, 't) uring_worker \<Rightarrow> bool" where
  "receptive inflight R s0 i t \<longleftrightarrow> (\<exists>d. serving inflight R s0 i d t \<and> fresh_connection d)"

lemma wp_uring_accept_head:
  assumes s: "serving inflight R s0 i c s" and c: "fresh_connection c"
  shows "wp (uring_accept_head i) (\<lambda>r. receptive inflight R s0 i) s"
proof -
  note facts = servingD[OF s]
  have kept: "receptive inflight R s0 i s" using s c by (auto simp: receptive_def)
  have head: "receptive inflight R s0 i (put_uc s i (c\<lparr>uc_pending_request := Some \<lparr>upr_head = request,
        upr_body_start = of_nat consumed, upr_body_end = body_end\<rparr>\<rparr>))"
    if "checked_add (of_nat consumed) body_len = Some body_end" and "\<not> wl_max_read_buffer_size (uw_limits s) < body_end"
    for request consumed body_end body_len
  proof -
    let ?d = "c\<lparr>uc_pending_request := Some \<lparr>upr_head = request, upr_body_start = of_nat consumed, upr_body_end = body_end\<rparr>\<rparr>"
    have "unat (of_nat consumed :: usize) \<le> unat body_end" using that(1) by (simp add: checked_add_Some_iff)
    moreover have "unat body_end \<le> unat (wl_max_read_buffer_size (uw_limits s0))"
      using that(2) facts(4) by (simp add: not_less word_le_nat_alt)
    ultimately have "uconn_ok (uw_limits s0) ?d" "fresh_connection ?d"
      using facts(6) c by (simp_all add: uconn_defs fresh_connection_def)
    then show ?thesis using serving_put[OF s, of ?d] c unfolding receptive_def by (auto simp: fresh_connection_def)
  qed
  show ?thesis unfolding uring_accept_head_def
    using kept head
    by (auto simp: wp_index_uc[OF facts(2)] wp_update_uc[OF facts(2)] split: sum.split request_head_parse.split
        body_framing_error.split option.split)
qed

lemma reached_config: "urg.reached inflight R s0 s \<Longrightarrow> config_known (uw_servers s) (uw_balancer s)"
  using urg.reached_inv by (fastforce simp: uinv_defs)

lemma wp_uring_select_upstream:
  assumes s: "serving inflight R s0 i c s" and "get (uw_servers s) n = Some server"
    and "route server target = Some (Proxy u g es p)"
  shows "wp (uring_select_upstream (Proxy u g es p)) (\<lambda>r t. serving inflight R s0 i c t) s"
proof -
  note facts = servingD[OF s]
  have known: "config_known (uw_servers s) (uw_balancer s)" using reached_config[OF facts(1)] .
  obtain r b where sel: "select (Proxy u g es p) (uw_balancer s) = (Return r, b)"
    using select_no_panic[OF known _ assms(3)] assms(2)
    by (cases "select (Proxy u g es p) (uw_balancer s)"; cases "fst (select (Proxy u g es p) (uw_balancer s))") auto
  have "balancer_groups b = balancer_groups (uw_balancer s)" using select_groups[of "Proxy u g es p" "uw_balancer s"] sel by simp
  then have "config_known (uw_servers s) b" using known by (simp add: config_known_def)
  then have "uinv inflight R (s\<lparr>uw_balancer := b\<rparr>)" using urg.reached_inv[OF facts(1)] by (simp add: uinv_defs)
  then have "serving inflight R s0 i c (s\<lparr>uw_balancer := b\<rparr>)"
    using facts(2) by (intro serving_evolve[OF s]) (simp_all add: uevolves_def)
  then show ?thesis by (simp add: wp_def uring_select_upstream_def sel)
qed

lemma safe_respond:
  assumes "uring_ok inflight sys" and "serving inflight R s0 i c s" and "fresh_connection c" and "bs \<noteq> []"
  shows "usafe inflight R s0 i (bindq (update_uc i (uring_queue_response bs)) (\<lambda>_. submit_send sys i)) s"
proof (rule safe_queue[OF assms(1,2), where st = "uc_static_stream c" and bs = bs])
  show "uring_queue_response bs c = uring_queue_response bs (c\<lparr>uc_static_stream := uc_static_stream c\<rparr>)" by simp
qed (use assms(3,4) in \<open>auto simp: fresh_connection_def\<close>)

lemma send_response_safe:
  assumes "uring_ok inflight sys" and "serving inflight R s0 i c s" and "fresh_connection c" and "response \<noteq> []"
  shows "usafe inflight R s0 i (send_response sys i response) s"
  unfolding send_response_def using safe_respond[OF assms(1-3)] assms(4) by simp

lemma static_error_nonempty: "static_error_response e \<noteq> []"
  by (cases e) (simp_all add: static_error_response_def response_bytes_with_body_def Let_def)

lemma static_head_nonempty:
  "static_stream_response fs mime directory request = Inr response \<Longrightarrow> ssr_head response \<noteq> []"
  by (auto simp: static_stream_response_def static_stream_head_def Let_def split: if_splits sum.splits prod.splits option.splits)

lemma uring_perform_action_safe:
  assumes sys: "uring_ok inflight sys" and s: "serving inflight R s0 i c s" and c: "fresh_connection c"
  shows "usafe inflight R s0 i (uring_perform_action sys i request body n) s"
proof -
  have idle: "idle c" "uc_proxy c = None" "uc_static_stream c = None" using c by (auto simp: fresh_connection_def)
  have static: "usafe inflight R s0 i (bindq (usyscall (q_fs sys)) (\<lambda>fs.
      case static_stream_response fs (q_mime sys) directory request of
        Inr response \<Rightarrow> uring_queue_static_response sys i response
      | Inl e \<Rightarrow> bindq (update_uc i (uring_queue_response (static_error_response e))) (\<lambda>_. submit_send sys i))) s" for directory
    using sys uring_queue_static_response_safe[OF sys _ idle(1,2)] safe_respond[OF sys _ c static_error_nonempty] static_head_nonempty
    by (intro safe_call[OF _ s]) (auto split: sum.split)
  have proxy: "usafe inflight R s0 i (bindq (uring_select_upstream (Proxy u g es p)) (\<lambda>r. case r of
             Inl _ \<Rightarrow> queue_proxy_error sys i 502 ''upstream configuration failed''
           | Inr upstream \<Rightarrow> uring_start_proxy sys i upstream request body)) s"
    if "get (uw_servers s) n = Some server" "route server (req_target request) = Some (Proxy u g es p)" for server u g es p
    unfolding usafe_def wp_bindq
  proof (rule wp_mono[OF wp_uring_select_upstream[OF s that]])
    fix r t assume t: "serving inflight R s0 i c t"
    show "on_ok (\<lambda>r. wp (case r of Inl _ \<Rightarrow> queue_proxy_error sys i 502 ''upstream configuration failed''
        | Inr upstream \<Rightarrow> uring_start_proxy sys i upstream request body) (tended inflight R s0 i))
        (\<lambda>e. tended inflight R s0 i (Inl e)) r t"
      using queue_proxy_error_safe[OF sys t idle(1)] uring_start_proxy_safe[OF sys t idle(1,3)] servingD(1)[OF t]
      by (cases r) (auto simp: usafe_def split: sum.split)
  qed
  show ?thesis
    unfolding uring_perform_action_def usafe_gets_bind
    using send_response_safe[OF sys s c] static proxy
    by (simp split: option.split action.split)
qed

lemma prepare_response_safe:
  assumes sys: "uring_ok inflight sys" and s: "serving inflight R s0 i c s" and c: "fresh_connection c" "uc_request c \<noteq> None"
  shows "usafe inflight R s0 i (prepare_response sys i) s"
  unfolding prepare_response_def
  using safe_remove[OF s] c uring_perform_action_safe[OF sys s c(1)]
  by (intro safe_when[OF s]) (auto simp: fresh_connection_def split: option.split)

lemma complete_request_safe:
  assumes sys: "uring_ok inflight sys" and s: "serving inflight R s0 i c s" and c: "fresh_connection c"
  shows "usafe inflight R s0 i (complete_request sys i) s"
proof -
  have recv: "usafe inflight R s0 i (submit_recv sys i) s"
    using c by (intro submit_recv_safe[OF sys s]) (auto simp: fresh_connection_def)
  show ?thesis
  proof (cases "uc_pending_request c")
    case None
    then show ?thesis using recv by (auto simp: complete_request_def intro!: safe_index[OF s])
  next
    case (Some p)
    have b: "unat (upr_body_start p) \<le> unat (upr_body_end p)" using servingD(6)[OF s] Some by (simp add: uconn_ok_def upending_ok_def)
    let ?g = "\<lambda>c :: 't uring_connection. c\<lparr>uc_pending_request := None, uc_request := Some \<lparr>cr_head = upr_head p,
      cr_body = drop (unat (upr_body_start p)) (take (unat (upr_body_end p)) (uc_request_buffer c))\<rparr>\<rparr>"
    have d: "fresh_connection (?g c)" "idle c" "idle (?g c)" using c by (simp_all add: fresh_connection_def idle_def)
    have "usafe inflight R s0 i (bindq (update_uc i ?g) (\<lambda>_. bindq (umetric metric_request) (\<lambda>_. prepare_response sys i))) s"
    proof (rule safe_update[OF s d(2)])
      show "uconn_ok (uw_limits s0) (?g c)" using servingD(6)[OF s] c by (simp add: uconn_defs fresh_connection_def)
      show "usafe inflight R s0 i (bindq (umetric metric_request) (\<lambda>_. prepare_response sys i)) t"
        if "serving inflight R s0 i (?g c) t" for t
        by (intro safe_umetric[OF that] prepare_response_safe[OF sys _ d(1)]) simp_all
    qed (use d(3) in simp_all)
    then show ?thesis using Some b recv by (auto simp: complete_request_def intro!: safe_index[OF s])
  qed
qed

lemma uring_receive_bytes_safe:
  assumes sys: "uring_ok inflight sys" and s: "serving inflight R s0 (id_of oper) c s" and c: "fresh_connection c"
  shows "usafe inflight R s0 (id_of oper) (uring_receive_bytes sys oper incoming) s"
proof -
  let ?i = "id_of oper" and ?g = "\<lambda>c :: 't uring_connection. c\<lparr>uc_request_buffer := uc_request_buffer c @ incoming\<rparr>"
  have idle: "idle c" "fresh_connection (?g c)" using c by (simp_all add: fresh_connection_def idle_def)
  have head: "usafe inflight R s0 ?i (bindq (uring_accept_head ?i) (\<lambda>refused. case refused of
            Some (status, message) \<Rightarrow> queue_http_error sys oper status message
          | None \<Rightarrow> complete_request sys ?i)) t"
    if t: "serving inflight R s0 ?i (?g c) t" for t
    unfolding usafe_def wp_bindq
  proof (rule wp_mono[OF wp_uring_accept_head[OF t idle(2)]])
    fix r u assume "receptive inflight R s0 ?i u"
    then obtain d where u: "serving inflight R s0 ?i d u" and d: "fresh_connection d" by (auto simp: receptive_def)
    have "usafe inflight R s0 ?i (queue_http_error sys oper status message) u" for status message
      using d by (intro queue_http_error_safe[OF sys u]) (auto simp: fresh_connection_def)
    then show "on_ok (\<lambda>x. wp (case x of Some (status, message) \<Rightarrow> queue_http_error sys oper status message
          | None \<Rightarrow> complete_request sys ?i) (tended inflight R s0 ?i)) (\<lambda>e. tended inflight R s0 ?i (Inl e)) r u"
      using complete_request_safe[OF sys u d] servingD(1)[OF u] by (cases r) (auto simp: usafe_def split: option.split)
  qed
  have "usafe inflight R s0 ?i (bindq (gets uw_limits) (\<lambda>limits.
        if length (uc_request_buffer c) + length incoming > unat (wl_max_read_buffer_size limits)
        then queue_http_error sys oper 413 ''request is too large''
        else
          bindq (update_uc ?i ?g) (\<lambda>_.
          bindq (uring_accept_head ?i) (\<lambda>refused. case refused of
            Some (status, message) \<Rightarrow> queue_http_error sys oper status message
          | None \<Rightarrow> complete_request sys ?i)))) t"
    if t: "serving inflight R s0 ?i c t" for t
  proof -
    have "usafe inflight R s0 ?i (queue_http_error sys oper 413 ''request is too large'') t"
      using c by (intro queue_http_error_safe[OF sys t]) (auto simp: fresh_connection_def)
    then show ?thesis
      using servingD(4,6)[OF t] head c
      by (auto simp: fresh_connection_def uconn_defs not_less intro!: safe_update[OF t])
  qed
  then show ?thesis unfolding uring_receive_bytes_def Let_def by (intro safe_when[OF s] safe_umetric[OF s])
qed

lemma safe_decrypt:
  assumes "serving inflight R s0 i c s" and "usafe inflight R s0 i (f (Some bs)) s"
  shows "usafe inflight R s0 i (bindq (decrypt sys i bs) f) s"
  using assms serving_plain[OF assms(1)] by (simp add: usafe_def decrypt_def wp_index_uc servingD(2))

lemma handle_read_completion_safe:
  assumes sys: "uring_ok inflight sys" and s: "steady inflight (add_mset e R) s0 s"
    and e: "connection_op (sq_user_data e) = Some oper" "op_kind oper = Read"
  shows "wp (handle_read_completion sys oper result buffer_id) (settled inflight R s0) s"
  unfolding handle_read_completion_def Let_def
proof (rule wp_take_received[OF sys s], rule settled_slot)
  fix bs :: "bytes option" and t
  assume t: "steady inflight (add_mset e R) s0 t" and bs: "result > 0 \<Longrightarrow> bs \<notin> {None, Some []}"
  obtain c where c: "serving inflight (add_mset e R) s0 (id_of oper) c t" and "uc_read_pending c"
    using at_hand[OF steady_reached[OF t] e(1)] e(2) by (metis justified.simps(2))
  let ?d = "mark_read_completed c" and ?i = "id_of oper"
  let ?m = "when_current ?i (\<lambda>_. bindq (update_uc ?i mark_read_completed) (\<lambda>_.
        if result < 0 \<and> - result \<in> {EAGAIN, EINTR, ENOBUFS} then submit_recv sys ?i
        else if result \<le> 0 then remove_uc ?i
        else (case bs of None \<Rightarrow> panic | Some bs \<Rightarrow>
          bindq (decrypt sys ?i bs) (\<lambda>plaintext. case plaintext of
            None \<Rightarrow> ok ()
          | Some [] \<Rightarrow> submit_recv sys ?i
          | Some plaintext \<Rightarrow> uring_receive_bytes sys oper plaintext))))"
  have "uc_proxy c = None"
    using servingD(6)[OF c] \<open>uc_read_pending c\<close> by (cases "uc_proxy c") (auto simp: uconn_ok_def uproxy_ok_def)
  then have d: "uconn_ok (uw_limits s0) ?d" "fresh_connection ?d" "uc_generation ?d = uc_generation c"
    using servingD(6)[OF c] \<open>uc_read_pending c\<close> by (auto simp: mark_read_completed_def uconn_defs fresh_connection_def)
  then have d': "idle ?d" "uc_proxy ?d = None" "uc_static_stream ?d = None" by (simp_all add: fresh_connection_def)
  show "usafe inflight R s0 ?i ?m t"
    using bs submit_recv_safe[OF sys _ d'] safe_remove[OF _ d'(1)] uring_receive_bytes_safe[OF sys _ d(2)]
    by (intro safe_when[OF c] safe_settle[OF c e(1), where g = mark_read_completed, OF d(1,3) d'(1)])
       (auto intro!: safe_decrypt split: option.split list.split)
  show "framed (same_slots {uslot ?i}) ?m" by (auto split: option.split list.split)
  show "\<And>j c. j \<noteq> uslot ?i \<Longrightarrow> slab_get (uw_connections t) j = Some c \<Longrightarrow> attended c" using t by (auto simp: steady_def)
qed

section \<open>Upstream completions\<close>

fun kind_phase :: "operation_kind \<Rightarrow> uring_phase option" where
  "kind_phase ProxyConnect = Some Connecting"
| "kind_phase ProxyWrite = Some WritingRequest"
| "kind_phase ProxyRead = Some ReadingResponse"
| "kind_phase _ = None"

lemma justified_proxy:
  assumes "justified c k sub" and "kind_phase k = Some p"
  obtains x where "uc_proxy c = Some x" "up_operation_pending x" "up_phase x = p"
  using assms by (cases k) auto

lemma completed_proxy_safe:
  assumes sys: "uring_ok inflight sys" and s: "urg.reached inflight (add_mset e R) s0 s"
    and e: "connection_op (sq_user_data e) = Some oper" "kind_phase (op_kind oper) = Some p"
    and f: "\<And>x d t. serving inflight R s0 (id_of oper) d t \<Longrightarrow> proxied p (x\<lparr>up_operation_pending := False\<rparr>) d \<Longrightarrow>
      up_upstream x \<noteq> None \<Longrightarrow> usafe inflight R s0 (id_of oper) (f x) t"
  shows "usafe inflight R s0 (id_of oper) (completed_proxy sys (id_of oper) message f) s"
proof -
  obtain c where c: "serving inflight (add_mset e R) s0 (id_of oper) c s" "justified c (op_kind oper) (sq_submission e)"
    using at_hand[OF s e(1)] .
  obtain x where x: "uc_proxy c = Some x" "up_operation_pending x" "up_phase x = p"
    using justified_proxy[OF c(2) e(2)] .
  let ?g = "update_up (\<lambda>x. x\<lparr>up_operation_pending := False\<rparr>)"
  have d: "uconn_ok (uw_limits s0) (?g c)" "proxied p (x\<lparr>up_operation_pending := False\<rparr>) (?g c)"
    "uc_generation (?g c) = uc_generation c" "idle (?g c)" "up_upstream x \<noteq> None"
    using servingD(6)[OF c(1)] x by (auto simp: update_up_def proxied_def uconn_defs)
  have "usafe inflight R s0 (id_of oper) (bindq (update_uc (id_of oper) ?g) (\<lambda>_.
      if up_timed_out x then uring_fail_proxy sys (id_of oper) 504 message else f x)) s"
    by (rule safe_settle[OF c(1) e(1), where g = ?g, OF d(1,3,4)])
       (auto intro: uring_fail_proxy_safe[OF sys _ d(4)] f[OF _ d(2,5)])
  moreover have "current_proxy s (id_of oper) = Some x" using servingD(2)[OF c(1)] x(1) by (simp add: current_proxy_def)
  ultimately show ?thesis by (simp add: completed_proxy_def)
qed

lemma proxied_idle: "proxied p x c \<Longrightarrow> idle c \<and> \<not> up_operation_pending x"
  by (auto simp: proxied_def idle_def)

lemma proxied_facts:
  assumes "serving inflight R s0 i c s" and "proxied p x c"
  shows "up_request_offset x \<le> length (up_request_buffer x)"
    "p \<in> {WritingRequest, ReadingResponse} \<Longrightarrow> up_upstream x \<noteq> None"
  using servingD(6)[OF assms(1)] assms(2) by (auto simp: uconn_defs proxied_def)

text \<open>A new phase, and what is submitted in it.\<close>

lemma safe_transition:
  assumes s: "serving inflight R s0 i c s" and c: "proxied p x c" and "up_upstream x \<noteq> None"
    and f: "\<And>d y t. serving inflight R s0 i d t \<Longrightarrow> proxied q y d \<Longrightarrow> usafe inflight R s0 i (f ()) t"
  shows "usafe inflight R s0 i (bindq (update_uc i (update_up (uring_transition now q))) f) s"
  using proxied_facts(1)[OF s c] proxied_idle[OF c] assms(3) f
  by (intro safe_update_up[OF s c, where q = q]) (auto simp: uring_transition_def)

lemma handle_proxy_connect_safe:
  assumes sys: "uring_ok inflight sys" and s: "urg.reached inflight (add_mset e R) s0 s"
    and e: "connection_op (sq_user_data e) = Some oper" "op_kind oper = ProxyConnect"
  shows "usafe inflight R s0 (id_of oper) (handle_proxy_connect sys oper result) s"
  unfolding handle_proxy_connect_def Let_def
proof (rule completed_proxy_safe[OF sys s e(1), where p = Connecting])
  fix x d t
  assume t: "serving inflight R s0 (id_of oper) d t" and d: "proxied Connecting (x\<lparr>up_operation_pending := False\<rparr>) d"
    and x: "up_upstream x \<noteq> None"
  then show "usafe inflight R s0 (id_of oper) (if result < 0 then try_next_proxy_address sys (id_of oper)
        else bindq (usyscall (q_now sys)) (\<lambda>now.
             bindq (update_uc (id_of oper) (update_up (uring_transition now WritingRequest))) (\<lambda>_.
             submit_proxy_write sys (id_of oper)))) t"
    using sys try_next_proxy_address_safe[OF sys t d]
    by (auto intro!: safe_call[OF _ t] safe_transition[OF _ d] submit_proxy_write_safe[OF sys])
qed (use e in simp)

text \<open>A part of the request has been sent.\<close>

lemma request_sent_safe:
  assumes sys: "uring_ok inflight sys" and s: "serving inflight R s0 i c s" and c: "proxied WritingRequest x c"
    and n: "n \<le> length (up_request_buffer x) - up_request_offset x"
  shows "usafe inflight R s0 i (bindq (update_uc i (update_up (\<lambda>x. uring_record_progress now
       (x\<lparr>up_request_offset := up_request_offset x + n\<rparr>)))) (\<lambda>_.
     if up_request_offset x + n = length (up_request_buffer x)
     then bindq (usyscall (q_now sys)) (\<lambda>now.
          bindq (update_uc i (update_up (uring_transition now ReadingResponse))) (\<lambda>_. submit_proxy_read sys i))
     else submit_proxy_write sys i)) s"
proof (rule safe_update_up[OF s c, where q = WritingRequest])
  let ?g = "\<lambda>x. uring_record_progress now (x\<lparr>up_request_offset := up_request_offset x + n\<rparr>)"
  note off = proxied_facts[OF s c]
  fix t d assume t: "serving inflight R s0 i d t" and "proxied (up_phase (?g x)) (?g x) d"
  then have d: "proxied WritingRequest (?g x) d" using c by (simp add: proxied_def uring_record_progress_def)
  then show "usafe inflight R s0 i (if up_request_offset x + n = length (up_request_buffer x)
     then bindq (usyscall (q_now sys)) (\<lambda>now.
          bindq (update_uc i (update_up (uring_transition now ReadingResponse))) (\<lambda>_. submit_proxy_read sys i))
     else submit_proxy_write sys i) t"
    using sys submit_proxy_write_safe[OF sys t d] off(2)
    by (auto intro!: safe_call[OF _ t] safe_transition[OF _ d] submit_proxy_read_safe[OF sys] simp: uring_record_progress_def)
next
  let ?x = "uring_record_progress now (x\<lparr>up_request_offset := up_request_offset x + n\<rparr>)"
  have "up_request_offset x + n \<le> length (up_request_buffer x)" using n proxied_facts(1)[OF s c] by linarith
  then show "up_request_offset ?x \<le> length (up_request_buffer x)" by (simp add: uring_record_progress_def)
qed (use c proxied_facts(2)[OF s c] proxied_idle[OF c] in \<open>auto simp: proxied_def uring_record_progress_def\<close>)

lemma handle_proxy_write_safe:
  assumes sys: "uring_ok inflight sys" and s: "urg.reached inflight (add_mset e R) s0 s"
    and e: "connection_op (sq_user_data e) = Some oper" "op_kind oper = ProxyWrite"
  shows "usafe inflight R s0 (id_of oper) (handle_proxy_write sys oper result) s"
  unfolding handle_proxy_write_def Let_def
proof (rule completed_proxy_safe[OF sys s e(1), where p = WritingRequest])
  fix x :: uring_proxy and d t
  let ?i = "id_of oper" and ?x = "x\<lparr>up_operation_pending := False\<rparr>"
  assume t: "serving inflight R s0 ?i d t" and d: "proxied WritingRequest ?x d" and x: "up_upstream x \<noteq> None"
  have idle: "idle d" using d by (simp add: proxied_def)
  have off: "up_request_offset x \<le> length (up_request_buffer x)" using proxied_facts(1)[OF t d] by simp
  let ?g = "\<lambda>now x. uring_record_progress now (x\<lparr>up_request_offset := up_request_offset x + nat result\<rparr>)"
  note progress = request_sent_safe[OF sys _ d, of R s0 ?i _ "nat result", simplified]
  show "usafe inflight R s0 (id_of oper) (if result < 0 \<and> - result \<in> {EAGAIN, EINTR} then submit_proxy_write sys ?i
        else if result \<le> 0 then uring_fail_proxy sys ?i 502 ''upstream request write failed''
        else
          bindq (umetric (metric_wrote_bytes (nat result))) (\<lambda>_.
            if up_request_offset x > length (up_request_buffer x) then panic
            else if nat result > length (up_request_buffer x) - up_request_offset x
            then uring_fail_proxy sys ?i 502 ''invalid upstream write completion''
            else
              bindq (usyscall (q_now sys)) (\<lambda>now.
              bindq (update_uc ?i (update_up (?g now))) (\<lambda>_.
                if up_request_offset x + nat result = length (up_request_buffer x)
                then bindq (usyscall (q_now sys)) (\<lambda>now.
                     bindq (update_uc ?i (update_up (uring_transition now ReadingResponse))) (\<lambda>_.
                     submit_proxy_read sys ?i))
                else submit_proxy_write sys ?i)))) t"
    using submit_proxy_write_safe[OF sys t d] uring_fail_proxy_safe[OF sys _ idle] t off sys progress x
    by (auto simp: not_less intro!: safe_umetric[OF t] safe_call[where c = d and i = ?i])
qed (use e in simp)

lemma relay_safe:
  assumes sys: "uring_ok inflight sys" and s: "serving inflight R s0 i c s" and c: "proxied ReadingResponse x c" and "chunk \<noteq> []"
  shows "usafe inflight R s0 i (bindq (usyscall (q_now sys)) (\<lambda>now.
     bindq (update_uc i (update_up (\<lambda>x. uring_record_progress now (x\<lparr>up_response_started := True\<rparr>)))) (\<lambda>_.
     bindq (update_uc i (uring_queue_response chunk)) (\<lambda>_. submit_send sys i)))) s"
proof (rule safe_call[OF _ s])
  let ?g = "\<lambda>now x. uring_record_progress now (x\<lparr>up_response_started := True\<rparr>)"
  fix now u assume u: "serving inflight R s0 i c u"
  show "usafe inflight R s0 i (bindq (update_uc i (update_up (?g now))) (\<lambda>_.
      bindq (update_uc i (uring_queue_response chunk)) (\<lambda>_. submit_send sys i))) u"
  proof (rule safe_update_up[OF u c, where q = ReadingResponse])
    fix v d assume v: "serving inflight R s0 i d v" and d: "proxied (up_phase (?g now x)) (?g now x) d"
    then have "sendable d" "idle d" using c by (auto simp: proxied_def uring_record_progress_def sendable_def)
    then show "usafe inflight R s0 i (bindq (update_uc i (uring_queue_response chunk)) (\<lambda>_. submit_send sys i)) v"
      by (intro safe_queue[OF sys v, where st = "uc_static_stream d" and bs = chunk]) (simp_all add: assms(4))
  qed (use c proxied_facts[OF u c] proxied_idle[OF c] in \<open>auto simp: proxied_def uring_record_progress_def\<close>)
qed (use sys in simp)

lemma handle_proxy_read_safe:
  fixes s :: "('w, 'sc, 't) uring_worker"
  assumes sys: "uring_ok inflight sys" and s: "steady inflight (add_mset e R) s0 s"
    and e: "connection_op (sq_user_data e) = Some oper" "op_kind oper = ProxyRead"
  shows "wp (handle_proxy_read sys oper result buffer_id) (settled inflight R s0) s"
  unfolding handle_proxy_read_def Let_def
proof (rule wp_take_received[OF sys s], unfold wp_gets_bind, rule settled_slot)
  fix bs :: "bytes option" and t0 :: "('w, 'sc, 't) uring_worker"
  let ?i = "id_of oper" and ?g = "\<lambda>now x. uring_record_progress now (x\<lparr>up_response_started := True\<rparr>)"
  let ?f = "\<lambda>_ :: uring_proxy. if result < 0 \<and> - result \<in> {EAGAIN, EINTR, ENOBUFS} then submit_proxy_read sys ?i
        else if result < 0 then uring_fail_proxy sys ?i 502 ''upstream response failed''
        else if result = 0 then bindq (umetric metric_response) (\<lambda>_. remove_uc ?i)
        else (case bs of None \<Rightarrow> panic | Some bs \<Rightarrow>
          bindq (umetric (metric_read_bytes (length bs))) (\<lambda>_.
            if length bs > unat (wl_max_write_buffer_size (uw_limits t0))
            then uring_fail_proxy sys ?i 502 ''upstream response chunk is too large''
            else
              bindq (usyscall (q_now sys)) (\<lambda>now.
              bindq (update_uc ?i (update_up (?g now))) (\<lambda>_.
              bindq (update_uc ?i (uring_queue_response bs)) (\<lambda>_.
              submit_send sys ?i)))))"
  assume t0: "steady inflight (add_mset e R) s0 t0" and bs: "result > 0 \<Longrightarrow> bs \<notin> {None, Some []}"
  show "usafe inflight R s0 ?i (completed_proxy sys ?i ''upstream response timed out'' ?f) t0"
  proof (rule completed_proxy_safe[OF sys steady_reached[OF t0] e(1), where p = ReadingResponse])
    fix x d t
    assume t: "serving inflight R s0 ?i d t" and d: "proxied ReadingResponse (x\<lparr>up_operation_pending := False\<rparr>) d"
    then have idle: "idle d" by (simp add: proxied_def)
    show "usafe inflight R s0 ?i (?f x) t"
      using submit_proxy_read_safe[OF sys t d] uring_fail_proxy_safe[OF sys _ idle] t safe_finish[OF t idle] relay_safe[OF sys _ d] bs
      by (auto intro!: safe_umetric[OF t] split: option.split)
  qed (use e in simp)
  show "framed (same_slots {uslot ?i}) (completed_proxy sys ?i ''upstream response timed out'' ?f)"
    by (intro same.framed_completed_proxy) (auto split: option.split)
  show "\<And>j c. j \<noteq> uslot ?i \<Longrightarrow> slab_get (uw_connections t0) j = Some c \<Longrightarrow> attended c" using t0 by (auto simp: steady_def)
qed

section \<open>Timeouts and shutdown\<close>

text \<open>A change of a connection whose operations may be outstanding.\<close>

lemma uinv_put_keep:
  assumes s: "uinv inflight R s" and i: "ucurrent s i = Some c"
    and c': "uconn_ok (uw_limits s) c'" "uc_generation c' = uc_generation c"
    and j: "\<And>k sub. justified c k sub \<Longrightarrow> justified c' k sub" and k: "\<And>k. waits c' k \<Longrightarrow> waits c k"
  shows "uinv inflight R (put_uc s i c')"
proof -
  note c = ucurrentD[OF i]
  have get: "slab_get (uw_connections (put_uc s i c')) k = (if k = uslot i then Some c' else slab_get (uw_connections s) k)" for k
    using c by (auto simp: put_uc_def slab_get_put slab_get_Some_iff)
  have "owned (uw_connections (put_uc s i c')) e" if "owned (uw_connections s) e" for e
    using that c c'(2) j by (fastforce simp: owned_def get)
  moreover have "slab_len (uw_connections (put_uc s i c')) = slab_len (uw_connections s)"
    using c by (simp add: put_uc_def slab_len_put)
  moreover have "uconn_ok (uw_limits s) d \<and> uslot_ok (uw_generations s) k d"
    if "slab_get (uw_connections (put_uc s i c')) k = Some d" for k d
    using that s c' uinv_conn(2)[OF s i] by (auto simp: get uinv_defs uslot_ok_def split: if_splits)
  moreover have "backed (inflight (uw_world s) + R) (uslot i) c" using s c by (auto simp: uinv_def all_backed_def)
  then have "backed (inflight (uw_world s) + R) (uslot i) c'" using c'(2) k unfolding backed_def by metis
  then have "all_backed (inflight (uw_world s) + R) ((uw_connections s)[uslot i := Some c'])"
    using s by (intro all_backed_put[of "inflight (uw_world s) + R"]) (auto simp: uinv_def)
  ultimately show ?thesis using s by (auto simp: uinv_defs put_uc_def)
qed

lemma uring_expired_proxies_slots:
  fixes s :: "('w, 'sc, 't) uring_worker"
  assumes s: "urg.reached inflight R s0 s"
  shows "distinct (map (\<lambda>a. uslot (fst a)) (uring_expired_proxies now s))"
    "\<forall>a \<in> set (uring_expired_proxies now s). case a of (i, phase, pending) \<Rightarrow> \<exists>c x. slab_get (uw_connections s) (uslot i) = Some c
       \<and> uc_generation c = ui_generation i \<and> \<not> uc_write_pending c \<and> uc_proxy c = Some x \<and> up_operation_pending x = pending"
proof -
  define f where "f = (\<lambda>(slot, c :: 't uring_connection).
     if uc_write_pending c then None
     else (case uc_proxy c of
       None \<Rightarrow> None
     | Some x \<Rightarrow>
         if up_timed_out x then None
         else if duration_since now (up_progress_at x) \<ge> uring_phase_timeout s (up_phase x)
         then Some (\<lparr>ui_slot = of_nat slot :: u32, ui_generation = uc_generation c\<rparr>, up_phase x, up_operation_pending x)
         else None))"
  have e: "uring_expired_proxies now s = map (the \<circ> f) (filter (\<lambda>p. f p \<noteq> None) (slab_iter (uw_connections s)))"
    unfolding uring_expired_proxies_def f_def List.map_filter_def ..
  have slot: "uslot (fst (the (f (k, c)))) = k" if "slab_get (uw_connections s) k = Some c" "f (k, c) \<noteq> None" for k c
    using that reached_slot(2)[OF s] by (auto simp: f_def uslot_def split: option.splits if_splits)
  have "map (\<lambda>a. uslot (fst a)) (uring_expired_proxies now s) = map fst (filter (\<lambda>p. f p \<noteq> None) (slab_iter (uw_connections s)))"
    using slot by (auto simp: e)
  then show "distinct (map (\<lambda>a. uslot (fst a)) (uring_expired_proxies now s))"
    using distinct_slab_iter distinct_map_filter by metis
  show "\<forall>a \<in> set (uring_expired_proxies now s). case a of (i, phase, pending) \<Rightarrow> \<exists>c x. slab_get (uw_connections s) (uslot i) = Some c
       \<and> uc_generation c = ui_generation i \<and> \<not> uc_write_pending c \<and> uc_proxy c = Some x \<and> up_operation_pending x = pending"
    using reached_slot(2)[OF s] by (auto simp: e f_def uslot_def split: option.splits if_splits)
qed

lemma mark_timed_out_safe:
  assumes s: "serving inflight R s0 i c s" and x: "uc_proxy c = Some x"
    and f: "\<And>t. serving inflight R s0 i (update_up (\<lambda>x. x\<lparr>up_timed_out := True\<rparr>) c) t \<Longrightarrow> usafe inflight R s0 i (f ()) t"
  shows "usafe inflight R s0 i (bindq (update_uc i (update_up (\<lambda>x. x\<lparr>up_timed_out := True\<rparr>))) f) s"
proof -
  note facts = servingD[OF s]
  let ?c = "update_up (\<lambda>x. x\<lparr>up_timed_out := True\<rparr>) c"
  have "uproxy_ok l ?c (x\<lparr>up_timed_out := True\<rparr>) = uproxy_ok l c x" for l
    by (simp add: uproxy_ok_def update_up_def)
  then have "uconn_ok (uw_limits s) ?c" using facts(4,6) x by (simp add: uconn_ok_def update_up_def)
  moreover have "justified ?c k sub" if "justified c k sub" for k sub
    using that x by (cases k) (auto simp: update_up_def send_offset_def send_buffer_def)
  moreover have "waits c k" if "waits ?c k" for k
    using that x by (cases k) (auto simp: update_up_def)
  ultimately have "uinv inflight R (put_uc s i ?c)"
    by (intro uinv_put_keep[OF urg.reached_inv[OF facts(1)] facts(2)]) (simp_all add: update_up_def)
  moreover have "ucurrent (put_uc s i ?c) i = Some ?c" using facts(2,5) by (simp add: update_up_def)
  ultimately have "serving inflight R s0 i ?c (put_uc s i ?c)" using serving_evolve[OF s _ uevolves_put] by blast
  from f[OF this] show ?thesis by (simp add: usafe_def wp_update_uc[OF facts(2)])
qed

text \<open>A cancellation leaves the connection as it is.\<close>

lemma push_other_usafe:
  assumes sys: "uring_ok inflight sys" and s: "serving inflight R s0 i c s" and "connection_op (sq_user_data e) = None" and "attended c"
  shows "usafe inflight R s0 i (push_entry sys e) s"
proof -
  obtain r t where t: "push_entry sys e s = (Return r, t)" "urg.reached inflight R s0 t"
    using wp_result[of "push_entry sys e"] safe_push_other[OF sys servingD(1)[OF s] assms(3)] by (fastforce simp: urg.safe_def)
  have "framed (same_slots {}) (push_entry sys e :: ('a, 'b, 'c, unit) uop)" by simp
  then have "slab_get (uw_connections t) (uslot i) = slab_get (uw_connections s) (uslot i)"
    using t(1) unfolding framed_def same_slots_def by (metis emptyE snd_conv)
  then have "uget t i = Some c" using servingD(3)[OF s] by (simp add: uget_def)
  with t assms(4) show ?thesis by (simp add: usafe_def wp_def tended_def)
qed

lemma expire_proxy_safe:
  assumes sys: "uring_ok inflight sys" and s: "serving inflight R s0 i c s" and x: "uc_proxy c = Some x"
    and "\<not> uc_write_pending c" and p: "up_operation_pending x = pending"
  shows "usafe inflight R s0 i (expire_proxy sys (i, phase, pending)) s"
proof (cases pending)
  case False
  have "idle c" using assms(4) p x False servingD(6)[OF s] by (auto simp: uconn_defs)
  with False show ?thesis using uring_fail_proxy_safe[OF sys s] by (simp add: expire_proxy_def)
next
  case True
  let ?c = "update_up (\<lambda>x. x\<lparr>up_timed_out := True\<rparr>) c"
  have "attended ?c" using x p True by (simp add: attended_def update_up_def)
  then have "usafe inflight R s0 i (bindq (update_uc i (update_up (\<lambda>x. x\<lparr>up_timed_out := True\<rparr>))) (\<lambda>_.
      case phase_operation i phase of None \<Rightarrow> ok ()
      | Some target \<Rightarrow> push_entry sys (cancel_entry (encode target) PROXY_CANCEL_USER_DATA))) s"
    using push_other_usafe[OF sys] by (intro mark_timed_out_safe[OF s x]) (auto simp: cancel_entry_def usafe_ok split: option.split)
  with True x show ?thesis by (auto simp: expire_proxy_def intro!: safe_index[OF s])
qed

lemma no_handshake_expired:
  assumes "urg.reached inflight R s0 s"
  shows "uring_ids (\<lambda>slot c. uring_handshake_expired sys now c) s = []"
proof -
  have "uc_ssl c = None" if "slab_get (uw_connections s) k = Some c" for k c
    using that urg.reached_inv[OF assms] by (auto simp: uinv_defs uconn_ok_def)
  then show ?thesis by (auto simp: uring_ids_def uring_handshake_expired_def filter_empty_conv)
qed

lemma check_proxy_timeouts_safe:
  assumes sys: "uring_ok inflight sys" and s: "steady inflight R s0 s"
  shows "wp (check_proxy_timeouts sys) (settled inflight R s0) s"
proof -
  have expire: "wp (for_each (expire_proxy sys) (uring_expired_proxies now t)) (settled inflight R s0) t"
    if t: "steady inflight R s0 t" for now t
  proof (rule each_slot_settled[where key = "\<lambda>a. uslot (fst a)" and P = "\<lambda>a z. case a of (i, phase, pending) \<Rightarrow> \<exists>c x. z = Some c
       \<and> uc_generation c = ui_generation i \<and> \<not> uc_write_pending c \<and> uc_proxy c = Some x \<and> up_operation_pending x = pending"])
    fix a :: "uring_id \<times> uring_phase \<times> bool" and u
    assume u: "steady inflight R s0 u" and "case a of (i, phase, pending) \<Rightarrow> \<exists>c x. slab_get (uw_connections u) (uslot (fst a)) = Some c
       \<and> uc_generation c = ui_generation i \<and> \<not> uc_write_pending c \<and> uc_proxy c = Some x \<and> up_operation_pending x = pending"
    then obtain i phase pending c x where a: "a = (i, phase, pending)" "serving inflight R s0 i c u" "\<not> uc_write_pending c"
      "uc_proxy c = Some x" "up_operation_pending x = pending"
      by (cases a) (auto simp: serving_def intro!: ucurrentI steady_reached)
    then have "usafe inflight R s0 i (expire_proxy sys a) u" using expire_proxy_safe[OF sys] by blast
    then show "wp (expire_proxy sys a) (settled inflight R s0) u"
      using same.framed_expire[of a "{uslot i}"] a(1) u by (intro settled_slot) (auto simp: steady_def)
  next
    show "\<forall>a \<in> set (uring_expired_proxies now t). case a of (i, phase, pending) \<Rightarrow> \<exists>c x. slab_get (uw_connections t) (uslot (fst a)) = Some c
       \<and> uc_generation c = ui_generation i \<and> \<not> uc_write_pending c \<and> uc_proxy c = Some x \<and> up_operation_pending x = pending"
      using uring_expired_proxies_slots(2)[OF steady_reached[OF t], of now] by auto
  qed (use t uring_expired_proxies_slots(1)[OF steady_reached[OF t]] in auto)
  have rest: "wp (bindq (gets (uring_ids (\<lambda>slot c. uring_handshake_expired sys now c))) (\<lambda>handshake_expired.
     bindq (for_each remove_uc handshake_expired) (\<lambda>_.
     bindq (submit_timer_read sys) (\<lambda>_. uring_pump_static_streams sys)))) (settled inflight R s0) t"
    if t: "steady inflight R s0 t" for now t
    using settled_bind[OF settled_kept[OF submit_timer_read_safe[OF sys steady_reached[OF t]] same.framed_submit(3) t]
        uring_pump_static_streams_safe[OF sys]]
    by (simp add: no_handshake_expired[OF steady_reached[OF t]])
  show ?thesis unfolding check_proxy_timeouts_def
    by (rule settled_bind[OF settled_world[OF keeps_calls(4)[OF sys] s]], unfold wp_gets_bind)
       (rule settled_bind[OF expire rest])
qed

lemma settled_modify:
  assumes "steady inflight R s0 s" and "urg.reached inflight R s0 (g s)" and "uw_connections (g s) = uw_connections s"
  shows "wp (modify g) (settled inflight R s0) s"
  using assms by (simp add: settledI steady_def)

lemma settled_result: "steady inflight R s0 s \<Longrightarrow> wp (of_result r) (settled inflight R s0) s"
  by (simp add: settledI)

lemma uring_begin_shutdown_safe:
  assumes sys: "uring_ok inflight sys" and s: "steady inflight R s0 s"
  shows "wp (uring_begin_shutdown sys) (settled inflight R s0) s"
proof (cases "uw_cancellation_started s")
  case True
  then show ?thesis using s by (simp add: uring_begin_shutdown_def settledI)
next
  case False
  have started: "wp (modify (\<lambda>s. s\<lparr>uw_shutting_down := True, uw_shutdown_started := Some now, uw_cancellation_started := True\<rparr>))
      (settled inflight R s0) t" if t: "steady inflight R s0 t" for now t
    using steady_reached[OF t] by (intro settled_modify[OF t] urg.reached_step[OF steady_reached[OF t]]) (auto simp: uevolves_def urg.reached_def)
  have pending: "wp (modify (\<lambda>s. s\<lparr>uw_pending_cancellations := n\<rparr>)) (settled inflight R s0) t" if t: "steady inflight R s0 t" for n t
    using ureached_frame(3)[OF steady_reached[OF t]] by (intro settled_modify[OF t]) simp_all
  have push: "wp (push_entry sys (cancel_entry target CANCEL_USER_DATA)) (settled inflight R s0) t" if t: "steady inflight R s0 t" for target t
    by (rule settled_kept[OF safe_push_other[OF sys steady_reached[OF t]] _ t]) (simp_all add: cancel_entry_def)
  have cancel: "wp (for_each (\<lambda>target. push_entry sys (cancel_entry target CANCEL_USER_DATA)) targets) (settled inflight R s0) t"
    if "steady inflight R s0 t" for targets t using that by (intro settled_for_each push)
  have submit: "wp (ring_submit sys) (settled inflight R s0) t" if t: "steady inflight R s0 t" for t
    by (rule settled_kept[OF ring_submit_safe[OF sys steady_reached[OF t]] same.framed_submit(1) t])
  show ?thesis unfolding uring_begin_shutdown_def wp_gets_bind
    using False
    by (simp del: wp_bindq wp_modify wp_of_result add: wp_gets_bind)
       (intro settled_bind[OF settled_world[OF keeps_calls(4)[OF sys] s]] settled_bind[OF started] settled_bind[OF settled_gets]
          settled_bind[OF settled_result] settled_bind[OF pending] settled_bind[OF cancel] submit)
qed

section \<open>The event loop\<close>

text \<open>Completions at hand, each with the operation it completes; those of accepts and of the reserved words may have none.\<close>

fun at_hand_list :: "sqe multiset \<Rightarrow> cqe list \<Rightarrow> bool" where
  "at_hand_list R [] \<longleftrightarrow> R = {#}"
| "at_hand_list R (c # cs) \<longleftrightarrow> (connection_op (cq_user_data c) = None \<and> at_hand_list R cs)
     \<or> (\<exists>e R'. R = add_mset e R' \<and> sq_user_data e = cq_user_data c \<and> at_hand_list R' cs)"

lemma completes_at_hand:
  "completes I cs I' \<Longrightarrow> accepts_marked I \<Longrightarrow> \<exists>R. I = I' + R \<and> at_hand_list R cs"
proof (induction I cs I' rule: completes.induct)
  case (2 I c cs I')
  then obtain e where e: "e \<in># I" "sq_user_data e = cq_user_data c" "cq_more c \<longrightarrow> (\<exists>fd. sq_submission e = SubmitAcceptMulti fd)"
    "completes (if cq_more c then I else I - {#e#}) cs I'" by auto
  have "accepts_marked (if cq_more c then I else I - {#e#})" using 2(3) accepts_marked_mono[of I "I - {#e#}"] by simp
  with 2(1)[OF e(4)] obtain R where R: "(if cq_more c then I else I - {#e#}) = I' + R" "at_hand_list R cs" by auto
  show ?case
  proof (cases "cq_more c")
    case True
    with e 2(3) have "connection_op (cq_user_data c) = None" by (auto simp: accepts_marked_def)
    with R True show ?thesis by auto
  next
    case False
    with R e(1) have "I = I' + add_mset e R" by (metis insert_DiffM union_mset_add_mset_right)
    with R e(2) show ?thesis by auto
  qed
qed simp

lemma backed_other:
  assumes "backed (add_mset e M) j c" and "connection_op (sq_user_data e) = None" and "uslot_ok gens j c"
  shows "backed M j c"
  unfolding backed_def
proof (intro allI impI)
  fix k assume k: "waits c k"
  let ?o = "operation k (of_nat j) (uc_generation c)"
  have "connection_op (encode ?o) = Some ?o"
    using k assms(3) by (cases k) (auto simp: connection_op_Some_iff operation_def uslot_ok_def)
  then have "sq_user_data e \<noteq> encode ?o" using assms(2) by auto
  then show "\<exists>e. e \<in># M \<and> sq_user_data e = encode ?o" using assms(1) k unfolding backed_def by auto
qed

lemma uinv_less:
  assumes "uinv inflight (add_mset e R) s" and "connection_op (sq_user_data e) = None" shows "uinv inflight R s"
proof -
  have "backed (inflight (uw_world s) + R) i c" if i: "slab_get (uw_connections s) i = Some c" for i c
  proof -
    have "backed (add_mset e (inflight (uw_world s) + R)) i c" "uslot_ok (uw_generations s) i c"
      using assms(1) i by (auto simp: uinv_defs all_backed_def)
    then show ?thesis using backed_other[OF _ assms(2)] by blast
  qed
  then have "all_backed (inflight (uw_world s) + R) (uw_connections s)" by (simp add: all_backed_def)
  moreover
  have sub: "inflight (uw_world s) + R \<subseteq># inflight (uw_world s) + add_mset e R" by simp
  ultimately show ?thesis
    using assms at_most_once_mono[OF _ sub] accepts_marked_mono[OF _ sub] unfolding uinv_defs by auto
qed

lemma steady_less: "steady inflight (add_mset e R) s0 s \<Longrightarrow> connection_op (sq_user_data e) = None \<Longrightarrow> steady inflight R s0 s"
  using uinv_less by (auto simp: steady_def urg.reached_def)

text \<open>A completion that is not one of a connection.\<close>

lemma handle_cqe_other:
  assumes sys: "uring_ok inflight sys" and s: "steady inflight R s0 s" and c: "connection_op (cq_user_data completion) = None"
  shows "wp (handle_cqe sys completion) (settled inflight R s0) s"
proof -
  note r = steady_reached[OF s]
  have requested: "wp (modify (\<lambda>s. s\<lparr>uw_world := q_request sys (uw_world s)\<rparr>)) (settled inflight R s0) s"
    using inflight_calls(7)[OF sys] ureached_frame(4)[OF r] by (intro settled_modify[OF s]) simp_all
  have counted: "wp (modify (\<lambda>s. s\<lparr>uw_pending_cancellations := uw_pending_cancellations s - 1\<rparr>)) (settled inflight R s0) s"
    using ureached_frame(3)[OF r] by (intro settled_modify[OF s]) simp_all
  have release: "wp (bindq (release_buffer sys buffer len) (\<lambda>_. ok ())) (settled inflight R s0) s" for buffer len
    unfolding wp_bindq
  proof (rule wp_release_buffer[OF sys])
    fix x :: "io_error + bytes" and ring w assume "inflight w = inflight (uw_world s)"
    then have "steady inflight R s0 (s\<lparr>uw_buffer_ring := ring, uw_world := w\<rparr>)"
      using s ureached_frame(5)[OF r] by (simp add: steady_def)
    then show "on_ok (\<lambda>x. wp (ok ()) (settled inflight R s0)) (\<lambda>e. settled inflight R s0 (Inl e)) x
        (s\<lparr>uw_buffer_ring := ring, uw_world := w\<rparr>)"
      by (cases x) (simp_all add: settledI)
  qed
  have "op_kind oper = Accept" if "decode (cq_user_data completion) = Some oper" for oper
    using c that by (simp add: connection_op_def split: if_splits)
  then have decoded: "wp (dispatch_completion sys oper completion) (settled inflight R s0) s"
    if "decode (cq_user_data completion) = Some oper" for oper
    using that handle_accept_completion_safe[OF sys s] by (simp add: dispatch_completion_def)
  show ?thesis unfolding handle_cqe_def Let_def
    using requested counted release decoded uring_process_dns_results_safe[OF sys s] check_proxy_timeouts_safe[OF sys s] settledI[OF s]
    by (auto split: option.split simp del: wp_bindq wp_modify)
qed

lemma handle_cqe_settled:
  assumes sys: "uring_ok inflight sys" and s: "steady inflight (add_mset e R) s0 s"
    and e: "sq_user_data e = cq_user_data completion"
  shows "wp (handle_cqe sys completion) (settled inflight R s0) s"
proof (cases "connection_op (cq_user_data completion)")
  case None
  then show ?thesis using steady_less[OF s] e by (intro handle_cqe_other[OF sys]) simp_all
next
  case (Some oper)
  then have d: "decode (cq_user_data completion) = Some oper" "op_kind oper \<noteq> Accept"
    by (auto simp: connection_op_def split: option.splits if_splits)
  then have "cq_user_data completion \<notin> reserved_user_data" using decode_reserved by fastforce
  then have h: "handle_cqe sys completion = dispatch_completion sys oper completion"
    using d(1) by (auto simp: handle_cqe_def Let_def reserved_user_data_def)
  have o: "connection_op (sq_user_data e) = Some oper" using Some e by simp
  note r = steady_reached[OF s]
  have slot: "wp m (settled inflight R s0) s" if "usafe inflight R s0 (id_of oper) m s" "framed (same_slots {uslot (id_of oper)}) m" for m
    using that s by (intro settled_slot) (auto simp: steady_def)
  show ?thesis unfolding h using d(2)
      handle_read_completion_safe[OF sys s o] handle_proxy_read_safe[OF sys s o]
      slot[OF handle_write_completion_safe[OF sys r o] same.framed_completions(2)[OF singletonI]]
      slot[OF handle_proxy_connect_safe[OF sys r o] same.framed_completions(3)[OF singletonI]]
      slot[OF handle_proxy_write_safe[OF sys r o] same.framed_completions(4)[OF singletonI]]
    by (cases "op_kind oper") (simp_all add: dispatch_completion_def)
qed

lemma handle_completions_safe:
  assumes sys: "uring_ok inflight sys"
  shows "steady inflight R s0 s \<Longrightarrow> at_hand_list R cs \<Longrightarrow>
    wp (for_each (handle_cqe sys) cs) (settled inflight {#} s0) s"
proof (induction cs arbitrary: R s)
  case Nil
  then show ?case by (simp add: settledI)
next
  case (Cons c cs)
  from Cons.prems(2) consider (other) "connection_op (cq_user_data c) = None" "at_hand_list R cs"
    | (settles) e R' where "R = add_mset e R'" "sq_user_data e = cq_user_data c" "at_hand_list R' cs" by auto
  then show ?case
  proof cases
    case other
    then show ?thesis
      using handle_cqe_other[OF sys Cons.prems(1)] Cons.IH by (auto intro!: settled_bind simp del: wp_bindq)
  next
    case settles
    then show ?thesis
      using handle_cqe_settled[OF sys] Cons.prems(1) Cons.IH by (auto intro!: settled_bind simp del: wp_bindq)
  qed
qed

lemma steady_world:
  "inflight w = inflight (uw_world s) \<Longrightarrow> steady inflight R s0 s \<Longrightarrow> steady inflight R s0 (s\<lparr>uw_world := w\<rparr>)"
  using ureached_frame(4)[of inflight R s0 s w] by (simp add: steady_def)

lemma steady_completion:
  assumes sys: "uring_ok inflight sys" and s: "steady inflight {#} s0 s" and q: "q_completion sys (uw_world s) = (cs, w)"
  shows "\<exists>R. steady inflight R s0 (s\<lparr>uw_world := w\<rparr>) \<and> at_hand_list R cs"
proof -
  note inv = urg.reached_inv[OF steady_reached[OF s]]
  have "completes (inflight (uw_world s)) cs (inflight w)" using sys q unfolding uring_ok_def ring_ok_contract_def by blast
  moreover have "accepts_marked (inflight (uw_world s))" using inv by (simp add: uinv_defs)
  ultimately obtain R where R: "inflight (uw_world s) = inflight w + R" "at_hand_list R cs" using completes_at_hand by blast
  have "uinv inflight R (s\<lparr>uw_world := w\<rparr>)" using inv R(1) by (simp add: uinv_defs)
  then have "steady inflight R s0 (s\<lparr>uw_world := w\<rparr>)" using s by (simp add: steady_def urg.reached_def uevolves_def)
  with R(2) show ?thesis by blast
qed

lemma ring_submit_settled: "uring_ok inflight sys \<Longrightarrow> steady inflight R s0 s \<Longrightarrow> wp (ring_submit sys) (settled inflight R s0) s"
  by (rule settled_kept[OF ring_submit_safe[OF _ steady_reached] same.framed_submit(1)])

lemma wait_and_handle_safe:
  assumes sys: "uring_ok inflight sys" and s: "steady inflight {#} s0 s"
  shows "wp (bindq (usyscall (q_submit_and_wait sys)) (\<lambda>r.
     bindq (of_result r) (\<lambda>_.
     bindq (usyscall (q_completion sys)) (\<lambda>completions.
     bindq (for_each (handle_cqe sys) completions) (\<lambda>_.
     bindq (ring_submit sys) (\<lambda>_. ok True)))))) (settled inflight {#} s0) s"
proof -
  obtain r w where w: "q_submit_and_wait sys (uw_world s) = (r, w)" by fastforce
  obtain cs w' where c: "q_completion sys w = (cs, w')" by fastforce
  have t: "steady inflight {#} s0 (s\<lparr>uw_world := w\<rparr>)"
    using inflight_calls(2)[OF sys, of "uw_world s"] w by (intro steady_world[OF _ s]) simp
  obtain R where R: "steady inflight R s0 (s\<lparr>uw_world := w'\<rparr>)" "at_hand_list R cs"
    using steady_completion[OF sys t] c by auto
  have submit: "wp (bindq (ring_submit sys) (\<lambda>_. ok True)) (settled inflight {#} s0) u" if "steady inflight {#} s0 u" for u
    by (rule settled_bind[OF ring_submit_settled[OF sys that]]) (simp add: settledI)
  have "wp (bindq (for_each (handle_cqe sys) cs) (\<lambda>_. bindq (ring_submit sys) (\<lambda>_. ok True))) (settled inflight {#} s0)
      (s\<lparr>uw_world := w'\<rparr>)"
    by (rule settled_bind[OF handle_completions_safe[OF sys R] submit])
  then show ?thesis using t w c by (cases r) (simp_all add: wp_usyscall settledI)
qed

lemma shutdown_deadline_reached_safe:
  assumes "uring_ok inflight sys" and "steady inflight R s0 s"
  shows "wp (shutdown_deadline_reached sys) (settled inflight R s0) s"
proof (cases "uw_shutdown_started s")
  case (Some started)
  have "wp (bindq (usyscall (q_now sys)) (\<lambda>now. gets (\<lambda>s. duration_since now started \<ge> wl_drain_timeout (uw_limits s))))
      (settled inflight R s0) s"
    by (rule settled_bind[OF settled_world[OF keeps_calls(4)[OF assms(1)] assms(2)] settled_gets])
  with Some show ?thesis unfolding shutdown_deadline_reached_def wp_gets_bind by simp
qed (use assms in \<open>simp add: shutdown_deadline_reached_def settledI\<close>)

lemma uring_iteration_safe:
  assumes sys: "uring_ok inflight sys" and s: "steady inflight {#} s0 s"
  shows "wp (uring_iteration sys) (settled inflight {#} s0) s"
proof -
  have start: "wp (if requested then uring_begin_shutdown sys else ok ()) (settled inflight {#} s0) t"
    if "steady inflight {#} s0 t" for requested t
    using uring_begin_shutdown_safe[OF sys that] that by (simp add: settledI)
  have deadline: "wp (if b then shutdown_deadline_reached sys else ok False) (settled inflight {#} s0) t"
    if "steady inflight {#} s0 t" for b t
    using shutdown_deadline_reached_safe[OF sys that] that by (simp add: settledI)
  have serve: "wp (bindq (if b then shutdown_deadline_reached sys else ok False) (\<lambda>expired. if expired then ok False else
     bindq (usyscall (q_submit_and_wait sys)) (\<lambda>r.
     bindq (of_result r) (\<lambda>_.
     bindq (usyscall (q_completion sys)) (\<lambda>completions.
     bindq (for_each (handle_cqe sys) completions) (\<lambda>_.
     bindq (ring_submit sys) (\<lambda>_. ok True))))))) (settled inflight {#} s0) t"
    if t: "steady inflight {#} s0 t" for b t
    by (rule settled_bind[OF deadline[OF t]]) (simp add: settledI wait_and_handle_safe[OF sys] del: wp_bindq)
  show ?thesis unfolding uring_iteration_def
    by (rule settled_bind[OF settled_world[OF keeps_calls(5)[OF sys] s]], rule settled_bind[OF start], assumption)
       (simp add: wp_gets_bind settledI serve del: wp_bindq)
qed

lemma uring_start_safe:
  assumes sys: "uring_ok inflight sys" and s: "steady inflight R s0 s"
  shows "wp (uring_start sys) (settled inflight R s0) s"
proof -
  have reads: "wp (submit_shutdown_read sys) (settled inflight R s0) t" "wp (submit_dns_read sys) (settled inflight R s0) t"
    "wp (submit_timer_read sys) (settled inflight R s0) t" if t: "steady inflight R s0 t" for t
    by (rule settled_kept[OF submit_shutdown_read_safe[OF sys steady_reached[OF t]] same.framed_submit(4) t],
        rule settled_kept[OF submit_dns_read_safe[OF sys steady_reached[OF t]] same.framed_submit(2) t],
        rule settled_kept[OF submit_timer_read_safe[OF sys steady_reached[OF t]] same.framed_submit(3) t])
  show ?thesis unfolding uring_start_def
    by (intro settled_bind[OF submit_initial_accepts_safe[OF sys s]] settled_bind[OF reads(1)] settled_bind[OF reads(2)]
        settled_bind[OF reads(3)] ring_submit_settled[OF sys])
qed

lemma uring_loop_safe:
  assumes sys: "uring_ok inflight sys"
  shows "steady inflight {#} s0 s \<Longrightarrow> wp (uring_loop sys n) (settled inflight {#} s0) s"
proof (induction n arbitrary: s)
  case (Suc n)
  then show ?case
    by (auto intro!: settled_bind[OF uring_iteration_safe[OF sys]] simp: settledI simp del: wp_bindq)
qed (simp add: settledI)

lemma run_uring_worker_safe:
  assumes sys: "uring_ok inflight sys" and s: "uinv inflight {#} s" and "uw_connections s = []"
  shows "wp (run_uring_worker sys n) (settled inflight {#} s) s"
proof -
  have "steady inflight {#} s s" using urg.reached_refl[OF s] assms(3) by (simp add: steady_def slab_get_def get_def)
  then show ?thesis unfolding run_uring_worker_def
    by (intro settled_bind[OF uring_start_safe[OF sys] uring_loop_safe[OF sys]])
qed

section \<open>A new worker\<close>

lemma uring_worker_new_cases:
  assumes "uring_worker_new sys rt ctx w0 = (Return (Inr s), w)"
  obtains ring a b r t where "s = uring_worker_of ctx (iu_buf_size rt) ring a b r t w" "unat (iu_buf_size rt) < 2 ^ 32"
proof -
  have "\<exists>env ring. register env (iu_buf_ring_size rt) (iu_buf_size rt) = Return (Inr ring)
      \<and> (\<exists>a b r t. s = uring_worker_of ctx (iu_buf_size rt) ring a b r t w)"
    using assms by (auto simp: uring_worker_new_def uring_resources_def Let_def split: prod.splits sum.splits outcome.splits if_splits) blast
  then show ?thesis using that register_cases(2) by metis
qed

lemma uinv_new:
  assumes "uring_worker_new sys rt ctx w0 = (Return (Inr s), w)" and "inflight w = {#}"
    and "config_known (ctx_servers ctx) (with_groups (ctx_upstream_groups ctx))"
    and "\<forall>c \<in> set (ctx_ssl_configs ctx). c = None"
  shows "uinv inflight {#} s" "uw_connections s = []"
proof -
  obtain ring a b r t where s: "s = uring_worker_of ctx (iu_buf_size rt) ring a b r t w" "unat (iu_buf_size rt) < 2 ^ 32"
    using uring_worker_new_cases[OF assms(1)] .
  have "(case get (ctx_ssl_configs ctx) n of Some c \<Rightarrow> c | None \<Rightarrow> None) = None" for n
    using assms(4) by (auto simp: get_def)
  then show "uinv inflight {#} s" using s assms(2,3)
    by (auto simp: uinv_defs all_backed_def uring_worker_of_def uring_listener_of_def uring_listener_new_def at_most_once_def accepts_marked_def slab_len_def slab_iter_def)
  show "uw_connections s = []" using s(1) by (simp add: uring_worker_of_def)
qed

end
