(* ===== verification/Uring_Liveness.thy ===== *)
theory Uring_Liveness
  imports Uring_Completions
begin

text \<open>
  Nothing the io_uring worker has submitted gets lost: entries leave the ring only by completing, and
  the reads of the timer and of the resolver's eventfd are submitted again when they complete. So
  after any number of iterations there is, for each connection, something in flight that will wake it.
\<close>

section \<open>What is in flight stays in flight\<close>

definition grown ::
  "('w \<Rightarrow> sqe multiset) \<Rightarrow> ('w, 'sc, 't) uring_sys \<Rightarrow> ('w, 'sc, 't) uring_worker \<Rightarrow> ('w, 'sc, 't) uring_worker \<Rightarrow> bool" where
  "grown inflight sys s t \<longleftrightarrow> (uring_ok inflight sys \<longrightarrow>
     inflight (uw_world s) \<subseteq># inflight (uw_world t) \<and> (uw_shutting_down s \<longrightarrow> uw_shutting_down t))"

lemma push_grows:
  assumes "uring_ok inflight sys" shows "inflight w \<subseteq># inflight (snd (q_push sys e w))"
proof -
  obtain b w' where p: "q_push sys e w = (b, w')" by fastforce
  have "ring_ok_contract inflight sys" using assms by (simp add: uring_ok_def)
  then have "inflight w' = (if b then add_mset e (inflight w) else inflight w)"
    using p unfolding ring_ok_contract_def by (cases b) auto
  with p show ?thesis by simp
qed

lemma call_grows:
  assumes "uring_ok inflight sys" and "w' \<in> call_ends sys w" shows "inflight w \<subseteq># inflight w'"
  using assms(2) push_grows[OF assms(1), of w] inflight_calls[OF assms(1)] unfolding call_ends_def by auto

interpretation grow: whole_frame sys "grown inflight sys" "\<lambda>_. True" for sys inflight
  by unfold_locales (auto simp: grown_def call_grows intro: subset_mset.order_trans)

section \<open>The reads that are submitted again\<close>

text \<open>The words of the entries; what holds whenever an operation ends well; an operation that ends well only with a word in flight.\<close>

definition words :: "sqe multiset \<Rightarrow> u64 set" where
  "words M = sq_user_data ` set_mset M"

definition ensures :: "('s \<Rightarrow> bool) \<Rightarrow> ('e, 's, 'a) op \<Rightarrow> bool" where
  "ensures P m \<longleftrightarrow> (\<forall>s x t. m s = (Return (Inr x), t) \<longrightarrow> P t)"

definition pushes :: "('w \<Rightarrow> sqe multiset) \<Rightarrow> u64 \<Rightarrow> ('w, 'sc, 't, 'a) uop \<Rightarrow> bool" where
  "pushes inflight u m \<longleftrightarrow> ensures (\<lambda>t. u \<in> words (inflight (uw_world t))) m"

lemma words_mono: "M \<subseteq># N \<Longrightarrow> words M \<subseteq> words N"
  unfolding words_def by (meson image_mono set_mset_mono)

lemma bindq_success:
  assumes "bindq m f s = (Return (Inr x), t)"
  obtains y u where "m s = (Return (Inr y), u)" "f y u = (Return (Inr x), t)"
  using assms by (cases "m s") (auto simp: bindq_def split: outcome.splits sum.splits)

lemma ensures_later: "(\<And>x. ensures P (f x)) \<Longrightarrow> ensures P (bindq m f)"
  unfolding ensures_def by (metis bindq_success)

lemma pushes_entry:
  assumes "uring_ok inflight sys" shows "pushes inflight (sq_user_data e) (push_entry sys e)"
  unfolding pushes_def ensures_def
proof (intro allI impI)
  fix s x t assume t: "push_entry sys e s = (Return (Inr x), t)"
  have "wp (push_entry sys e) (\<lambda>r t. \<forall>x. r = Inr x \<longrightarrow> sq_user_data e \<in> words (inflight (uw_world t))) s"
    by (rule wp_push_entry[OF assms]) (auto simp: words_def)
  with t show "sq_user_data e \<in> words (inflight (uw_world t))" by (simp add: wp_def)
qed

lemma pushes_later: "(\<And>x. pushes inflight u (f x)) \<Longrightarrow> pushes inflight u (bindq m f)"
  unfolding pushes_def by (rule ensures_later)

lemma pushes_first:
  assumes "uring_ok inflight sys" and "pushes inflight u m" and "\<And>x. framed (grown inflight sys) (f x)"
  shows "pushes inflight u (bindq m f)"
  unfolding pushes_def ensures_def
proof (intro allI impI)
  fix s x t assume "bindq m f s = (Return (Inr x), t)"
  then obtain y v where "m s = (Return (Inr y), v)" "f y v = (Return (Inr x), t)" by (rule bindq_success)
  then have "u \<in> words (inflight (uw_world v))" "grown inflight sys v t"
    using assms(2) framedD[OF assms(3)] unfolding pushes_def ensures_def by blast+
  then show "u \<in> words (inflight (uw_world t))" using assms(1) words_mono by (auto simp: grown_def)
qed

lemma pushes_reads:
  assumes "uring_ok inflight sys"
  shows "pushes inflight TIMER_USER_DATA (submit_timer_read sys)" "pushes inflight DNS_USER_DATA (submit_dns_read sys)"
  unfolding submit_timer_read_def submit_dns_read_def
  by (rule pushes_later, metis assms pushes_entry sqe.select_convs(2) value_read_def)+

lemma pushes_timeouts:
  assumes "uring_ok inflight sys" shows "pushes inflight TIMER_USER_DATA (check_proxy_timeouts sys)"
  unfolding check_proxy_timeouts_def
  by (intro pushes_later pushes_first[OF assms pushes_reads(1)[OF assms]]) simp

text \<open>The timer is always read; the eventfd of the resolver, until the shutdown.\<close>

definition armed :: "sqe multiset \<Rightarrow> bool \<Rightarrow> bool" where
  "armed M shutting_down \<longleftrightarrow> TIMER_USER_DATA \<in> words M \<and> (shutting_down \<or> DNS_USER_DATA \<in> words M)"

lemma armed_mono: "armed M b \<Longrightarrow> M \<subseteq># N \<Longrightarrow> (b \<Longrightarrow> b') \<Longrightarrow> armed N b'"
  using words_mono[of M N] by (auto simp: armed_def)

lemma dns_read_again:
  assumes "uring_ok inflight sys"
  shows "ensures (\<lambda>t. uw_shutting_down t \<or> DNS_USER_DATA \<in> words (inflight (uw_world t))) (uring_process_dns_results sys)"
proof -
  let ?P = "\<lambda>t. uw_shutting_down t \<or> DNS_USER_DATA \<in> words (inflight (uw_world t))"
  have "?P t" if u: "(if uw_shutting_down u then ok () else submit_dns_read sys) u = (Return (Inr x), t)" for u x t
  proof (cases "uw_shutting_down u")
    case True
    with u show ?thesis by (simp add: ok_def)
  next
    case False
    with u pushes_reads(2)[OF assms] show ?thesis unfolding pushes_def ensures_def by simp
  qed
  then have "ensures ?P (bindq (gets uw_shutting_down) (\<lambda>shutting_down. if shutting_down then ok () else submit_dns_read sys))"
    by (simp add: ensures_def bindq_def gets_def)
  from ensures_later[OF this] show ?thesis unfolding uring_process_dns_results_def case_prod_unfold
    by (rule ensures_later[OF ensures_later[OF ensures_later]])
qed

lemma reserved_distinct:
  "TIMER_USER_DATA \<noteq> DNS_USER_DATA" "TIMER_USER_DATA \<noteq> CONTROL_USER_DATA" "TIMER_USER_DATA \<noteq> CANCEL_USER_DATA"
  "TIMER_USER_DATA \<noteq> PROXY_CANCEL_USER_DATA" "DNS_USER_DATA \<noteq> CONTROL_USER_DATA" "DNS_USER_DATA \<noteq> CANCEL_USER_DATA"
  "DNS_USER_DATA \<noteq> PROXY_CANCEL_USER_DATA"
  by (simp_all add: CONTROL_USER_DATA_def CANCEL_USER_DATA_def DNS_USER_DATA_def TIMER_USER_DATA_def PROXY_CANCEL_USER_DATA_def)

lemma handle_cqe_armed:
  assumes sys: "uring_ok inflight sys" and t: "handle_cqe sys c s = (Return (Inr x), t)"
    and s: "armed (inflight (uw_world s) + add_mset e R) (uw_shutting_down s)" and e: "sq_user_data e = cq_user_data c"
  shows "armed (inflight (uw_world t) + R) (uw_shutting_down t)"
proof -
  have g: "inflight (uw_world s) \<subseteq># inflight (uw_world t)" "uw_shutting_down s \<longrightarrow> uw_shutting_down t"
    using framedD[OF grow.framed_handle_cqe t] sys by (simp_all add: grown_def)
  have kept: "u \<in> words (inflight (uw_world t) + R)" if "u \<in> words (inflight (uw_world s) + add_mset e R)" "u \<noteq> cq_user_data c" for u
    using that e words_mono[OF g(1)] by (auto simp: words_def)
  have "TIMER_USER_DATA \<in> words (inflight (uw_world t) + R)"
  proof (cases "cq_user_data c = TIMER_USER_DATA")
    case True
    then have "handle_cqe sys c = check_proxy_timeouts sys" by (simp add: handle_cqe_def reserved_distinct)
    then have "TIMER_USER_DATA \<in> words (inflight (uw_world t))" using t pushes_timeouts[OF sys] unfolding pushes_def ensures_def by metis
    then show ?thesis by (auto simp: words_def)
  qed (use s kept in \<open>auto simp: armed_def\<close>)
  moreover have "uw_shutting_down t \<or> DNS_USER_DATA \<in> words (inflight (uw_world t) + R)"
  proof (cases "cq_user_data c = DNS_USER_DATA")
    case True
    then have "handle_cqe sys c = uring_process_dns_results sys" by (simp add: handle_cqe_def reserved_distinct)
    then have "uw_shutting_down t \<or> DNS_USER_DATA \<in> words (inflight (uw_world t))" using t dns_read_again[OF sys] unfolding ensures_def by metis
    then show ?thesis by (auto simp: words_def)
  qed (use s g(2) kept in \<open>auto simp: armed_def\<close>)
  ultimately show ?thesis by (simp add: armed_def)
qed

text \<open>The completions of an iteration, each with the entry it uses up, if any.\<close>

fun taken :: "sqe multiset \<Rightarrow> cqe list \<Rightarrow> bool" where
  "taken R [] \<longleftrightarrow> R = {#}"
| "taken R (c # cs) \<longleftrightarrow> taken R cs \<or> (\<exists>e R'. R = add_mset e R' \<and> sq_user_data e = cq_user_data c \<and> taken R' cs)"

lemma completes_taken: "completes I cs I' \<Longrightarrow> \<exists>R. I = I' + R \<and> taken R cs"
proof (induction I cs I' rule: completes.induct)
  case (2 I c cs I')
  then obtain e where e: "e \<in># I" "sq_user_data e = cq_user_data c" "completes (if cq_more c then I else I - {#e#}) cs I'" by auto
  from 2(1)[OF e(3)] obtain R where R: "(if cq_more c then I else I - {#e#}) = I' + R" "taken R cs" by auto
  show ?case
  proof (cases "cq_more c")
    case False
    with R e(1) have "I = I' + add_mset e R" by (metis insert_DiffM union_mset_add_mset_right)
    with R e(2) show ?thesis by auto
  qed (use R in auto)
qed simp

lemma handle_completions_armed:
  assumes sys: "uring_ok inflight sys"
  shows "for_each (handle_cqe sys) cs s = (Return (Inr x), t) \<Longrightarrow> taken R cs \<Longrightarrow>
    armed (inflight (uw_world s) + R) (uw_shutting_down s) \<Longrightarrow> armed (inflight (uw_world t)) (uw_shutting_down t)"
proof (induction cs arbitrary: R s)
  case (Cons c cs)
  from Cons.prems(1) obtain y u where u: "handle_cqe sys c s = (Return (Inr y), u)" "for_each (handle_cqe sys) cs u = (Return (Inr x), t)"
    by (auto elim: bindq_success)
  from Cons.prems(2) consider (other) "taken R cs"
    | (settles) e R' where "R = add_mset e R'" "sq_user_data e = cq_user_data c" "taken R' cs" by auto
  then show ?case
  proof cases
    case other
    have "inflight (uw_world s) \<subseteq># inflight (uw_world u)" "uw_shutting_down s \<longrightarrow> uw_shutting_down u"
      using framedD[OF grow.framed_handle_cqe u(1)] sys by (simp_all add: grown_def)
    with Cons.prems(3) have "armed (inflight (uw_world u) + R) (uw_shutting_down u)" by (auto elim!: armed_mono)
    with Cons.IH[OF u(2) other] show ?thesis .
  next
    case settles
    with Cons.prems(3) handle_cqe_armed[OF sys u(1)] have "armed (inflight (uw_world u) + R') (uw_shutting_down u)" by simp
    with Cons.IH[OF u(2) settles(3)] show ?thesis .
  qed
qed (simp add: ok_def)

text \<open>Between iterations the reads are in flight.\<close>

definition reads_armed :: "('w \<Rightarrow> sqe multiset) \<Rightarrow> ('w, 'sc, 't) uring_worker \<Rightarrow> bool" where
  "reads_armed inflight s \<longleftrightarrow> armed (inflight (uw_world s)) (uw_shutting_down s)"

lemma reads_armed_grown:
  assumes "uring_ok inflight sys" and "framed (grown inflight sys) m" and "m s = (r, t)" and "reads_armed inflight s"
  shows "reads_armed inflight t"
  using framedD[OF assms(2,3)] assms(1,4) by (auto simp: grown_def reads_armed_def elim!: armed_mono)

lemma wait_armed:
  assumes sys: "uring_ok inflight sys" and s: "reads_armed inflight s"
    and t: "bindq (usyscall (q_completion sys)) (\<lambda>completions.
     bindq (for_each (handle_cqe sys) completions) (\<lambda>_.
     bindq (ring_submit sys) (\<lambda>_. ok True))) s = (Return (Inr x), t)"
  shows "reads_armed inflight t"
proof -
  obtain cs w where q: "q_completion sys (uw_world s) = (cs, w)" by fastforce
  then have "completes (inflight (uw_world s)) cs (inflight w)" using sys unfolding uring_ok_def ring_ok_contract_def by blast
  then obtain R where R: "inflight (uw_world s) = inflight w + R" "taken R cs" using completes_taken by blast
  from t q have "bindq (for_each (handle_cqe sys) cs) (\<lambda>_. bindq (ring_submit sys) (\<lambda>_. ok True)) (s\<lparr>uw_world := w\<rparr>) = (Return (Inr x), t)"
    by (simp add: bindq_def usyscall_def)
  then obtain y u where u: "for_each (handle_cqe sys) cs (s\<lparr>uw_world := w\<rparr>) = (Return (Inr y), u)"
    "bindq (ring_submit sys) (\<lambda>_. ok True) u = (Return (Inr x), t)" by (rule bindq_success)
  have "reads_armed inflight u"
    using handle_completions_armed[OF sys u(1) R(2)] s R(1) by (simp add: reads_armed_def)
  moreover have "framed (grown inflight sys) (bindq (ring_submit sys) (\<lambda>_. ok True))" by auto
  ultimately show ?thesis using reads_armed_grown[OF sys] u(2) by blast
qed

text \<open>Such an operation after another one that only submits.\<close>

definition arms :: "('w \<Rightarrow> sqe multiset) \<Rightarrow> ('w, 'sc, 't, 'a) uop \<Rightarrow> bool" where
  "arms inflight m \<longleftrightarrow> (\<forall>s x t. m s = (Return (Inr x), t) \<longrightarrow> reads_armed inflight s \<longrightarrow> reads_armed inflight t)"

lemma arms_grown: "uring_ok inflight sys \<Longrightarrow> framed (grown inflight sys) m \<Longrightarrow> arms inflight m"
  unfolding arms_def using reads_armed_grown by blast

lemma arms_bind: "arms inflight m \<Longrightarrow> (\<And>x. arms inflight (f x)) \<Longrightarrow> arms inflight (bindq m f)"
  unfolding arms_def by (metis bindq_success)

lemma uring_iteration_armed:
  fixes sys :: "('w, 'sc, 't) uring_sys"
  assumes sys: "uring_ok inflight sys"
  shows "arms inflight (uring_iteration sys)"
proof -
  have wait: "arms inflight (bindq (usyscall (q_completion sys)) (\<lambda>completions.
     bindq (for_each (handle_cqe sys) completions) (\<lambda>_. bindq (ring_submit sys) (\<lambda>_. ok True))))"
    unfolding arms_def using wait_armed[OF sys] by blast
  note calm = arms_grown[OF sys]
  have serve: "arms inflight (bindq (usyscall (q_submit_and_wait sys)) (\<lambda>r. bindq (of_result r) (\<lambda>_.
     bindq (usyscall (q_completion sys)) (\<lambda>completions.
     bindq (for_each (handle_cqe sys) completions) (\<lambda>_. bindq (ring_submit sys) (\<lambda>_. ok True))))))"
    by (rule arms_bind[OF calm arms_bind[OF calm wait]]) simp_all
  have "arms inflight (if expired then ok False else f)" if "arms inflight f" for expired and f :: "('w, 'sc, 't, bool) uop"
    using that calm[of "ok False"] by simp
  note stop = this
  show ?thesis unfolding uring_iteration_def
    by (rule arms_bind[OF calm arms_bind[OF calm arms_bind[OF calm stop[OF arms_bind[OF calm arms_bind[OF calm stop[OF serve]]]]]]]) auto
qed

lemma uring_loop_armed: "uring_ok inflight sys \<Longrightarrow> arms inflight (uring_loop sys n)"
proof (induction n)
  case (Suc n)
  then have "arms inflight (if b then uring_loop sys n else ok (Some ()))" for b
    using arms_grown[OF Suc.prems, of "ok (Some ())"] by simp
  then show ?case by (auto intro!: arms_bind uring_iteration_armed[OF Suc.prems])
qed (auto intro: arms_grown)

lemma run_uring_worker_armed:
  assumes sys: "uring_ok inflight sys" and "run_uring_worker sys n s = (Return (Inr x), t)"
  shows "reads_armed inflight t"
proof -
  obtain y u where u: "uring_start sys s = (Return (Inr y), u)" "uring_loop sys n u = (Return (Inr x), t)"
    using assms(2) unfolding run_uring_worker_def by (rule bindq_success)
  have "pushes inflight TIMER_USER_DATA (uring_start sys)"
    unfolding uring_start_def by (intro pushes_later pushes_first[OF sys pushes_reads(1)[OF sys]]) simp
  moreover have "pushes inflight DNS_USER_DATA (uring_start sys)"
    unfolding uring_start_def by (intro pushes_later pushes_first[OF sys pushes_reads(2)[OF sys]]) auto
  ultimately have "reads_armed inflight u" using u(1) unfolding pushes_def ensures_def reads_armed_def armed_def by blast
  then show ?thesis using uring_loop_armed[OF sys] u(2) unfolding arms_def by blast
qed

end
