(* ===== verification/Uring_Properties.thy ===== *)
theory Uring_Properties
  imports Uring_Liveness
begin

text \<open>
  The properties of the io_uring worker. Without TLS it runs without panicking and within its limits,
  and the buffers of operations in flight stay as they were when the operations were submitted. With
  TLS it closes sessions after the handshake and can panic. With or without it, completions of removed
  connections are ignored, and a shutdown ends at its deadline.
\<close>

section \<open>A sample outside\<close>

text \<open>The world is the list of the entries in flight, newest first; every wait completes the oldest one.\<close>

definition sample_uring :: "(sqe list, unit, unit) uring_sys" where
  "sample_uring = \<lparr>q_build = (\<lambda>_ _ w. (Inr (), w)), q_register_probe = (\<lambda>w. (Inr (\<lambda>_. True), w)),
     q_register = (\<lambda>w. (sample_ring_env, w)), q_push = (\<lambda>e w. (True, e # w)), q_submit = (\<lambda>w. (Inr (), w)),
     q_submit_and_wait = (\<lambda>w. (Inr (), w)),
     q_completion = (\<lambda>w. if w = [] then ([], []) else
       ([\<lparr>cq_user_data = sq_user_data (last w), cq_result = 5, cq_more = False, cq_buffer_id = None\<rparr>], butlast w)),
     q_received = (\<lambda>bs w. (bs, w)), q_bound = (\<lambda>_. 0), q_eventfd = (\<lambda>w. (7, w)), q_timerfd_create = (\<lambda>w. (8, w)),
     q_timerfd_settime = (\<lambda>_ w. (0, w)), q_socket = (\<lambda>_ w. (9, w)), q_last_os_error = (\<lambda>_. Os EINVAL),
     q_install_eventfd = (\<lambda>_ w. w), q_spawn = (\<lambda>_. Inr ()), q_now = (\<lambda>w. (5000, w)), q_is_requested = (\<lambda>w. (False, w)),
     q_request = (\<lambda>w. w), q_vacant_key = (\<lambda>occ w. (length (takeWhile id occ), w)), q_threads = (\<lambda>w. ([], w)),
     q_producer = (\<lambda>st w. (st, w)), q_fs = (\<lambda>w. (sample_fs ''hello'', w)), q_mime = sample_mime, s_new = (\<lambda>_. Inr ()),
     s_wants_write = (\<lambda>_. False), s_is_handshaking = (\<lambda>_. True), s_read_tls = (\<lambda>t bs. (Inr (length bs), t)),
     s_process_new_packets = (\<lambda>t. (Inr (), t)), s_read_to_end = (\<lambda>t. (([], None), t)),
     s_writer_write = (\<lambda>t bs. (Inr (length bs), t)), s_write_tls = (\<lambda>t. ((Inr 0, []), t)), s_send_close_notify = (\<lambda>t. t)\<rparr>"

lemma sample_uring_ok: "uring_ok mset sample_uring"
proof -
  have "length (takeWhile id occ) \<le> length occ" "length (takeWhile id occ) < length occ \<longrightarrow> \<not> occ ! length (takeWhile id occ)"
    for occ using length_takeWhile_le[of id occ] nth_length_takeWhile[of id occ] by auto
  moreover have "\<exists>e. e \<in> set w \<and> sq_user_data e = sq_user_data (last w) \<and> mset (butlast w) = mset w - {#e#}" if "w \<noteq> []"
    for w :: "sqe list" using that by (cases w rule: rev_cases) (auto intro!: exI[of _ "last w"])
  ultimately show ?thesis
    by (auto simp: uring_ok_def ring_ok_contract_def outside_ring_def keeps_inflight_def sample_uring_def split: if_splits)
qed

definition uring_context :: "(socket, unit) worker_context" where
  "uring_context = worker_context_of sample_config [None]
     [\<lparr>bl_socket = 3, bl_address = SocketV4 0 8080, bl_default_server = 0, bl_server_indices = [0]\<rparr>]"

definition uring_runtime :: io_uring_runtime where
  "uring_runtime = \<lparr>iu_sq_entries = 8, iu_cq_entries = 16, iu_buf_ring_size = 2, iu_buf_size = 1\<rparr>"

lemma spawns_ok: "try_for_each (\<lambda>_. Inr ()) xs = Inr ()"
  by (induction xs) simp_all

lemma sample_uring_new: "\<exists>s. uring_worker_new sample_uring uring_runtime uring_context [] = (Return (Inr s), [])"
proof -
  obtain ring where "register sample_ring_env 2 1 = Return (Inr ring)" using sample_register by blast
  then show ?thesis
    by (simp add: uring_worker_new_def sample_uring_def uring_runtime_def uring_context_def worker_context_of_def
        capabilities_probe_def validate_required_def uring_resources_def create_eventfd_def create_timerfd_def
        dns_resolver_new_def spawns_ok sample_config_def)
qed

text \<open>A run in which the worker accepts a connection.\<close>

lemma sample_start:
  "uring_start sample_uring (uring_worker_of uring_context 1 ring 7 7 resolver 8 []) =
     (Return (Inr ()), (uring_worker_of uring_context 1 ring 7 7 resolver 8
        [value_read 8 TIMER_USER_DATA, value_read 7 DNS_USER_DATA, value_read 7 CONTROL_USER_DATA,
         \<lparr>sq_submission = SubmitAcceptMulti 3, sq_user_data = encode (op_accept 0 1)\<rparr>])
        \<lparr>uw_listeners := [mark_accept_submitted (uring_listener_new 3 0 [0] None Multishot)]\<rparr>)"
  by (simp add: uring_start_def submit_initial_accepts_def submit_shutdown_read_def submit_dns_read_def submit_timer_read_def
    ring_submit_def submit_accept_def push_entry_def sample_uring_def uring_worker_of_def uring_context_def worker_context_of_def value_read_def
    uring_listener_of_def uring_listener_new_def accept_entry_def accept_operation_def operation_slot_def mark_accept_submitted_def get_def bindq_def usyscall_def gets_def ok_def modify_def of_result_def
    Let_def del: get_Some_iff)

lemma accept_word: "decode (encode (op_accept 0 1)) = Some (op_accept 0 1)" "encode (op_accept 0 1) \<notin> reserved_user_data"
proof -
  show d: "decode (encode (op_accept 0 1)) = Some (op_accept 0 1)"
    by (simp add: decode_Some_iff valid_operation_def operation_def)
  then show "encode (op_accept 0 1) \<notin> reserved_user_data" using decode_reserved by fastforce
qed

lemma sample_calls:
  "q_push sample_uring e w = (True, e # w)" "q_submit sample_uring w = (Inr (), w)" "q_submit_and_wait sample_uring w = (Inr (), w)"
  "q_completion sample_uring w = (if w = [] then ([], []) else
     ([\<lparr>cq_user_data = sq_user_data (last w), cq_result = 5, cq_more = False, cq_buffer_id = None\<rparr>], butlast w))"
  "q_bound sample_uring w = 0" "q_is_requested sample_uring w = (False, w)"
  "q_vacant_key sample_uring occ w = (length (takeWhile id occ), w)" "s_new sample_uring c = Inr ()"
  by (simp_all add: sample_uring_def)

lemmas run_defs = bindq_def usyscall_def gets_def ok_def modify_def of_result_def attempt_def umetric_def push_entry_def ring_submit_def

definition sample_started :: "buffer_ring \<Rightarrow> uring_id dns_resolver \<Rightarrow> sqe list \<Rightarrow> (sqe list, unit, unit) uring_worker" where
  "sample_started ring resolver w = (uring_worker_of uring_context 1 ring 7 7 resolver 8 w)
     \<lparr>uw_listeners := [mark_accept_submitted (uring_listener_new 3 0 [0] None Multishot)]\<rparr>"

lemma sample_fields:
  "uw_listeners (sample_started ring resolver w) = [mark_accept_submitted (uring_listener_new 3 0 [0] None Multishot)]"
  "uw_connections (sample_started ring resolver w) = []" "uw_generations (sample_started ring resolver w) = []"
  "uw_shutting_down (sample_started ring resolver w) = False" "uw_world (sample_started ring resolver w) = w"
  "uw_buffer_size (sample_started ring resolver w) = 1" "0 < unat (wl_max_connections (uw_limits (sample_started ring resolver w)))"
  by (simp_all add: sample_started_def uring_worker_of_def uring_context_def worker_context_of_def sample_config_def worker_limits_from_config_def
      config_default_def worker_config_default_def default_max_connections_def)

lemma sample_accept:
  "\<exists>k t. handle_cqe sample_uring \<lparr>cq_user_data = encode (op_accept 0 1), cq_result = 5, cq_more = False, cq_buffer_id = None\<rparr>
       (sample_started ring resolver w) = (Return (Inr ()), t) \<and> slab_get (uw_connections t) 0 = Some k"
  using accept_word sample_fields[of ring resolver w]
  by (simp add: handle_cqe_def dispatch_completion_def handle_accept_completion_def retain_connection_def
    uring_insert_connection_def submit_recv_def submit_accept_def uring_listener_new_def mark_accept_submitted_def record_completion_def operation_def
    run_defs sample_calls Let_def get_def index_uc_def update_uc_def uget_def uslot_def
    operation_slot_def accept_entry_def uring_connection_new_def reserved_user_data_def slab_len_def slab_iter_def
    multishot_is_unsupported_def slab_insert_def mark_read_submitted_def slab_get_def
    del: get_Some_iff)

lemma sample_connection:
  assumes "uring_worker_new sample_uring uring_runtime uring_context [] = (Return (Inr s), w)"
  shows "\<exists>k t. run_uring_worker sample_uring 1 s = (Return (Inr None), t) \<and> slab_get (uw_connections t) 0 = Some k"
proof -
  let ?accept = "\<lparr>sq_submission = SubmitAcceptMulti 3, sq_user_data = encode (op_accept 0 1)\<rparr>"
  let ?reads = "[value_read 8 TIMER_USER_DATA, value_read 7 DNS_USER_DATA, value_read 7 CONTROL_USER_DATA]"
  obtain ring resolver where s: "s = uring_worker_of uring_context 1 ring 7 7 resolver 8 []"
    using assms by (auto simp: uring_worker_new_def uring_resources_def create_eventfd_def create_timerfd_def sample_uring_def
        uring_runtime_def Let_def split: sum.splits outcome.splits if_splits)
  obtain k t where t: "handle_cqe sample_uring \<lparr>cq_user_data = encode (op_accept 0 1), cq_result = 5, cq_more = False, cq_buffer_id = None\<rparr>
       (sample_started ring resolver ?reads) = (Return (Inr ()), t)" "slab_get (uw_connections t) 0 = Some k"
    using sample_accept by blast
  have w: "(sample_started ring resolver v)\<lparr>uw_world := u\<rparr> = sample_started ring resolver u" for u v
    by (simp add: sample_started_def uring_worker_of_def)
  have "uring_loop sample_uring 1 (sample_started ring resolver (?reads @ [?accept])) = (Return (Inr None), t)"
    using t(1) by (simp add: uring_iteration_def run_defs sample_calls sample_fields w)
  then show ?thesis using t(2) sample_start[of ring resolver]
    by (simp add: s run_uring_worker_def bindq_def sample_started_def del: uring_loop.simps)
qed

text \<open>A worker with one TLS connection in slot 0, whose last send is in flight.\<close>

definition tls_connection :: "unit uring_connection" where
  "tls_connection = \<lparr>uc_socket = 11, uc_generation = 1, uc_listener_index = 0, uc_read_pending = False,
     uc_request_buffer = [], uc_pending_request = None, uc_request = None, uc_write_buffer = [], uc_write_offset = 0,
     uc_write_pending = True, uc_ssl_write_buffer = ''hello'', uc_ssl_write_offset = 2, uc_proxy = None,
     uc_static_stream = None, uc_ssl = Some \<lparr>us_connection = (), us_started_at = 0, us_handshake_timeout = 100, us_closing = False\<rparr>\<rparr>"

definition tls_worker :: "unit uring_connection \<Rightarrow> (sqe list, unit, unit) uring_worker" where
  "tls_worker c = (uring_worker_of uring_context 4096
     \<lparr>br_entries = [], br_buffers = [], br_mask = 0, br_tail = 0, br_buffer_len = 0\<rparr> 7 7
     \<lparr>dr_tasks = [], dr_threads = [], dr_results = [], dr_wakes = 0\<rparr> 8
     [send_entry \<lparr>ui_slot = 0, ui_generation = 1\<rparr> c])\<lparr>uw_connections := [Some c], uw_generations := [1]\<rparr>"

lemma tls_worker_current:
  "ucurrent (tls_worker c) \<lparr>ui_slot = 0, ui_generation = g\<rparr> = (if uc_generation c = g then Some c else None)"
  by (simp add: ucurrent_def uget_def uslot_def tls_worker_def)

section \<open>Workers without TLS\<close>

text \<open>What an attended connection waits for.\<close>

lemma attended_cases:
  assumes "attended k" and "uconn_ok limits k"
  obtains op where "waits k op" | p where "uc_proxy k = Some p" "up_phase p = Resolving"
    | "uc_static_stream k \<noteq> None" "uc_write_buffer k = []"
proof -
  have "\<exists>op. waits k op" if "uc_proxy k = Some p" "up_operation_pending p" "up_phase p \<noteq> Resolving" for p
    using that by (cases "up_phase p") (metis waits.simps)+
  with assms that show ?thesis unfolding attended_def by (metis waits.simps(2,3))
qed

lemma backed_operation:
  assumes "backed M i k" and "uslot_ok gens i k" and "waits k op"
  shows "\<exists>e oper. e \<in># M \<and> decode (sq_user_data e) = Some oper \<and> op_kind oper \<noteq> Accept
     \<and> unat (op_slot oper) = i \<and> op_generation oper = uc_generation k"
proof -
  let ?o = "operation op (of_nat i) (uc_generation k)"
  obtain e where e: "e \<in># M" "sq_user_data e = encode ?o" using assms(1,3) unfolding backed_def by blast
  have "op \<noteq> Accept" using assms(3) by auto
  moreover from this have "decode (sq_user_data e) = Some ?o"
    using e(2) assms(2) by (simp add: decode_Some_iff valid_operation_def operation_def uslot_ok_def)
  moreover have "unat (of_nat i :: u32) = i" using assms(2) by (simp add: uslot_ok_def unat_of_nat_small)
  ultimately show ?thesis using e(1) by (auto simp: operation_def)
qed

text \<open>What a run of a new worker ends in.\<close>

lemma run_from_new:
  assumes sys: "uring_ok inflight sys" and new: "uring_worker_new sys rt ctx w0 = (Return (Inr s), w)" and "inflight w = {#}"
    and "config_ok c" and "config_weights_positive c"
    and "ctx_servers ctx = http_servers c" and "ctx_upstream_groups ctx = upstreams c"
    and "set (ctx_ssl_configs ctx) \<subseteq> {None}"
  obtains r t R where "run_uring_worker sys n s = (Return r, t)" "uinv inflight R t" "uw_limits t = ctx_limits ctx"
    "settled inflight {#} s r t"
proof -
  have "uinv inflight {#} s" "uw_connections s = []"
    using uinv_new[OF new, of inflight] assms(3) config_known_of[OF assms(4,5)] assms(6-8) by (simp_all add: subset_iff)
  from wp_result[OF run_uring_worker_safe[OF sys this, of n]] obtain r t R
    where t: "run_uring_worker sys n s = (Return r, t)" "urg.reached inflight R s t" "settled inflight {#} s r t"
    by (auto simp: settled_def)
  have "uw_limits s = ctx_limits ctx" by (rule uring_worker_new_cases[OF new]) (simp add: uring_worker_of_def)
  then show ?thesis using that t reached_limits[OF t(2)] urg.reached_inv[OF t(2)] t(3) by simp
qed


lemma uring_context_facts:
  "ctx_servers uring_context = http_servers sample_config" "ctx_upstream_groups uring_context = upstreams sample_config"
  "set (ctx_ssl_configs uring_context) \<subseteq> {None}"
  by (simp_all add: uring_context_def worker_context_of_def)


text \<open>
  C10. Memory handed to the kernel stays valid without TLS: at the end of any run, every operation of a
  connection that is still in flight belongs to the connection that now occupies its slot, with its
  generation; that connection waits for exactly this operation; a send points to bytes that are still
  at the same place of the connection's buffer, a connect to the address still stored there; and no
  operation is in flight twice.
\<close>

theorem uring_buffers_outlive_operations:
  assumes "uring_ok inflight sys" and "uring_worker_new sys rt ctx w0 = (Return (Inr s), w)" and "inflight w = {#}"
    and "config_ok c" and "config_weights_positive c"
    and "ctx_servers ctx = http_servers c" and "ctx_upstream_groups ctx = upstreams c"
    and "set (ctx_ssl_configs ctx) \<subseteq> {None}"
  shows "\<exists>r t. run_uring_worker sys n s = (Return r, t)
     \<and> (\<forall>e oper. e \<in># inflight (uw_world t) \<longrightarrow> decode (sq_user_data e) = Some oper \<longrightarrow> op_kind oper \<noteq> Accept \<longrightarrow>
          (\<exists>k. slab_get (uw_connections t) (unat (op_slot oper)) = Some k \<and> uc_generation k = op_generation oper
             \<and> justified k (op_kind oper) (sq_submission e))
        \<and> size {#e' \<in># inflight (uw_world t). sq_user_data e' = sq_user_data e#} = 1)"
proof -
  obtain r t R where t: "run_uring_worker sys n s = (Return r, t)" "uinv inflight R t" "uw_limits t = ctx_limits ctx"
    using run_from_new[OF assms] .
  have "(\<exists>k. slab_get (uw_connections t) (unat (op_slot oper)) = Some k \<and> uc_generation k = op_generation oper
             \<and> justified k (op_kind oper) (sq_submission e))
        \<and> size {#e' \<in># inflight (uw_world t). sq_user_data e' = sq_user_data e#} = 1"
    if e: "e \<in># inflight (uw_world t)" "decode (sq_user_data e) = Some oper" "op_kind oper \<noteq> Accept" for e oper
  proof
    have op: "connection_op (sq_user_data e) = Some oper" using e(2,3) by (simp add: connection_op_def)
    have "owned (uw_connections t) e" using t(2) e(1) by (simp add: uinv_defs)
    with op show "\<exists>k. slab_get (uw_connections t) (unat (op_slot oper)) = Some k \<and> uc_generation k = op_generation oper
             \<and> justified k (op_kind oper) (sq_submission e)" by (auto simp: owned_def)
    have "at_most_once (inflight (uw_world t))" using t(2) at_most_once_mono[of "inflight (uw_world t) + R"] by (simp add: uinv_defs)
    then have "size {#e' \<in># inflight (uw_world t). sq_user_data e' = sq_user_data e#} \<le> 1" using op by (simp add: at_most_once_def)
    moreover have "e \<in># {#e' \<in># inflight (uw_world t). sq_user_data e' = sq_user_data e#}" using e(1) by simp
    then have "size {#e' \<in># inflight (uw_world t). sq_user_data e' = sq_user_data e#} \<noteq> 0"
      by (metis empty_iff set_mset_empty size_eq_0_iff_empty)
    ultimately show "size {#e' \<in># inflight (uw_world t). sq_user_data e' = sq_user_data e#} = 1" by linarith
  qed
  with t(1) show ?thesis by blast
qed

theorem uring_buffers_outlive_operations_witness:
  "\<exists>s r t. uring_worker_new sample_uring uring_runtime uring_context [] = (Return (Inr s), [])
     \<and> run_uring_worker sample_uring 3 s = (Return r, t)"
proof -
  obtain s where s: "uring_worker_new sample_uring uring_runtime uring_context [] = (Return (Inr s), [])"
    using sample_uring_new by blast
  from uring_buffers_outlive_operations[OF sample_uring_ok s _ conjunct1[OF sample_config_ok] conjunct2[OF sample_config_ok]
      uring_context_facts, of 3] s
  show ?thesis by auto
qed

text \<open>
  C11. No connection is forgotten without TLS: whenever the worker has run some iterations and goes on,
  every connection has something in flight that will wake it. Either one of its own operations is in
  flight, or it waits for the resolver, whose eventfd is being read unless the worker is shutting down
  and whose timeout the timer will notice, or it waits for the next chunk of a file, which the timer
  will collect; the timer is always being read.
\<close>

theorem uring_no_connection_forgotten:
  assumes "uring_ok inflight sys" and "uring_worker_new sys rt ctx w0 = (Return (Inr s), w)" and "inflight w = {#}"
    and "config_ok c" and "config_weights_positive c"
    and "ctx_servers ctx = http_servers c" and "ctx_upstream_groups ctx = upstreams c"
    and "set (ctx_ssl_configs ctx) \<subseteq> {None}"
    and "run_uring_worker sys n s = (Return (Inr x), t)" and "slab_get (uw_connections t) i = Some k"
  shows "(\<exists>e oper. e \<in># inflight (uw_world t) \<and> decode (sq_user_data e) = Some oper \<and> op_kind oper \<noteq> Accept
       \<and> unat (op_slot oper) = i \<and> op_generation oper = uc_generation k)
     \<or> TIMER_USER_DATA \<in># image_mset sq_user_data (inflight (uw_world t))
       \<and> ((\<exists>p. uc_proxy k = Some p \<and> up_phase p = Resolving)
            \<and> (uw_shutting_down t \<or> DNS_USER_DATA \<in># image_mset sq_user_data (inflight (uw_world t)))
          \<or> uc_static_stream k \<noteq> None \<and> uc_write_buffer k = [])"
proof -
  let ?M = "inflight (uw_world t)"
  from run_from_new[OF assms(1-8), of n] assms(9) have "settled inflight {#} s (Inr x) t" by (metis Pair_inject outcome.inject)
  then have steady: "steady inflight {#} s t" by (simp add: settled_def)
  then have inv: "uinv inflight {#} t" using steady_reached urg.reached_inv by blast
  have k: "attended k" "backed ?M i k" "uconn_ok (uw_limits t) k" "uslot_ok (uw_generations t) i k"
    using steady inv assms(10) by (auto simp: steady_def uinv_defs all_backed_def)
  have reads: "TIMER_USER_DATA \<in># image_mset sq_user_data ?M"
    "uw_shutting_down t \<or> DNS_USER_DATA \<in># image_mset sq_user_data ?M"
    using run_uring_worker_armed[OF assms(1,9)] by (auto simp: reads_armed_def armed_def words_def)
  have own: "\<exists>e oper. e \<in># ?M \<and> decode (sq_user_data e) = Some oper \<and> op_kind oper \<noteq> Accept
       \<and> unat (op_slot oper) = i \<and> op_generation oper = uc_generation k" if "waits k op" for op
    using backed_operation[OF k(2,4) that] .
  consider op where "waits k op" | p where "uc_proxy k = Some p" "up_phase p = Resolving"
    | "uc_static_stream k \<noteq> None" "uc_write_buffer k = []" using attended_cases[OF k(1,3)] .
  then show ?thesis by cases (use own reads in \<open>auto simp del: set_image_mset\<close>)
qed

theorem uring_no_connection_forgotten_witness:
  "\<exists>s t k e oper. uring_worker_new sample_uring uring_runtime uring_context [] = (Return (Inr s), [])
     \<and> run_uring_worker sample_uring 1 s = (Return (Inr None), t) \<and> slab_get (uw_connections t) 0 = Some k
     \<and> (e \<in># mset (uw_world t) \<and> decode (sq_user_data e) = Some oper \<and> unat (op_slot oper) = 0
        \<or> TIMER_USER_DATA \<in># image_mset sq_user_data (mset (uw_world t)))"
proof -
  obtain s where s: "uring_worker_new sample_uring uring_runtime uring_context [] = (Return (Inr s), [])"
    using sample_uring_new by blast
  obtain k t where t: "run_uring_worker sample_uring 1 s = (Return (Inr None), t)" "slab_get (uw_connections t) 0 = Some k"
    using sample_connection[OF s] by blast
  have "mset ([] :: sqe list) = {#}" by simp
  from uring_no_connection_forgotten[OF sample_uring_ok s this conjunct1[OF sample_config_ok] conjunct2[OF sample_config_ok] uring_context_facts t]
  show ?thesis using s t by blast
qed

section \<open>Stale completions\<close>

text \<open>At most the ring of receive buffers has changed.\<close>

definition only_ring :: "('w, 'sc, 't) uring_worker \<Rightarrow> ('w, 'sc, 't) uring_worker \<Rightarrow> bool" where
  "only_ring s t \<longleftrightarrow> t = s\<lparr>uw_buffer_ring := uw_buffer_ring t, uw_world := uw_world t\<rparr>"

lemma only_ring_refl [simp]: "only_ring s s"
  by (simp add: only_ring_def)

lemma release_buffer_frame: "\<exists>r t. release_buffer sys buffer len s = (Return r, t) \<and> only_ring s t"
proof -
  obtain contents w where w: "q_received sys (br_buffers (uw_buffer_ring s)) (uw_world s) = (contents, w)" by fastforce
  obtain r ring where "copy_and_release buffer len ((uw_buffer_ring s)\<lparr>br_buffers := contents\<rparr>) = (Return r, ring)"
    using copy_and_release_returns by blast
  with w show ?thesis by (simp add: release_buffer_def only_ring_def)
qed

lemma take_received_frame: "\<exists>r t. take_received sys message result buffer_id s = (Return r, t) \<and> only_ring s t"
proof -
  have "\<exists>r t. bindq (release_buffer sys buffer len) (\<lambda>x. ok (f x)) s = (Return r, t) \<and> only_ring s t"
    for buffer len and f :: "bytes \<Rightarrow> bytes option"
    using release_buffer_frame[of sys buffer len s] by (auto simp: bindq_def ok_def split: sum.splits)
  then show ?thesis by (cases buffer_id) (auto simp: take_received_def ok_def err_def)
qed

lemma only_ring_current: "only_ring s t \<Longrightarrow> ucurrent t i = ucurrent s i"
  unfolding only_ring_def by (metis ucurrent_frame(3,4))

text \<open>
  C20. Completions of a connection that no longer occupies its slot are ignored, with and without TLS:
  no connection changes and nothing panics; a receive gives its buffer back to the ring, and every
  other completion leaves the worker exactly as it was.
\<close>

theorem uring_stale_completion_ignored:
  fixes sys :: "('w, 'sc, 't) uring_sys"
  assumes "op_kind oper \<noteq> Accept" and "ucurrent s (id_of oper) = None"
  shows "\<exists>r t. dispatch_completion sys oper completion s = (Return r, t) \<and> only_ring s t
     \<and> (op_kind oper \<notin> {Read, ProxyRead} \<longrightarrow> r = Inr () \<and> t = s)"
proof -
  have gone: "when_current (id_of oper) f t = (Return (Inr ()), t)" "completed_proxy sys (id_of oper) m g t = (Return (Inr ()), t)"
    if "ucurrent t (id_of oper) = None" for f g m and t :: "('w, 'sc, 't) uring_worker"
    using that by (simp_all add: when_current_def completed_proxy_def current_proxy_def bindq_def gets_def ok_def)
  have taken: "\<exists>r t. bindq (take_received sys message result buffer_id) f s = (Return r, t) \<and> only_ring s t"
    if "\<And>x t. ucurrent t (id_of oper) = None \<Longrightarrow> f x t = (Return (Inr ()), t)" for message result buffer_id f
  proof -
    obtain r t where t: "take_received sys message result buffer_id s = (Return r, t)" "only_ring s t"
      using take_received_frame by metis
    have "ucurrent t (id_of oper) = None" using only_ring_current[OF t(2)] assms(2) by simp
    with t that show ?thesis by (cases r) (auto simp: bindq_def)
  qed
  show ?thesis
    using assms gone taken[OF gone(1)] taken[of "\<lambda>selected. bindq (gets uw_limits) (\<lambda>limits. completed_proxy sys (id_of oper) m (g selected limits))" for m g]
    by (cases "op_kind oper")
       (simp_all add: dispatch_completion_def handle_write_completion_def handle_proxy_connect_def handle_proxy_write_def
         handle_read_completion_def handle_proxy_read_def bindq_def gets_def Let_def)
qed

theorem uring_stale_completion_ignored_witness:
  "\<exists>r t. dispatch_completion sample_uring (op_read 0 2)
       \<lparr>cq_user_data = encode (op_read 0 2), cq_result = 0, cq_more = False, cq_buffer_id = Some 0\<rparr> (tls_worker tls_connection)
       = (Return r, t) \<and> only_ring (tls_worker tls_connection) t"
proof -
  have "ucurrent (tls_worker tls_connection) (id_of (op_read 0 2)) = None"
    by (simp add: id_of_def operation_def tls_worker_current tls_connection_def)
  from uring_stale_completion_ignored[OF _ this, where sys = sample_uring
      and completion = "\<lparr>cq_user_data = encode (op_read 0 2), cq_result = 0, cq_more = False, cq_buffer_id = Some 0\<rparr>"]
  show ?thesis by (auto simp: operation_def)
qed

section \<open>Shutdown\<close>

text \<open>
  C21. A shutdown ends at its deadline: once the drain timeout has passed since the shutdown began, the
  next iteration leaves the loop and run returns Ok, whatever connections and operations are left, and
  without touching them.
\<close>

theorem uring_shutdown_ends:
  assumes "uw_shutting_down s" and "uw_cancellation_started s" and "uw_shutdown_started s = Some started"
    and "q_is_requested sys (uw_world s) = (b, w)" and "q_now sys w = (now, w')"
    and "started + wl_drain_timeout (uw_limits s) \<le> now"
  shows "\<exists>v. uring_loop sys (Suc n) s = (Return (Inr (Some ())), s\<lparr>uw_world := v\<rparr>)"
proof -
  have "wl_drain_timeout (uw_limits s) \<le> duration_since now started" using assms(6) by simp
  then have "uring_iteration sys s = (Return (Inr False), s\<lparr>uw_world := if shutdown_drained s then w else w'\<rparr>)"
    using assms(1-5)
    by (simp add: uring_iteration_def uring_begin_shutdown_def shutdown_deadline_reached_def bindq_def usyscall_def gets_def
        ok_def shutdown_drained_def)
  then show ?thesis by (auto simp: bindq_def ok_def)
qed

theorem uring_shutdown_ends_witness:
  "\<exists>v. uring_loop sample_uring 4 ((tls_worker tls_connection)\<lparr>uw_shutting_down := True, uw_cancellation_started := True,
       uw_shutdown_started := Some 1000, uw_limits := (uw_limits (tls_worker tls_connection))\<lparr>wl_drain_timeout := 4000\<rparr>\<rparr>)
     = (Return (Inr (Some ())), (tls_worker tls_connection)\<lparr>uw_shutting_down := True, uw_cancellation_started := True,
       uw_shutdown_started := Some 1000, uw_limits := (uw_limits (tls_worker tls_connection))\<lparr>wl_drain_timeout := 4000\<rparr>, uw_world := v\<rparr>)"
proof -
  let ?s = "(tls_worker tls_connection)\<lparr>uw_shutting_down := True, uw_cancellation_started := True,
       uw_shutdown_started := Some 1000, uw_limits := (uw_limits (tls_worker tls_connection))\<lparr>wl_drain_timeout := 4000\<rparr>\<rparr>"
  have "q_is_requested sample_uring (uw_world ?s) = (False, uw_world ?s)" "q_now sample_uring (uw_world ?s) = (5000, uw_world ?s)"
    by (simp_all add: sample_uring_def)
  from uring_shutdown_ends[OF _ _ _ this, of 1000 3] show ?thesis by (simp del: uring_loop.simps add: eval_nat_numeral)
qed

section \<open>TLS\<close>

lemma bindq_uc:
  assumes "ucurrent s i = Some c"
  shows "bindq (update_uc i g) f s = f () (put_uc s i (g c))" "bindq (index_uc i) h s = h c s"
    "when_current i k s = k c s"
  using assms uget_current[OF assms]
  by (simp_all add: bindq_def update_uc_def index_uc_def when_current_def gets_def put_uc_def)

lemma bindq_umetric: "bindq (umetric g) f s = f () (s\<lparr>uw_metrics := g (uw_metrics s)\<rparr>)"
  by (simp add: bindq_def umetric_def modify_def)

lemma put_uc_simps:
  "put_uc (s\<lparr>uw_metrics := m\<rparr>) i c = (put_uc s i c)\<lparr>uw_metrics := m\<rparr>" "put_uc (put_uc s i c) i d = put_uc s i d"
  "uw_metrics (put_uc s i c) = uw_metrics s"
  by (cases s, simp add: put_uc_def)+

text \<open>The completion of a send that sends the last TLS records.\<close>

lemma tls_output_drained:
  assumes c: "ucurrent s (id_of oper) = Some c" and tls: "uc_ssl c = Some session" "\<not> s_wants_write sys (us_connection session)"
    and "uc_write_offset c = length (uc_write_buffer c)"
    and "uc_ssl_write_offset c + n = length (uc_ssl_write_buffer c)" and "0 < n"
  shows "handle_write_completion sys oper (int n) s = after_output sys (id_of oper)
    ((put_uc s (id_of oper) (c\<lparr>uc_write_pending := False, uc_ssl_write_offset := length (uc_ssl_write_buffer c)\<rparr>))
      \<lparr>uw_metrics := metric_wrote_bytes n (uw_metrics s)\<rparr>)"
proof -
  let ?i = "id_of oper" and ?d = "mark_write_completed c"
  let ?e = "c\<lparr>uc_write_pending := False, uc_ssl_write_offset := length (uc_ssl_write_buffer c)\<rparr>"
  let ?m = "\<lambda>t. t\<lparr>uw_metrics := metric_wrote_bytes n (uw_metrics s)\<rparr>"
  have g: "uc_generation c = ui_generation ?i" using ucurrentD[OF c] by simp
  have d: "ucurrent (?m (put_uc s ?i ?d)) ?i = Some ?d" "ucurrent (?m (put_uc s ?i ?e)) ?i = Some ?e"
    using c g by (simp_all add: mark_write_completed_def)
  have "send_offset ?d = uc_ssl_write_offset c" "send_buffer ?d = uc_ssl_write_buffer c" "record_sent n ?d = ?e"
    using tls assms(5) by (simp_all add: send_offset_def send_buffer_def record_sent_def mark_write_completed_def)
  moreover have "output_drained sys ?e" using tls assms(4) by (simp add: output_drained_def)
  moreover have "uc_ssl_write_offset c \<le> length (uc_ssl_write_buffer c)" "n \<le> length (uc_ssl_write_buffer c) - uc_ssl_write_offset c"
    using assms(5) by linarith+
  ultimately show ?thesis
    using assms(6) by (simp add: handle_write_completion_def Let_def bindq_uc[OF c] bindq_umetric put_uc_simps bindq_uc[OF d(1)] bindq_uc[OF d(2)])
qed

text \<open>
  C35. A TLS session is shut down as soon as its handshake records have been sent: when a send
  completes that empties the queue of records while no response is queued, no request is proxied and
  no file is streamed, the worker hands close_notify to the session and sends it, although no request
  may have been received yet.
\<close>

theorem uring_tls_closed_after_handshake:
  assumes "ucurrent s (id_of oper) = Some c" and "uc_ssl c = Some session" and "\<not> us_closing session"
    and "\<not> s_wants_write sys (us_connection session)" and "uc_write_buffer c = []" and "uc_write_offset c = 0"
    and "uc_proxy c = None" and "uc_static_stream c = None"
    and "uc_ssl_write_offset c + n = length (uc_ssl_write_buffer c)" and "0 < n"
  shows "handle_write_completion sys oper (int n) s = submit_send sys (id_of oper)
    ((put_uc s (id_of oper) (c\<lparr>uc_write_pending := False, uc_ssl_write_offset := length (uc_ssl_write_buffer c),
         uc_ssl := Some (session\<lparr>us_connection := s_send_close_notify sys (us_connection session), us_closing := True\<rparr>)\<rparr>))
      \<lparr>uw_metrics := metric_wrote_bytes n (uw_metrics s)\<rparr>)"
proof -
  let ?e = "c\<lparr>uc_write_pending := False, uc_ssl_write_offset := length (uc_ssl_write_buffer c)\<rparr>"
  let ?t = "(put_uc s (id_of oper) ?e)\<lparr>uw_metrics := metric_wrote_bytes n (uw_metrics s)\<rparr>"
  have t: "ucurrent ?t (id_of oper) = Some ?e" using assms(1) ucurrentD[OF assms(1)] by simp
  have "after_output sys (id_of oper) ?t = submit_send sys (id_of oper)
    ((put_uc s (id_of oper) (?e\<lparr>uc_ssl := Some (session\<lparr>us_connection := s_send_close_notify sys (us_connection session), us_closing := True\<rparr>)\<rparr>))
      \<lparr>uw_metrics := metric_wrote_bytes n (uw_metrics s)\<rparr>)"
    using assms(2,3,7,8) by (simp add: after_output_def bindq_uc[OF t] put_uc_simps)
  moreover have "handle_write_completion sys oper (int n) s = after_output sys (id_of oper) ?t"
    using assms by (intro tls_output_drained) simp_all
  ultimately show ?thesis by simp
qed

theorem uring_tls_closed_after_handshake_witness:
  "\<exists>t d session. handle_write_completion sample_uring (op_write 0 1) 3 (tls_worker tls_connection)
       = submit_send sample_uring \<lparr>ui_slot = 0, ui_generation = 1\<rparr> t
     \<and> ucurrent t \<lparr>ui_slot = 0, ui_generation = 1\<rparr> = Some d \<and> uc_request d = None \<and> uc_ssl d = Some session \<and> us_closing session"
proof -
  let ?s = "tls_worker tls_connection" and ?i = "\<lparr>ui_slot = 0, ui_generation = 1\<rparr>"
  have i: "id_of (op_write 0 1) = ?i" by (simp add: id_of_def operation_def)
  have c: "ucurrent ?s (id_of (op_write 0 1)) = Some tls_connection"
    unfolding i by (simp add: tls_worker_current tls_connection_def)
  have "handle_write_completion sample_uring (op_write 0 1) (int 3) ?s = submit_send sample_uring ?i
    ((put_uc ?s ?i (tls_connection\<lparr>uc_write_pending := False, uc_ssl_write_offset := length (uc_ssl_write_buffer tls_connection),
       uc_ssl := Some (\<lparr>us_connection = (), us_started_at = 0, us_handshake_timeout = 100, us_closing = False\<rparr>
         \<lparr>us_connection := s_send_close_notify sample_uring (us_connection
           \<lparr>us_connection = (), us_started_at = 0, us_handshake_timeout = 100, us_closing = False\<rparr>), us_closing := True\<rparr>)\<rparr>))
     \<lparr>uw_metrics := metric_wrote_bytes 3 (uw_metrics ?s)\<rparr>)" (is "_ = submit_send sample_uring ?i ?t")
    by (rule uring_tls_closed_after_handshake[OF c, unfolded i]) (simp_all add: tls_connection_def sample_uring_def)
  moreover have "\<exists>d session. ucurrent ?t ?i = Some d \<and> uc_request d = None \<and> uc_ssl d = Some session \<and> us_closing session"
    using c unfolding i by (simp add: tls_connection_def)
  ultimately show ?thesis by (intro exI[of _ ?t]) simp
qed

lemma panics_iff: "fst (m s) = Panic \<longleftrightarrow> \<not> wp m (\<lambda>_ _. True) s"
  by (auto simp: wp_def split: prod.splits outcome.splits)

text \<open>
  C36. The worker panics when TLS records are sent while the upstream of a request is still looked up:
  when the send completes, it receives from an upstream socket that does not exist yet.
\<close>

theorem uring_tls_resolving_panics:
  assumes "ucurrent s (id_of oper) = Some c" and "uc_ssl c = Some session"
    and "\<not> s_wants_write sys (us_connection session)" and "uc_write_offset c = length (uc_write_buffer c)"
    and "uc_proxy c = Some x" and "up_upstream x = None" and "uc_static_stream c = None"
    and "uc_ssl_write_offset c + n = length (uc_ssl_write_buffer c)" and "0 < n"
  shows "fst (handle_write_completion sys oper (int n) s) = Panic"
proof -
  let ?e = "c\<lparr>uc_write_pending := False, uc_ssl_write_offset := length (uc_ssl_write_buffer c)\<rparr>"
  let ?t = "(put_uc s (id_of oper) ?e)\<lparr>uw_metrics := metric_wrote_bytes n (uw_metrics s)\<rparr>"
  have t: "ucurrent ?t (id_of oper) = Some ?e" and g: "uc_generation c = ui_generation (id_of oper)"
    using assms(1) ucurrentD[OF assms(1)] by simp_all
  have "\<not> wp (after_output sys (id_of oper)) (\<lambda>_ _. True) ?t"
    using assms(5-7) g t
    by (simp add: after_output_def submit_proxy_read_def wp_index_uc wp_update_uc wp_usyscall update_up_def uring_record_progress_def)
  moreover have "handle_write_completion sys oper (int n) s = after_output sys (id_of oper) ?t"
    using assms by (intro tls_output_drained) simp_all
  ultimately show ?thesis by (simp add: panics_iff[symmetric])
qed

theorem uring_tls_resolving_panics_witness:
  "fst (handle_write_completion sample_uring (op_write 0 1) 3
     (tls_worker (tls_connection\<lparr>uc_proxy := Some (resolving 4000 ''GET / HTTP/1.1'')\<rparr>))) = Panic"
proof -
  have "id_of (op_write 0 1) = \<lparr>ui_slot = 0, ui_generation = 1\<rparr>" by (simp add: id_of_def operation_def)
  then have "fst (handle_write_completion sample_uring (op_write 0 1) (int 3)
     (tls_worker (tls_connection\<lparr>uc_proxy := Some (resolving 4000 ''GET / HTTP/1.1'')\<rparr>))) = Panic"
    by (intro uring_tls_resolving_panics[where c = "tls_connection\<lparr>uc_proxy := Some (resolving 4000 ''GET / HTTP/1.1'')\<rparr>"
          and x = "resolving 4000 ''GET / HTTP/1.1''"])
       (simp_all add: tls_worker_current tls_connection_def sample_uring_def resolving_def)
  then show ?thesis by simp
qed


end
