(* ===== verification/Uring_Resolver.thy ===== *)
theory Uring_Resolver
  imports Dns_Resolver
begin

text \<open>
  The resolver of the io_uring runtime, \<open>runtime/io_uring/resolver.rs\<close>: the channels and threads of
  \<open>Dns_Resolver\<close> with an eventfd that a thread writes after each answer, and the worker that reads this
  eventfd through its ring and drains the answers when the read completes (\<open>submit_dns_read\<close> and
  \<open>process_dns_results\<close> of \<open>runtime/io_uring/worker.rs\<close>). The theory shows that no answer waits unnoticed,
  and that a worker which shuts down can miss one.
\<close>

section \<open>The resolver and its eventfd\<close>

record 'i uring_resolver =
  ur_channels :: "'i dns_resolver"
  ur_eventfd :: u64

definition uring_resolver_new :: "(nat \<Rightarrow> io_error + unit) \<Rightarrow> nat \<Rightarrow> u64 \<Rightarrow> io_error + 'i uring_resolver" where
  "uring_resolver_new spawn thread_count eventfd = (case dns_resolver_new spawn thread_count of
     Inl e \<Rightarrow> Inl e
   | Inr channels \<Rightarrow> Inr \<lparr>ur_channels = channels, ur_eventfd = eventfd\<rparr>)"

definition uring_resolve :: "'i \<Rightarrow> bytes \<Rightarrow> 'i uring_resolver \<Rightarrow> (io_error + unit) \<times> 'i uring_resolver" where
  "uring_resolve connection_id address r = (case resolve connection_id address (ur_channels r) of
     (result, channels) \<Rightarrow> (result, r\<lparr>ur_channels := channels\<rparr>))"

definition uring_drain :: "'i uring_resolver \<Rightarrow> 'i resolve_result list \<times> 'i uring_resolver" where
  "uring_drain r = (case drain (ur_channels r) of (results, channels) \<Rightarrow> (results, r\<lparr>ur_channels := channels\<rparr>))"

text \<open>
  One step of a thread. \<open>put c v\<close> is the counter of an eventfd at \<open>c\<close> after \<open>libc::write\<close> of \<open>v\<close>, whose result
  the code ignores.
\<close>

fun uring_thread_step :: "(u64 \<Rightarrow> u64 \<Rightarrow> u64) \<Rightarrow> thread_action \<Rightarrow> 'i uring_resolver \<Rightarrow> 'i uring_resolver" where
  "uring_thread_step put (Receive i) r = r\<lparr>ur_channels := thread_step (Receive i) (ur_channels r)\<rparr>"
| "uring_thread_step put (Answer i addresses) r = r\<lparr>ur_channels := thread_step (Answer i addresses) (ur_channels r)\<rparr>"
| "uring_thread_step put (Wake i) r = (case get (dr_threads (ur_channels r)) i of
     Some Answered \<Rightarrow> r\<lparr>ur_channels := thread_step (Wake i) (ur_channels r), ur_eventfd := put (ur_eventfd r) 1\<rparr>
   | _ \<Rightarrow> r)"

text \<open>What is relied on of the kernel: an eventfd that a thread has written is readable, even when its counter is full.\<close>

definition written_readable :: "(u64 \<Rightarrow> u64 \<Rightarrow> u64) \<Rightarrow> bool" where
  "written_readable put \<longleftrightarrow> (\<forall>c. put c 1 \<noteq> 0)"

section \<open>The worker that reads the eventfd\<close>

text \<open>The read of the eventfd is in flight, has completed, or has not been submitted again.\<close>

datatype dns_read = InFlight | Completed | NotSubmitted

record 'i dns_wakeup =
  dw_resolver :: "'i uring_resolver"
  dw_read :: dns_read
  dw_shutting_down :: bool
  dw_delivered :: "'i resolve_result list"

definition wakeup_start :: "'i uring_resolver \<Rightarrow> 'i dns_wakeup" where
  "wakeup_start r = \<lparr>dw_resolver = r, dw_read = InFlight, dw_shutting_down = False, dw_delivered = []\<rparr>"

text \<open>
  \<open>process_dns_results\<close>, with the answers it passes to \<open>finish_resolution\<close> in \<open>dw_delivered\<close>; an error of
  \<open>finish_resolution\<close> or of the submission ends the worker and is not followed here.
\<close>

definition deliver_results :: "'i dns_wakeup \<Rightarrow> 'i dns_wakeup" where
  "deliver_results s = (case uring_drain (dw_resolver s) of (results, r) \<Rightarrow>
     s\<lparr>dw_resolver := r, dw_delivered := dw_delivered s @ results,
       dw_read := (if dw_shutting_down s then NotSubmitted else InFlight)\<rparr>)"

text \<open>
  The steps of the threads, of the worker and of the kernel, which may complete a read at any time and
  leaves any value in the counter.
\<close>

inductive wakeup_step :: "(u64 \<Rightarrow> u64 \<Rightarrow> u64) \<Rightarrow> 'i dns_wakeup \<Rightarrow> 'i dns_wakeup \<Rightarrow> bool" for put where
  thread: "wakeup_step put s (s\<lparr>dw_resolver := uring_thread_step put a (dw_resolver s)\<rparr>)"
| lookup: "wakeup_step put s (s\<lparr>dw_resolver := snd (uring_resolve connection_id address (dw_resolver s))\<rparr>)"
| complete: "dw_read s = InFlight \<Longrightarrow>
    wakeup_step put s (s\<lparr>dw_read := Completed, dw_resolver := (dw_resolver s)\<lparr>ur_eventfd := c\<rparr>\<rparr>)"
| deliver: "dw_read s = Completed \<Longrightarrow> wakeup_step put s (deliver_results s)"
| shutdown: "wakeup_step put s (s\<lparr>dw_shutting_down := True\<rparr>)"

abbreviation wakeup_steps :: "(u64 \<Rightarrow> u64 \<Rightarrow> u64) \<Rightarrow> 'i dns_wakeup \<Rightarrow> 'i dns_wakeup \<Rightarrow> bool" where
  "wakeup_steps put \<equiv> (wakeup_step put)\<^sup>*\<^sup>*"

abbreviation dw_channels :: "'i dns_wakeup \<Rightarrow> 'i dns_resolver" where
  "dw_channels s \<equiv> ur_channels (dw_resolver s)"

section \<open>No answer waits unnoticed\<close>

text \<open>Something will make the worker drain: a completed read, a readable eventfd, or a thread about to write it.\<close>

definition noticed :: "'i dns_wakeup \<Rightarrow> bool" where
  "noticed s \<longleftrightarrow> dw_read s = Completed
     \<or> dw_read s = InFlight \<and> (ur_eventfd (dw_resolver s) \<noteq> 0 \<or> Answered \<in> set (dr_threads (dw_channels s)))"

definition wakeup_inv :: "'i dns_wakeup \<Rightarrow> bool" where
  "wakeup_inv s \<longleftrightarrow> dw_shutting_down s
     \<or> dw_read s \<noteq> NotSubmitted \<and> (dr_results (dw_channels s) = [] \<or> noticed s)"

lemma Answered_update:
  assumes "get ts i = Some t" and "t \<noteq> Answered" and "Answered \<in> set ts"
  shows "Answered \<in> set (ts[i := u])"
proof -
  obtain j where "j < length ts" "ts ! j = Answered" using assms(3) by (auto simp: in_set_conv_nth)
  moreover from this assms(1,2) have "i \<noteq> j" by auto
  ultimately show ?thesis by (metis length_list_update nth_list_update_neq nth_mem)
qed

lemma channels_uring_thread_step [simp]:
  "ur_channels (uring_thread_step put a r) = thread_step a (ur_channels r)"
  by (cases a) (auto split: option.splits resolver_thread.splits)

text \<open>Its channels are those the worker runs and drains.\<close>

lemma channels_run_threads: "ur_channels (fold (uring_thread_step put) actions r) = run_threads actions (ur_channels r)"
  unfolding run_threads_def by (induction actions arbitrary: r) simp_all

lemma thread_step_Answered:
  assumes "dr_results r \<noteq> [] \<longrightarrow> Answered \<in> set (dr_threads r)" and "\<And>i. a \<noteq> Wake i"
    and "dr_results (thread_step a r) \<noteq> []"
  shows "Answered \<in> set (dr_threads (thread_step a r))"
proof (cases a)
  case (Receive i)
  then show ?thesis using assms(1,3) Answered_update[of "dr_threads r" i Waiting]
    by (auto split: option.splits resolver_thread.splits list.splits)
next
  case (Answer i addresses)
  then show ?thesis using assms(1,3)
    by (auto simp: set_update_memI split: option.splits resolver_thread.splits)
next
  case (Wake i)
  then show ?thesis using assms(2) by blast
qed

lemma uring_thread_step_inv:
  assumes "written_readable put" and "wakeup_inv s"
  shows "wakeup_inv (s\<lparr>dw_resolver := uring_thread_step put a (dw_resolver s)\<rparr>)"
proof (cases "\<exists>i. a = Wake i")
  case True
  then show ?thesis using assms
    by (auto simp: wakeup_inv_def noticed_def written_readable_def split: option.splits resolver_thread.splits)
next
  case False
  then have "ur_eventfd (uring_thread_step put a (dw_resolver s)) = ur_eventfd (dw_resolver s)" by (cases a) auto
  with False assms(2) thread_step_Answered[of "dw_channels s" a] show ?thesis
    by (cases "dw_read s") (auto simp: wakeup_inv_def noticed_def)
qed

lemma wakeup_step_inv:
  assumes "written_readable put" and "wakeup_step put s t" and "wakeup_inv s"
  shows "wakeup_inv t"
  using assms(2)
proof cases
  case thread
  with uring_thread_step_inv[OF assms(1,3)] show ?thesis by simp
next
  case lookup
  with assms(3) show ?thesis
    by (auto simp: wakeup_inv_def noticed_def uring_resolve_def resolve_def split: if_splits)
next
  case complete
  then show ?thesis by (simp add: wakeup_inv_def noticed_def)
next
  case deliver
  then show ?thesis by (simp add: wakeup_inv_def deliver_results_def uring_drain_def drain_def)
next
  case shutdown
  then show ?thesis by (simp add: wakeup_inv_def)
qed

lemma wakeup_inv_start: "uring_resolver_new spawn n c = Inr r \<Longrightarrow> wakeup_inv (wakeup_start r)"
  by (auto simp: wakeup_inv_def wakeup_start_def uring_resolver_new_def dns_resolver_new_def split: sum.splits)

lemma wakeup_inv_steps:
  assumes "written_readable put" and "wakeup_steps put s t" and "wakeup_inv s"
  shows "wakeup_inv t"
  using assms(2,3) by induction (auto intro: wakeup_step_inv[OF assms(1)])

text \<open>
  C24. No wakeup is lost: in every interleaving of the resolver threads, the kernel and the worker, as long
  as the worker is not shutting down, an answer that has not been collected is about to be: the read
  of the eventfd has completed, or it is in flight and the eventfd is readable, or it is in flight and
  a thread is about to write the eventfd.
\<close>

theorem resolver_wakes_worker:
  assumes "written_readable put" and "uring_resolver_new spawn n c = Inr r"
    and "wakeup_steps put (wakeup_start r) s" and "\<not> dw_shutting_down s" and "dr_results (dw_channels s) \<noteq> []"
  shows "dw_read s = Completed
     \<or> dw_read s = InFlight \<and> (ur_eventfd (dw_resolver s) \<noteq> 0
        \<or> (\<exists>i. get (dr_threads (dw_channels s)) i = Some Answered
            \<and> ur_eventfd (uring_thread_step put (Wake i) (dw_resolver s)) \<noteq> 0))"
proof -
  have "noticed s" using wakeup_inv_steps[OF assms(1,3) wakeup_inv_start[OF assms(2)]] assms(4,5)
    by (simp add: wakeup_inv_def)
  then consider "dw_read s = Completed" | "dw_read s = InFlight" "ur_eventfd (dw_resolver s) \<noteq> 0"
    | i where "dw_read s = InFlight" "get (dr_threads (dw_channels s)) i = Some Answered"
    by (auto simp: noticed_def in_set_conv_nth)
  then show ?thesis
    by cases (use assms(1) in \<open>auto simp: written_readable_def simp del: get_Some_iff\<close>)
qed

text \<open>A sample: an eventfd whose counter stays at its maximum, one thread, and a lookup that it has answered.\<close>

definition sample_eventfd :: "u64 \<Rightarrow> u64 \<Rightarrow> u64" where
  "sample_eventfd c v = (if c \<ge> - 1 - v then c else c + v)"

definition sample_resolver :: "'i uring_resolver" where
  "sample_resolver = \<lparr>ur_channels = \<lparr>dr_tasks = [], dr_threads = [Waiting], dr_results = [], dr_wakes = 0\<rparr>, ur_eventfd = 0\<rparr>"

lemma sample_eventfd_readable: "written_readable sample_eventfd"
proof -
  have "c + 1 \<noteq> 0" if "\<not> c \<ge> - 1 - 1" for c :: u64
  proof
    assume "c + 1 = 0"
    then have "c = - 1" by (simp add: eq_neg_iff_add_eq_0)
    with that show False by simp
  qed
  then show ?thesis by (auto simp: written_readable_def sample_eventfd_def)
qed

lemma sample_resolver_new: "uring_resolver_new (\<lambda>_. Inr ()) 1 0 = Inr sample_resolver"
  by (simp add: uring_resolver_new_def dns_resolver_new_def sample_resolver_def)

lemma wakeup_steps_step: "wakeup_step put t u \<Longrightarrow> wakeup_steps put s t \<Longrightarrow> wakeup_steps put s u"
  by simp

lemmas wakeup_extend = wakeup_step.intros[THEN wakeup_steps_step]

theorem resolver_wakes_worker_witness:
  "\<exists>s :: nat dns_wakeup. wakeup_steps sample_eventfd (wakeup_start sample_resolver) s \<and> dr_results (dw_channels s) \<noteq> []
     \<and> dw_read s = InFlight \<and> (\<exists>i. get (dr_threads (dw_channels s)) i = Some Answered
            \<and> ur_eventfd (uring_thread_step sample_eventfd (Wake i) (dw_resolver s)) \<noteq> 0)"
proof -
  let ?s0 = "wakeup_start sample_resolver :: nat dns_wakeup"
  let ?s1 = "?s0\<lparr>dw_resolver := snd (uring_resolve 7 ''a:80'' (dw_resolver ?s0))\<rparr>"
  let ?s2 = "?s1\<lparr>dw_resolver := uring_thread_step sample_eventfd (Receive 0) (dw_resolver ?s1)\<rparr>"
  define s where "s = ?s2\<lparr>dw_resolver := uring_thread_step sample_eventfd (Answer 0 (Inr [])) (dw_resolver ?s2)\<rparr>"
  have steps: "wakeup_steps sample_eventfd (wakeup_start sample_resolver) s"
    unfolding s_def by (intro wakeup_extend(1,2) rtranclp.rtrancl_refl)
  have facts: "\<not> dw_shutting_down s" "dr_results (dw_channels s) \<noteq> []" "dw_read s = InFlight" "ur_eventfd (dw_resolver s) = 0"
    by (simp_all add: s_def wakeup_start_def sample_resolver_def uring_resolve_def resolve_def get_def)
  from resolver_wakes_worker[OF sample_eventfd_readable sample_resolver_new steps facts(1,2)] facts steps
  show ?thesis by (auto simp del: get_Some_iff)
qed

section \<open>A shutdown can miss an answer\<close>

lemma not_submitted_steps:
  assumes "wakeup_steps put s t" and "dw_read s = NotSubmitted"
  shows "dw_read t = NotSubmitted \<and> dw_delivered t = dw_delivered s"
  using assms by induction (auto elim: wakeup_step.cases)

text \<open>
  C38. During a shutdown the worker reads the eventfd of the resolver once more at most: of two lookups that
  were both requested before the shutdown, one is delivered, and the answer of the other never is,
  whatever the threads, the kernel and the worker do from then on.
\<close>

theorem shutdown_strands_lookup:
  "\<exists>s. wakeup_steps put (wakeup_start sample_resolver) s \<and> map rr_connection_id (dw_delivered s) = [a]
     \<and> outstanding (dw_channels s) = {#b#} \<and> \<not> (\<exists>t. wakeup_steps put s t \<and> dw_delivered t \<noteq> dw_delivered s)"
proof -
  let ?s0 = "wakeup_start sample_resolver"
  let ?s1 = "?s0\<lparr>dw_resolver := snd (uring_resolve a ''a:80'' (dw_resolver ?s0))\<rparr>"
  let ?s2 = "?s1\<lparr>dw_resolver := snd (uring_resolve b ''b:80'' (dw_resolver ?s1))\<rparr>"
  let ?s3 = "?s2\<lparr>dw_resolver := uring_thread_step put (Receive 0) (dw_resolver ?s2)\<rparr>"
  let ?s4 = "?s3\<lparr>dw_resolver := uring_thread_step put (Answer 0 (Inr [])) (dw_resolver ?s3)\<rparr>"
  let ?s5 = "?s4\<lparr>dw_resolver := uring_thread_step put (Wake 0) (dw_resolver ?s4)\<rparr>"
  let ?s6 = "?s5\<lparr>dw_shutting_down := True\<rparr>"
  define s7 where "s7 = ?s6\<lparr>dw_read := Completed, dw_resolver := (dw_resolver ?s6)\<lparr>ur_eventfd := 0\<rparr>\<rparr>"
  have "wakeup_steps put ?s0 s7" unfolding s7_def
    by (intro wakeup_extend(1,2,3,5) rtranclp.rtrancl_refl) (simp add: wakeup_start_def)
  then have steps: "wakeup_steps put ?s0 (deliver_results s7)" by (intro wakeup_extend(4)) (simp_all add: s7_def)
  have "dw_read (deliver_results s7) = NotSubmitted" "map rr_connection_id (dw_delivered (deliver_results s7)) = [a]"
    "outstanding (dw_channels (deliver_results s7)) = {#b#}"
    by (simp_all add: deliver_results_def uring_drain_def drain_def s7_def wakeup_start_def sample_resolver_def
        uring_resolve_def resolve_def get_def outstanding_def)
  with steps not_submitted_steps show ?thesis by metis
qed

end
