(* ===== verification/Worker_Process.thy ===== *)
theory Worker_Process
  imports Readiness_Properties Uring_Properties
begin

text \<open>
  A worker process from end to end: \<open>start_worker\<close> with the event loops of both runtimes in place of its
  arguments. \<open>readiness_run\<close> is \<open>run\<close> of \<open>runtime/readiness/worker.rs\<close>, \<open>io_uring_run\<close> is the \<open>run\<close> of \<open>IoUringRuntime\<close>
  in \<open>runtime/io_uring/mod.rs\<close>; both build a worker and run the first \<open>n\<close> iterations of its loop.
\<close>

section \<open>The event loops of a process\<close>

definition loop_outcome :: "(io_error + unit option) outcome \<Rightarrow> run_outcome" where
  "loop_outcome r = (case r of
     Panic \<Rightarrow> Some Panic
   | Return (Inl e) \<Rightarrow> Some (Return (Inl e))
   | Return (Inr None) \<Rightarrow> None
   | Return (Inr (Some u)) \<Rightarrow> Some (Return (Inr u)))"

definition readiness_run ::
  "('w, 'sc, 't) sys \<Rightarrow> 'w \<Rightarrow> nat \<Rightarrow> usize \<Rightarrow> (socket, 'sc) worker_context \<Rightarrow> run_outcome" where
  "readiness_run sys w n max_events ctx = (case readiness_worker_new sys ctx w of
     (Inl e, _) \<Rightarrow> Some (Return (Inl e))
   | (Inr s, _) \<Rightarrow> loop_outcome (fst (run_worker sys (unat max_events) n s)))"

definition io_uring_run ::
  "('w, 'sc, 't) uring_sys \<Rightarrow> 'w \<Rightarrow> nat \<Rightarrow> io_uring_runtime \<Rightarrow> (socket, 'sc) worker_context \<Rightarrow> run_outcome" where
  "io_uring_run sys w n rt ctx = (case uring_worker_new sys rt ctx w of
     (Panic, _) \<Rightarrow> Some Panic
   | (Return (Inl e), _) \<Rightarrow> Some (Return (Inl e))
   | (Return (Inr s), _) \<Rightarrow> loop_outcome (fst (run_uring_worker sys n s)))"

text \<open>
  The environment of a process on Linux: the probe asks the kernel, which answers \<open>build\<close>, \<open>supported\<close> and
  \<open>ring\<close>, and the runtimes are the two event loops.
\<close>

definition linux_env ::
  "('c, 'cert, 'key, 'builder, 'sc, socket) startup_env \<Rightarrow> (u32 \<Rightarrow> u32 \<Rightarrow> io_error + unit) \<Rightarrow> io_error + (opcode \<Rightarrow> bool) \<Rightarrow> ring_env \<Rightarrow>
   ('w, 'sc, 't) sys \<Rightarrow> 'w \<Rightarrow> ('v, 'sc, 'u) uring_sys \<Rightarrow> 'v \<Rightarrow> nat \<Rightarrow> ('c, 'cert, 'key, 'builder, 'sc, socket) startup_env" where
  "linux_env env build supported ring sys w usys v n = env\<lparr>se_probe := probe build supported ring,
     se_readiness := readiness_run sys w n, se_uring := io_uring_run usys v n\<rparr>"

section \<open>No panic\<close>

lemma loop_outcome_Panic [simp]: "loop_outcome r = Some Panic \<longleftrightarrow> r = Panic"
  by (auto simp: loop_outcome_def split: outcome.splits sum.splits option.splits)

lemma readiness_run_safe:
  assumes "sys_ok sys" and "config_ok c" and "config_weights_positive c"
  shows "readiness_run sys w n max_events (worker_context_of c ssl_configs bound) \<noteq> Some Panic"
proof -
  have "fst (run_worker sys (unat max_events) n s) \<noteq> Panic"
    if "readiness_worker_new sys (worker_context_of c ssl_configs bound) w = (Inr s, w')" for s w'
  proof -
    have "winv s" using winv_new[OF that] config_known_of[OF assms(2,3)] by (simp add: worker_context_of_def)
    then have "rdy.safe s (run_worker sys (unat max_events) n) s" by (intro run_worker_safe[OF assms(1)] rdy.reached_refl)
    then show ?thesis by (rule rdy.safe_result) simp
  qed
  then show ?thesis by (auto simp: readiness_run_def split: prod.splits sum.splits)
qed

lemma uring_worker_new_no_panic: "fst (uring_worker_new sys rt ctx w) \<noteq> Panic"
  using register_cases(1)
  by (auto simp: uring_worker_new_def split: prod.splits sum.splits outcome.splits)

lemma probe_no_panic: "probe build supported env rt \<noteq> Panic"
  using register_cases(1) by (auto simp: probe_def split: sum.splits outcome.splits)

text \<open>A new ring has nothing in flight.\<close>

definition new_ring_empty :: "('v \<Rightarrow> sqe multiset) \<Rightarrow> ('v, 'sc, 'u) uring_sys \<Rightarrow> 'v \<Rightarrow> bool" where
  "new_ring_empty inflight sys w \<longleftrightarrow> (\<forall>rt ctx s w'. uring_worker_new sys rt ctx w = (Return (Inr s), w') \<longrightarrow> inflight w' = {#})"

lemma io_uring_run_safe:
  assumes "uring_ok inflight sys" and "new_ring_empty inflight sys w" and "config_ok c" and "config_weights_positive c"
    and "set ssl_configs \<subseteq> {None}"
  shows "io_uring_run sys w n rt (worker_context_of c ssl_configs bound) \<noteq> Some Panic"
proof -
  let ?ctx = "worker_context_of c ssl_configs bound"
  have "fst (run_uring_worker sys n s) \<noteq> Panic" if s: "uring_worker_new sys rt ?ctx w = (Return (Inr s), w')" for s w'
  proof -
    have "inflight w' = {#}" using assms(2) s by (auto simp: new_ring_empty_def)
    moreover have "ctx_servers ?ctx = http_servers c" "ctx_upstream_groups ?ctx = upstreams c" "set (ctx_ssl_configs ?ctx) \<subseteq> {None}"
      using assms(5) by (simp_all add: worker_context_of_def)
    ultimately obtain r t where "run_uring_worker sys n s = (Return r, t)"
      using run_from_new[OF assms(1) s _ assms(3,4)] by metis
    then show ?thesis by simp
  qed
  moreover have "fst (uring_worker_new sys rt ?ctx w) \<noteq> Panic" by (rule uring_worker_new_no_panic)
  ultimately show ?thesis by (auto simp: io_uring_run_def split: prod.splits sum.splits outcome.splits)
qed

lemma no_tls_configs:
  assumes "load_ssl_configs lib servers = Inr configs" and "\<forall>s \<in> set servers. ssl s = None"
  shows "set configs \<subseteq> {None}"
proof -
  let ?load = "\<lambda>s. case ssl s of None \<Rightarrow> Inr None | Some c \<Rightarrow> (case load_ssl_config lib c of Inl e \<Rightarrow> Inl e | Inr l \<Rightarrow> Inr (Some l))"
  have "map ?load servers = map Inr configs" using assms(1) by (simp add: load_ssl_configs_def collect_results_Inr_iff)
  then have "Inr k \<in> ?load ` set servers" if "k \<in> set configs" for k using that by (metis image_eqI set_map)
  then have "k = None" if "k \<in> set configs" for k using that assms(2) by fastforce
  then show ?thesis by auto
qed

end
