(* ===== verification/Spec2Isabelle.thy ===== *)
theory Spec2Isabelle
  imports Load_Balancer Upstream_Proxy Static_Files Listener Startup Token Operation Buffer_Ring Master
    Readiness_Properties Uring_Properties Uring_Resolver Worker_Process
begin

text \<open>
  This development models and verifies thwip, a reverse proxy and static file server in Rust. A master
  process (\<open>run/master\<close>) loads and validates the configuration (\<open>crates/core\<close>), forks one worker per
  core and restarts those that fail. A worker (\<open>run/slave\<close>) binds one listener per configured address,
  loads the TLS configurations, chooses a runtime and serves its connections in one event loop: it
  parses a request head, selects the virtual host and the location, and answers with a canned response,
  with a file that a thread reads, or with the response of an upstream, whose name a pool of threads
  resolves. There are two runtimes: the readiness runtime (epoll or kqueue, through mio) and the io_uring
  runtime.

  \<^bold>\<open>Theories and the code they model.\<close> Paths are relative to \<open>src/\<close>.

  \<^item> \<open>Prelude\<close>, \<open>Rust_Text\<close>, \<open>Rust_Io\<close>: what the code uses of the Rust language and its standard library:
    machine words, panics (\<open>outcome\<close>), operations on a state that may fail or panic (\<open>op\<close>, with \<open>bindq\<close>
    for \<open>?\<close>), their weakest preconditions (\<open>wp\<close>) and the locale \<open>guarded_steps\<close>; strings and numbers;
    errors and their kinds, paths, the file system as a record of functions.
  \<^item> \<open>Config\<close>: \<open>crates/core/src/runtime/config.rs\<close>. Data types, defaults, the checks of the deserialisation
    and \<open>validate\<close>, which is shown equivalent to the declarative \<open>config_ok\<close>.
  \<^item> \<open>Http\<close>: \<open>run/slave/src/http.rs\<close>. The request-head parser and the body framing: soundness, a printer
    that the parser inverts, fragmentation.
  \<^item> \<open>Router\<close>: \<open>run/slave/src/router.rs\<close>. Precedence of locations, virtual hosts, generated responses.
  \<^item> \<open>Load_Balancer\<close>: \<open>run/slave/src/load_balancer.rs\<close>. Selection against the reference schedule.
  \<^item> \<open>Upstream_Proxy\<close>: \<open>run/slave/src/proxy.rs\<close>. Upstream URLs and the rewritten request, read back by
    the program's own parser.
  \<^item> \<open>Static_Files\<close>: \<open>run/slave/src/static_files.rs\<close>. Confinement to the document root, ranges, and the
    stream as a producer and a receiver around a channel of two messages, in any interleaving.
  \<^item> \<open>Listener\<close>: \<open>run/slave/src/listener.rs\<close>. Listener groups and binding.
  \<^item> \<open>Startup\<close>: \<open>run/slave/src/startup.rs\<close>, \<open>ssl.rs\<close>, \<open>runtime/mod.rs\<close>, \<open>runtime/epoll.rs\<close>. Limits, metrics,
    the shutdown handle with its interleavings, the signals, TLS loading, the choice of the runtime and
    \<open>start_worker\<close>, over arguments for the two event loops.
  \<^item> \<open>Identity\<close>: the locales \<open>id_codec\<close>, \<open>generation_counter\<close> and \<open>slot_ids\<close>, the contract of event words that
    carry a slot and a generation. It is interpreted for the mio tokens in \<open>Token\<close>
    (\<open>runtime/readiness/token.rs\<close>) and for the \<open>user_data\<close> words in \<open>Operation\<close> (\<open>runtime/io_uring/operation.rs\<close>).
  \<^item> \<open>Buffer_Ring\<close>: \<open>runtime/io_uring/buffer_ring.rs\<close>, \<open>capabilities.rs\<close> and the probe of \<open>mod.rs\<close>. The locale
    \<open>lent_pool\<close> is the contract of a pool whose buffers are in the ring or lent to completions.
  \<^item> \<open>Master\<close>: \<open>run/master/src/main.rs\<close>. One iteration of the supervision loop as a function of what the
    operating system answers, and the runs of the loop.
  \<^item> \<open>Slab\<close>: the table of connections that a worker keeps.
  \<^item> \<open>Dns_Resolver\<close>: \<open>runtime/readiness/resolver.rs\<close>. The resolver's channels and threads, in any interleaving;
    the type of the identity is a parameter, so that both workers use it.
  \<^item> \<open>Uring_Resolver\<close>: \<open>runtime/io_uring/resolver.rs\<close>. The same channels with the eventfd that wakes the ring, and
    the step relation of threads, kernel and worker around it.
  \<^item> \<open>Worker_Common\<close>: what both event loops rely on, the validated configuration and the generations of slots.
  \<^item> \<open>Readiness_Connection\<close>: \<open>runtime/readiness/connection.rs\<close>, \<open>proxy.rs\<close>. The phases of a connection.
  \<^item> \<open>Readiness_Worker\<close>: \<open>runtime/readiness/worker.rs\<close>, every method of \<open>ReadinessWorker\<close> as an operation of
    the same name on the record \<open>readiness_worker\<close>. Inner loops and the arms of long matches are
    definitions of their own (\<open>read_loop\<close>, \<open>accept_head\<close>, \<open>perform_action\<close>, \<open>write_loop\<close>, \<open>response_written\<close>).
  \<^item> \<open>Readiness_Invariant\<close>: the contract \<open>sys_ok\<close> of the outside, the invariant \<open>winv\<close>, the abstract life cycle of
    connections (\<open>lifecycle\<close>), and the interpretation \<open>rdy\<close> of \<open>guarded_steps\<close>.
  \<^item> \<open>Readiness_Safety\<close>: one lemma per operation: it does not panic, keeps the invariant and refines the
    life cycle.
  \<^item> \<open>Readiness_Properties\<close>: what follows for the event loop.
  \<^item> \<open>Uring_Connection\<close>: \<open>runtime/io_uring/connection.rs\<close> and \<open>listener.rs\<close>. The flags of a connection that say
    which of its operations are outstanding, the upstream half of a proxied request, and the submissions.
  \<^item> \<open>Uring_Worker\<close>: \<open>runtime/io_uring/worker.rs\<close>, every method of \<open>IoUringWorker\<close> as an operation on the record
    \<open>uring_worker\<close>, with the prefix \<open>uring_\<close> where the readiness worker has a method of the same name.
  \<^item> \<open>Uring_Invariant\<close>: the contract \<open>uring_ok\<close> of the ring, the invariant \<open>uinv\<close> that ties the flags to the
    operations in flight in both directions (\<open>usound\<close>: what is in flight has its flag; \<open>all_backed\<close>: what has its
    flag is in flight), the interpretation \<open>urg\<close> of \<open>guarded_steps\<close>, and rules for operations on one
    connection (\<open>serving\<close>).
  \<^item> \<open>Uring_Frame\<close>: the locales \<open>worker_frame\<close> and \<open>whole_frame\<close>, relations between states that the worker's
    primitives keep and with them all its operations; interpreted as \<open>same\<close> for what a call leaves of
    the connections of other slots.
  \<^item> \<open>Uring_Safety\<close>: one lemma per operation of a worker without TLS: it does not panic, keeps \<open>uinv\<close>, and
    leaves the connection it serves waiting for something (\<open>attended\<close>) or removed.
  \<^item> \<open>Uring_Completions\<close>: the same for completions, the iterations of the loop and a new worker.
  \<^item> \<open>Uring_Liveness\<close>: the reads of the eventfds and of the timer are always in flight; \<open>grow\<close> interprets
    \<open>whole_frame\<close> for the entries that an operation only adds to.
  \<^item> \<open>Uring_Properties\<close>: what follows for the event loop, and what goes wrong with TLS.
  \<^item> \<open>Worker_Process\<close>: \<open>run\<close> of \<open>runtime/readiness/worker.rs\<close> and of \<open>runtime/io_uring/mod.rs\<close>, and the environment of
    \<open>start_worker\<close> with both event loops and the probe in place.
  \<^item> This theory: the composition of configuration, listeners, virtual hosts and the event loop, and a
    worker process from \<open>start_worker\<close> to the iterations of the runtime it selects.

  \<^bold>\<open>The outside.\<close> Code that is not in the repository is an argument: the operating system, mio, rustls,
  socket2, toml, mime_guess, core_affinity and slab. For the readiness worker it is the record \<open>sys\<close> of
  functions on an arbitrary world; \<open>sys_ok\<close> states what is relied on: a read returns at most what was
  asked for and a write reports at most what was given, the slab hands out a vacant key not above its
  length, the file threads take only the steps of \<open>producer_step\<close>, and accepted connections and interrupted
  calls are finite in number. Nothing is assumed of clocks, of events (their number, order, tokens and flags),
  of TLS sessions, of answers of the resolver, or of any error. For the io_uring worker it is the record
  \<open>uring_sys\<close>, and \<open>uring_ok\<close> speaks of the entries in flight through an observer \<open>inflight\<close> of the world: a push
  that succeeds adds its entry, every completion belongs to an entry in flight and ends it unless it is
  a multishot accept that goes on, no other call changes what is in flight, a full queue is found only
  finitely often, and the slab hands out a vacant key. Nothing is assumed of the results of operations,
  of buffer identities, or of the order of completions.

  \<^bold>\<open>What the lemmas show of the readiness worker.\<close> A worker on a validated configuration never panics,
  stays within its limits on connections and buffers, and every iteration refines the life cycle: a
  connection receives a request, is looked up and relayed at most once, a response of the proxy itself
  never follows bytes of the upstream, and nothing is opened while draining. Stale events change nothing,
  timeouts and shutdown close exactly the connections they should, the drain deadline ends \<open>run\<close>, and the
  accept loop terminates. Two lemmas show how a streamed file can be damaged.

  \<^bold>\<open>What the lemmas show of the io_uring worker.\<close> Without TLS, a worker on a validated configuration never
  panics and stays within its limits, and every operation of a connection that is in flight belongs to
  the connection that now occupies its slot, which waits for exactly this operation, with the bytes the
  kernel may read still in place: connections are removed and their buffers changed only when nothing of
  theirs is in flight. Conversely no connection is forgotten: each has an operation in flight, or waits for
  the resolver or a file and is found by the timer or the eventfd, whose reads are in flight. Stale completions change nothing, and a shutdown ends at its deadline, both with
  and without TLS. With TLS these guarantees fail, and three lemmas show how: a session is closed after
  its handshake records are sent, a send that completes while the upstream is looked up panics, and
  the handshake timeout frees a buffer that is being sent. The eventfd of the resolver loses no wakeup
  until the worker shuts down; from then on it is read once more at most, and an answer can be missed.

  \<^bold>\<open>What the lemmas show of a worker process.\<close> \<open>start_worker\<close> on a validated configuration, with signals, pinning,
  listeners, TLS loading, the probe and the event loop composed as in the code, does not panic in any
  number of iterations, with io_uring as long as there is no TLS server. A request is served by a server
  that is configured for the address it arrived at.

  \<^bold>\<open>Loops and fuel.\<close> Loops over data are structural recursion or have a measure. Loops of the worker that the
  code bounds run 16 times (\<open>MAX_READS_PER_EVENT\<close>, \<open>MAX_WRITES_PER_EVENT\<close>). The two it does not bound, the
  accept loop and the read that is repeated while interrupted, take \<open>k_bound\<close> plus one steps of fuel, and
  running out of it is a panic, so that the safety lemmas show that the fuel is enough; for the
  accept loop every larger fuel is shown to give the same result. In the io_uring worker the loop that
  submits until the queue has room takes \<open>q_bound\<close> plus one steps, and the loop over the addresses of an
  upstream one more than there are addresses; again running out is a panic. The event loops themselves
  run forever unless they are shut down: \<open>run_worker n\<close> and \<open>run_uring_worker n\<close> are their first \<open>n\<close>
  iterations, for every \<open>n\<close>.

  \<^bold>\<open>Not modelled.\<close> Messages on the standard streams (\<open>report\<close> among them), the closing of dropped file
  descriptors, the code for systems other than Linux (the kqueue backend, which has the same body as epoll,
  and the functions that report io_uring and CPU affinity as unavailable), the inside of the \<open>signal_hook\<close>
  iterator, whose first signal is an argument, and the derived implementations of \<open>serde\<close>, of which only
  the checks written in the code are modelled. Crate roots and \<open>mod.rs\<close> files hold declarations only. What the kernel does with
  a buffer that a TLS connection of the io_uring worker has freed is outside the model, which ends where
  the code loses track of the buffer.
\<close>

section \<open>From the configuration to the server of a request\<close>







section \<open>A worker process\<close>





end
